(* ===== verification/Errors.thy ===== *)
theory Errors
  imports Pymod_Prelude
begin

text \<open>
  The exception hierarchy of \<open>src/pymod/errors.py\<close> and the built-in exceptions that the
  modelled code can raise.  An exception is represented by its class and, for the Modbus
  exception responses, by its \<open>code\<close> attribute; the message strings carry no control flow
  and are left out.
\<close>

section \<open>Exception responses\<close>

datatype response_class =
    ModbusExceptionResponse
  | IllegalFunction
  | IllegalDataAddress
  | IllegalDataValue
  | SlaveDeviceFailure
  | Acknowledge
  | SlaveDeviceBusy
  | MemoryParityError
  | GatewayPathUnavailable
  | GatewayTargetFailedToRespond

text \<open>The class attribute \<open>code\<close>.\<close>

primrec class_code :: "response_class \<Rightarrow> int" where
  "class_code ModbusExceptionResponse = 0"
| "class_code IllegalFunction = 0x01"
| "class_code IllegalDataAddress = 0x02"
| "class_code IllegalDataValue = 0x03"
| "class_code SlaveDeviceFailure = 0x04"
| "class_code Acknowledge = 0x05"
| "class_code SlaveDeviceBusy = 0x06"
| "class_code MemoryParityError = 0x08"
| "class_code GatewayPathUnavailable = 0x0A"
| "class_code GatewayTargetFailedToRespond = 0x0B"

text \<open>
  The exceptions a modelled operation can raise: first the classes of \<open>errors.py\<close>, then
  the built-in ones and those of pyserial.  \<open>HostError n\<close> stands for any other exception a host callback may
  raise, told apart by a number.
\<close>

datatype py_exn =
    ModbusError
  | ModbusTransportError
  | ModbusTimeoutError
  | ModbusConnectionError
  | ModbusCRCError
  | ModbusProtocolError
  | ResponseError response_class int
  | ValueError
  | TypeError
  | AttributeError
  | IndexError
  | OverflowError
  | KeyError
  | StructError
  | AssertionError
  | AsyncTimeoutError
  | IncompleteReadError
  | OSError
  | RuntimeError
  | ZeroDivisionError
  | SystemExit
  | SerialException
  | SerialTimeoutException
  | EOFError
  | KeyboardInterrupt
  | HostError nat

type_synonym 'a result = "py_exn + 'a"

text \<open>\<open>ModbusExceptionResponse.__init__\<close>: an explicit \<open>code\<close> overrides the class attribute.\<close>

definition mk_response :: "response_class \<Rightarrow> int option \<Rightarrow> py_exn" where
  "mk_response cls code =
     ResponseError cls (case code of None \<Rightarrow> class_code cls | Some c \<Rightarrow> c)"

definition EXCEPTION_BY_CODE :: "int \<rightharpoonup> response_class" where
  "EXCEPTION_BY_CODE = map_of
     [(0x01, IllegalFunction),
      (0x02, IllegalDataAddress),
      (0x03, IllegalDataValue),
      (0x04, SlaveDeviceFailure),
      (0x05, Acknowledge),
      (0x06, SlaveDeviceBusy),
      (0x08, MemoryParityError),
      (0x0A, GatewayPathUnavailable),
      (0x0B, GatewayTargetFailedToRespond)]"

section \<open>Classes and \<open>isinstance\<close>\<close>

datatype exn_class =
    C_ModbusError
  | C_ModbusTransportError
  | C_ModbusTimeoutError
  | C_ModbusConnectionError
  | C_ModbusCRCError
  | C_ModbusProtocolError
  | C_Response response_class

text \<open>The class of an exception, when it is one of \<open>errors.py\<close>.\<close>

fun class_of :: "py_exn \<Rightarrow> exn_class option" where
  "class_of ModbusError = Some C_ModbusError"
| "class_of ModbusTransportError = Some C_ModbusTransportError"
| "class_of ModbusTimeoutError = Some C_ModbusTimeoutError"
| "class_of ModbusConnectionError = Some C_ModbusConnectionError"
| "class_of ModbusCRCError = Some C_ModbusCRCError"
| "class_of ModbusProtocolError = Some C_ModbusProtocolError"
| "class_of (ResponseError c _) = Some (C_Response c)"
| "class_of _ = None"

text \<open>The direct base class within \<open>errors.py\<close>.\<close>

fun base_class :: "exn_class \<Rightarrow> exn_class option" where
  "base_class C_ModbusError = None"
| "base_class C_ModbusTransportError = Some C_ModbusError"
| "base_class C_ModbusTimeoutError = Some C_ModbusTransportError"
| "base_class C_ModbusConnectionError = Some C_ModbusTransportError"
| "base_class C_ModbusCRCError = Some C_ModbusTransportError"
| "base_class C_ModbusProtocolError = Some C_ModbusError"
| "base_class (C_Response ModbusExceptionResponse) = Some C_ModbusError"
| "base_class (C_Response c) = Some (C_Response ModbusExceptionResponse)"

fun class_depth :: "exn_class \<Rightarrow> nat" where
  "class_depth C_ModbusError = 0"
| "class_depth C_ModbusTransportError = 1"
| "class_depth C_ModbusProtocolError = 1"
| "class_depth (C_Response ModbusExceptionResponse) = 1"
| "class_depth _ = 2"

lemma base_class_depth: "base_class c = Some b \<Longrightarrow> class_depth b < class_depth c"
proof (cases c)
  case (C_Response r)
  then show "base_class c = Some b \<Longrightarrow> ?thesis" by (cases r) auto
qed auto

text \<open>\<open>issubclass\<close>, walking up the chain of base classes.\<close>

function issubclass :: "exn_class \<Rightarrow> exn_class \<Rightarrow> bool" where
  "issubclass c d =
     (c = d \<or> (case base_class c of None \<Rightarrow> False | Some b \<Rightarrow> issubclass b d))"
  by pat_completeness auto
termination
  by (relation "measure (\<lambda>(c, d). class_depth c)") (auto dest: base_class_depth)

declare issubclass.simps [simp del]

definition isinstance_exn :: "py_exn \<Rightarrow> exn_class \<Rightarrow> bool" where
  "isinstance_exn e d = (case class_of e of None \<Rightarrow> False | Some c \<Rightarrow> issubclass c d)"

abbreviation is_modbus_error :: "py_exn \<Rightarrow> bool" where
  "is_modbus_error e \<equiv> isinstance_exn e C_ModbusError"

section \<open>The hierarchy\<close>

lemma issubclass_refl [simp]: "issubclass c c"
  by (subst issubclass.simps) simp

lemma issubclass_base: "base_class c = Some b \<Longrightarrow> issubclass b d \<Longrightarrow> issubclass c d"
  by (subst issubclass.simps) simp

lemma issubclass_ModbusError [simp]: "issubclass c C_ModbusError"
proof (induction c "C_ModbusError" rule: issubclass.induct)
  case (1 c)
  then show ?case
    by (cases "base_class c"; cases c rule: base_class.cases) (auto intro: issubclass_base)
qed

lemma issubclass_trans: "issubclass a b \<Longrightarrow> issubclass b c \<Longrightarrow> issubclass a c"
proof (induction a b rule: issubclass.induct)
  case (1 a b)
  then show ?case
    by (cases "base_class a") (auto simp: issubclass.simps [of a b] intro: issubclass_base)
qed

lemma is_modbus_error_iff: "is_modbus_error e \<longleftrightarrow> class_of e \<noteq> None"
  by (simp add: isinstance_exn_def split: option.split)

lemma is_modbus_error_simps [simp]:
  "is_modbus_error ModbusError" "is_modbus_error ModbusTransportError"
  "is_modbus_error ModbusTimeoutError" "is_modbus_error ModbusConnectionError"
  "is_modbus_error ModbusCRCError" "is_modbus_error ModbusProtocolError"
  "is_modbus_error (ResponseError c n)"
  "\<not> is_modbus_error ValueError" "\<not> is_modbus_error TypeError"
  "\<not> is_modbus_error AttributeError" "\<not> is_modbus_error IndexError"
  "\<not> is_modbus_error OverflowError" "\<not> is_modbus_error KeyError" "\<not> is_modbus_error StructError"
  "\<not> is_modbus_error AssertionError" "\<not> is_modbus_error AsyncTimeoutError"
  "\<not> is_modbus_error IncompleteReadError" "\<not> is_modbus_error OSError"
  "\<not> is_modbus_error RuntimeError" "\<not> is_modbus_error ZeroDivisionError" "\<not> is_modbus_error SystemExit"
  "\<not> is_modbus_error SerialException" "\<not> is_modbus_error SerialTimeoutException"
  "\<not> is_modbus_error EOFError" "\<not> is_modbus_error KeyboardInterrupt"
  "\<not> is_modbus_error (HostError k)"
  by (simp_all add: is_modbus_error_iff)

lemma EXCEPTION_BY_CODE_class_code:
  "EXCEPTION_BY_CODE n = Some c \<Longrightarrow> class_code c = n"
  by (auto simp: EXCEPTION_BY_CODE_def split: if_splits)

lemma EXCEPTION_BY_CODE_of_class:
  "c \<noteq> ModbusExceptionResponse \<Longrightarrow> EXCEPTION_BY_CODE (class_code c) = Some c"
  by (cases c) (simp_all add: EXCEPTION_BY_CODE_def)

lemma class_code_range: "0 \<le> class_code c \<and> class_code c \<le> 255"
  by (cases c) simp_all

end
