(* ===== verification/Effects.thy ===== *)
theory Effects
  imports Errors
begin

text \<open>
  Stateful code: an effect takes the state of its environment (a host's store, a transport, the event
  loop) and gives the value or exception of the call with the state after it.  What was changed
  before an exception stays changed.
\<close>

type_synonym ('s, 'a) effect = "'s \<Rightarrow> 'a result \<times> 's"

definition pureS :: "'a result \<Rightarrow> ('s, 'a) effect" where
  "pureS r st = (r, st)"

definition bindS :: "('s, 'a) effect \<Rightarrow> ('a \<Rightarrow> ('s, 'b) effect) \<Rightarrow> ('s, 'b) effect" where
  "bindS m f st = (case m st of (Inl e, st') \<Rightarrow> (Inl e, st') | (Inr x, st') \<Rightarrow> f x st')"

text \<open>\<open>try: m; except Exception: pass\<close>, and \<open>try: m; except E as e: h e\<close>.\<close>

definition ignoreS :: "('s, 'a) effect \<Rightarrow> ('s, unit) effect" where
  "ignoreS m st = (Inr (), snd (m st))"

definition catchS :: "('s, 'a) effect \<Rightarrow> (py_exn \<Rightarrow> ('s, 'a) effect) \<Rightarrow> ('s, 'a) effect" where
  "catchS m h st = (case m st of (Inl e, st') \<Rightarrow> h e st' | (Inr x, st') \<Rightarrow> (Inr x, st'))"

lemma bindS_pureS [simp]:
  "bindS (pureS (Inr x)) f = f x" "bindS (pureS (Inl e)) f = pureS (Inl e)"
  by (simp_all add: bindS_def pureS_def fun_eq_iff)

lemma bindS_eq_Inr:
  "bindS m f st = (Inr y, st') \<longleftrightarrow> (\<exists>x st1. m st = (Inr x, st1) \<and> f x st1 = (Inr y, st'))"
  by (auto simp: bindS_def split: prod.splits sum.splits)

lemma bindS_eq_Inl:
  "bindS m f st = (Inl e, st') \<longleftrightarrow>
     m st = (Inl e, st') \<or> (\<exists>x st1. m st = (Inr x, st1) \<and> f x st1 = (Inl e, st'))"
  by (auto simp: bindS_def split: prod.splits sum.splits)

lemma pureS_eq [simp]: "pureS r st = (r', st') \<longleftrightarrow> r = r' \<and> st = st'"
  by (auto simp: pureS_def)

end
