(* ===== verification/Py_Runtime.thy ===== *)
theory Py_Runtime
  imports Errors
begin

text \<open>
  What the modelled code uses of Python itself: indexing and slicing, \<open>int.to_bytes\<close> and
  \<open>int.from_bytes\<close>, and the \<open>struct\<close> formats of the protocol layer.  Every primitive
  raises where Python does: \<open>IndexError\<close> out of range, \<open>OverflowError\<close> from
  \<open>to_bytes\<close>, \<open>struct.error\<close> for a value that does not fit its field or a buffer of
  the wrong size.
\<close>

section \<open>Sequences\<close>

text \<open>\<open>xs[i]\<close>: a negative index counts from the end.\<close>

definition py_index :: "'a list \<Rightarrow> int \<Rightarrow> 'a result" where
  "py_index xs i =
     (let pos = (if 0 \<le> i then i else int (length xs) + i)
      in if pos < 0 \<or> int (length xs) \<le> pos then Inl IndexError else Inr (xs ! nat pos))"

text \<open>\<open>xs[i:j]\<close>: bounds are clipped, negative ones count from the end.\<close>

definition slice_bound :: "nat \<Rightarrow> int \<Rightarrow> nat" where
  "slice_bound n i = (if i < 0 then nat (int n + i) else min n (nat i))"

definition py_slice :: "'a list \<Rightarrow> int \<Rightarrow> int \<Rightarrow> 'a list" where
  "py_slice xs i j =
     (let a = slice_bound (length xs) i; b = slice_bound (length xs) j
      in take (b - a) (drop a xs))"

text \<open>\<open>range(n)\<close>.\<close>

definition py_range :: "int \<Rightarrow> int list" where
  "py_range n = map int [0..<nat n]"

section \<open>Integers and bytes\<close>

text \<open>The literals \<open>"big"\<close> and \<open>"little"\<close> of \<open>ByteOrder\<close> and \<open>WordOrder\<close>.\<close>

datatype order = Big | Little

primrec be_bytes :: "nat \<Rightarrow> int \<Rightarrow> bytes" where
  "be_bytes 0 v = []"
| "be_bytes (Suc n) v = be_bytes n (v div 256) @ [word_of_int v]"

definition be_val :: "bytes \<Rightarrow> int" where
  "be_val bs = foldl (\<lambda>acc b. acc * 256 + uint b) 0 bs"

text \<open>\<open>v.to_bytes(n, order, signed=s)\<close>.\<close>

definition int_to_bytes :: "int \<Rightarrow> nat \<Rightarrow> order \<Rightarrow> bool \<Rightarrow> bytes result" where
  "int_to_bytes v n ord s =
     (if (if s then - (2 ^ (8 * n - 1)) \<le> v \<and> v < 2 ^ (8 * n - 1)
          else 0 \<le> v \<and> v < 2 ^ (8 * n))
      then Inr (case ord of Big \<Rightarrow> be_bytes n v | Little \<Rightarrow> rev (be_bytes n v))
      else Inl OverflowError)"

text \<open>\<open>int.from_bytes(bs, order, signed=s)\<close>.\<close>

definition int_from_bytes :: "bytes \<Rightarrow> order \<Rightarrow> bool \<Rightarrow> int" where
  "int_from_bytes bs ord s =
     (let v = be_val (case ord of Big \<Rightarrow> bs | Little \<Rightarrow> rev bs);
          w = 8 * length bs
      in if s \<and> bs \<noteq> [] \<and> 2 ^ (w - 1) \<le> v then v - 2 ^ w else v)"

text \<open>\<open>bytes([...])\<close> of one element.\<close>

definition byte_of_int :: "int \<Rightarrow> bytes result" where
  "byte_of_int v = (if 0 \<le> v \<and> v \<le> 255 then Inr [word_of_int v] else Inl ValueError)"

section \<open>\<open>struct\<close>\<close>

definition pack_B :: "int \<Rightarrow> bytes result" where
  "pack_B v = (if 0 \<le> v \<and> v \<le> 0xFF then Inr (be_bytes 1 v) else Inl StructError)"

definition pack_H :: "order \<Rightarrow> int \<Rightarrow> bytes result" where
  "pack_H ord v =
     (if 0 \<le> v \<and> v \<le> 0xFFFF
      then Inr (case ord of Big \<Rightarrow> be_bytes 2 v | Little \<Rightarrow> rev (be_bytes 2 v))
      else Inl StructError)"

text \<open>\<open>struct.pack(">BHH", a, b, c)\<close> and its kin, packed left to right.\<close>

definition pack_BHH :: "int \<Rightarrow> int \<Rightarrow> int \<Rightarrow> bytes result" where
  "pack_BHH a b c =
     bindE (pack_B a) (\<lambda>x. bindE (pack_H Big b) (\<lambda>y. bindE (pack_H Big c) (\<lambda>z. Inr (x @ y @ z))))"

definition pack_BHHB :: "int \<Rightarrow> int \<Rightarrow> int \<Rightarrow> int \<Rightarrow> bytes result" where
  "pack_BHHB a b c d =
     bindE (pack_BHH a b c) (\<lambda>x. bindE (pack_B d) (\<lambda>y. Inr (x @ y)))"

definition pack_HHHB :: "int \<Rightarrow> int \<Rightarrow> int \<Rightarrow> int \<Rightarrow> bytes result" where
  "pack_HHHB a b c d =
     bindE (pack_H Big a) (\<lambda>w. bindE (pack_H Big b) (\<lambda>x. bindE (pack_H Big c) (\<lambda>y.
       bindE (pack_B d) (\<lambda>z. Inr (w @ x @ y @ z)))))"

text \<open>\<open>struct.pack(f">{n}H", *values)\<close>.\<close>

definition pack_nH :: "int list \<Rightarrow> bytes result" where
  "pack_nH vs = bindE (mapE (pack_H Big) vs) (\<lambda>bss. Inr (concat bss))"

definition u16 :: "byte \<Rightarrow> byte \<Rightarrow> int" where
  "u16 hi lo = uint hi * 256 + uint lo"

fun unpack_H :: "order \<Rightarrow> bytes \<Rightarrow> int result" where
  "unpack_H Big [a, b] = Inr (u16 a b)"
| "unpack_H Little [a, b] = Inr (u16 b a)"
| "unpack_H _ _ = Inl StructError"

fun unpack_HH :: "bytes \<Rightarrow> (int \<times> int) result" where
  "unpack_HH [a, b, c, d] = Inr (u16 a b, u16 c d)"
| "unpack_HH _ = Inl StructError"

fun unpack_BHH :: "bytes \<Rightarrow> (int \<times> int \<times> int) result" where
  "unpack_BHH [a, b, c, d, e] = Inr (uint a, u16 b c, u16 d e)"
| "unpack_BHH _ = Inl StructError"

fun unpack_HHHB :: "bytes \<Rightarrow> (int \<times> int \<times> int \<times> int) result" where
  "unpack_HHHB [a, b, c, d, e, f, g] = Inr (u16 a b, u16 c d, u16 e f, uint g)"
| "unpack_HHHB _ = Inl StructError"

fun words_be :: "bytes \<Rightarrow> int list" where
  "words_be (a # b # bs) = u16 a b # words_be bs"
| "words_be _ = []"

text \<open>\<open>struct.unpack(f">{n}H", bs)\<close>.\<close>

definition unpack_nH :: "int \<Rightarrow> bytes \<Rightarrow> int list result" where
  "unpack_nH n bs = (if 0 \<le> n \<and> int (length bs) = 2 * n then Inr (words_be bs) else Inl StructError)"

text \<open>\<open>bool((v >> k) & 1)\<close>.\<close>

definition shift_and_1 :: "int \<Rightarrow> nat \<Rightarrow> bool" where
  "shift_and_1 v k = (drop_bit k v AND 1 \<noteq> 0)"

section \<open>Sequence facts\<close>

lemma py_index_nat [simp]:
  "0 \<le> i \<Longrightarrow> i < int (length xs) \<Longrightarrow> py_index xs i = Inr (xs ! nat i)"
  by (simp add: py_index_def)

lemma py_slice_nat:
  "0 \<le> i \<Longrightarrow> i \<le> j \<Longrightarrow> py_slice xs i j = take (nat j - nat i) (drop (nat i) xs)"
  by (auto simp: py_slice_def slice_bound_def Let_def min_def)

lemma length_py_slice:
  "0 \<le> i \<Longrightarrow> i \<le> j \<Longrightarrow> j \<le> int (length xs) \<Longrightarrow> length (py_slice xs i j) = nat (j - i)"
  by (simp add: py_slice_nat)

lemma set_py_range [simp]: "set (py_range n) = {0..<n}"
proof -
  have "int ` {0..<nat n} = {0..<n}"
    by (cases "0 \<le> n") (auto simp: image_int_atLeastLessThan)
  then show ?thesis by (simp add: py_range_def)
qed

lemma length_py_range [simp]: "length (py_range n) = nat n"
  by (simp add: py_range_def)

section \<open>Byte facts\<close>

lemma length_be_bytes [simp]: "length (be_bytes n v) = n"
  by (induction n arbitrary: v) simp_all

lemma be_val_snoc [simp]: "be_val (bs @ [b]) = be_val bs * 256 + uint b"
  by (simp add: be_val_def)

lemma be_val_Nil [simp]: "be_val [] = 0"
  by (simp add: be_val_def)

lemma be_val_bytes: "be_val (be_bytes n v) = v mod 256 ^ n"
proof (induction n arbitrary: v)
  case 0
  then show ?case by simp
next
  case (Suc n)
  have "v mod 256 ^ Suc n = 256 * (v div 256 mod 256 ^ n) + v mod 256"
    by (simp add: zmod_zmult2_eq)
  then show ?case by (simp add: Suc)
qed

lemma be_val_bounds: "0 \<le> be_val bs \<and> be_val bs < 256 ^ length bs"
proof (induction bs rule: rev_induct)
  case Nil
  then show ?case by simp
next
  case (snoc b bs)
  have "be_val bs * 256 + uint b < (be_val bs + 1) * 256"
    using uint_byte_bounds(2) [of b] by (simp add: algebra_simps)
  also have "\<dots> \<le> 256 ^ length bs * 256"
    using snoc by (intro mult_right_mono) auto
  finally show ?case using snoc by simp
qed

lemma be_bytes_val: "be_bytes (length bs) (be_val bs) = bs"
proof (induction bs rule: rev_induct)
  case Nil
  then show ?case by simp
next
  case (snoc b bs)
  have "(be_val bs * 256 + uint b) div 256 = be_val bs"
    using uint_byte_bounds [of b] by linarith
  moreover have "(word_of_int (be_val bs * 256 + uint b) :: byte) = b"
    by (rule word_uint_eqI) (simp only: uint_word_of_int_byte mod_mult_self3, simp)
  ultimately show ?case using snoc by simp
qed

lemma be_val_less_pow2: "be_val bs < 2 ^ (8 * length bs)"
  using be_val_bounds [of bs] by (simp add: power_mult)

lemma be_bytes_mod: "be_bytes n (v mod 256 ^ n) = be_bytes n v"
  using be_bytes_val [of "be_bytes n v"] by (simp add: be_val_bytes)

lemma be_bytes_1: "be_bytes 1 v = [word_of_int v]"
  by simp

lemma be_bytes_2: "be_bytes 2 v = [word_of_int (v div 256), word_of_int v]"
  by (simp add: numeral_2_eq_2)

lemma int_from_bytes_unsigned: "int_from_bytes bs Big False = be_val bs"
  by (simp add: int_from_bytes_def)

text \<open>\<open>to_bytes\<close> and \<open>from_bytes\<close> are inverse, for either order and signedness.\<close>

lemma pow256: "(256 :: int) ^ n = 2 ^ (8 * n)"
  by (simp add: power_mult)

lemma int_to_bytes_length: "int_to_bytes v n ord s = Inr bs \<Longrightarrow> length bs = n"
  by (auto simp: int_to_bytes_def split: if_splits order.splits)

lemma pow2_half: "0 < n \<Longrightarrow> (2 :: int) ^ (8 * n) = 2 * 2 ^ (8 * n - 1)"
  by (metis Suc_pred' mult_is_0 neq0_conv power_Suc zero_neq_numeral)

lemma signed_wrap:
  fixes v :: int
  assumes "0 < n" "- (2 ^ (8 * n - 1)) \<le> v" "v < 2 ^ (8 * n - 1)"
  shows "(if 2 ^ (8 * n - 1) \<le> v mod 2 ^ (8 * n) then v mod 2 ^ (8 * n) - 2 ^ (8 * n)
          else v mod 2 ^ (8 * n)) = v"
proof (cases "0 \<le> v")
  case True
  with assms pow2_half [of n] have "v mod 2 ^ (8 * n) = v"
    by (intro mod_pos_pos_trivial) auto
  with assms show ?thesis by simp
next
  case False
  with assms pow2_half [of n] have "(v + 2 ^ (8 * n)) mod 2 ^ (8 * n) = v + 2 ^ (8 * n)"
    by (intro mod_pos_pos_trivial) auto
  then have "v mod 2 ^ (8 * n) = v + 2 ^ (8 * n)" by simp
  with assms pow2_half [of n] show ?thesis by simp
qed

lemma from_to_bytes:
  assumes "int_to_bytes v n ord s = Inr bs" "0 < n"
  shows "int_from_bytes bs ord s = v"
proof -
  from assms have bs: "(case ord of Big \<Rightarrow> bs | Little \<Rightarrow> rev bs) = be_bytes n v"
    and len: "length bs = n"
    by (auto simp: int_to_bytes_def split: if_splits order.splits)
  from bs have val: "be_val (case ord of Big \<Rightarrow> bs | Little \<Rightarrow> rev bs) = v mod 2 ^ (8 * n)"
    by (simp only: be_val_bytes pow256)
  have ne: "bs \<noteq> []" using assms(2) len by auto
  show ?thesis
  proof (cases s)
    case True
    with assms(1) have "- (2 ^ (8 * n - 1)) \<le> v" "v < 2 ^ (8 * n - 1)"
      by (auto simp: int_to_bytes_def split: if_splits)
    from signed_wrap [OF assms(2) this] True ne show ?thesis
      by (simp add: int_from_bytes_def val len Let_def)
  next
    case False
    with assms(1) have "0 \<le> v" "v < 2 ^ (8 * n)"
      by (auto simp: int_to_bytes_def split: if_splits)
    with False show ?thesis by (simp add: int_from_bytes_def val Let_def)
  qed
qed

section \<open>Facts on \<open>struct\<close> and bits\<close>

lemma shift_and_1_bit [simp]: "shift_and_1 v k = bit v k"
  by (simp add: shift_and_1_def and_one_eq bit_iff_odd_drop_bit odd_iff_mod_2_eq_one)

lemma byte_of_int_ok [pymod_bytes]: "0 \<le> v \<Longrightarrow> v \<le> 255 \<Longrightarrow> byte_of_int v = Inr [word_of_int v]"
  by (simp add: byte_of_int_def)

lemma pack_B_ok [pymod_bytes]: "0 \<le> v \<Longrightarrow> v \<le> 255 \<Longrightarrow> pack_B v = Inr [word_of_int v]"
  by (simp add: pack_B_def)

lemma pack_H_ok [pymod_bytes]:
  "0 \<le> v \<Longrightarrow> v \<le> 65535 \<Longrightarrow> pack_H Big v = Inr [word_of_int (v div 256), word_of_int v]"
  "0 \<le> v \<Longrightarrow> v \<le> 65535 \<Longrightarrow> pack_H Little v = Inr [word_of_int v, word_of_int (v div 256)]"
  by (simp_all add: pack_H_def be_bytes_2)

lemma pack_BHH_ok [pymod_bytes]:
  "0 \<le> a \<Longrightarrow> a \<le> 255 \<Longrightarrow> 0 \<le> b \<Longrightarrow> b \<le> 65535 \<Longrightarrow> 0 \<le> c \<Longrightarrow> c \<le> 65535 \<Longrightarrow>
   pack_BHH a b c = Inr [word_of_int a, word_of_int (b div 256), word_of_int b,
     word_of_int (c div 256), word_of_int c]"
  by (simp add: pack_BHH_def pack_B_ok pack_H_ok)

lemma pack_BHHB_ok [pymod_bytes]:
  "0 \<le> a \<Longrightarrow> a \<le> 255 \<Longrightarrow> 0 \<le> b \<Longrightarrow> b \<le> 65535 \<Longrightarrow> 0 \<le> c \<Longrightarrow> c \<le> 65535 \<Longrightarrow>
   0 \<le> d \<Longrightarrow> d \<le> 255 \<Longrightarrow>
   pack_BHHB a b c d = Inr [word_of_int a, word_of_int (b div 256), word_of_int b,
     word_of_int (c div 256), word_of_int c, word_of_int d]"
  by (simp add: pack_BHHB_def pack_BHH_ok pack_B_ok)

lemma u16_bounds [simp]: "0 \<le> u16 a b" "u16 a b \<le> 65535"
  unfolding u16_def using uint_byte_bounds [of a] uint_byte_bounds [of b] by linarith+

lemma u16_div [simp]: "u16 a b div 256 = uint a"
  using uint_byte_bounds [of b] by (simp add: u16_def)

lemma u16_word_of_int [simp]:
  "0 \<le> v \<Longrightarrow> v \<le> 65535 \<Longrightarrow> u16 (word_of_int (v div 256)) (word_of_int v) = v"
  by (simp add: u16_def)

lemma u16_word_of_nat [simp]:
  "n \<le> 65535 \<Longrightarrow> u16 (word_of_int (int n div 256)) (word_of_nat n) = int n"
  "n \<le> 255 \<Longrightarrow> u16 0 (word_of_nat n) = int n"
  using u16_word_of_int [of "int n"] by simp_all

lemma word_of_int_u16 [simp]: "(word_of_int (u16 a b) :: byte) = b"
  by (rule word_uint_eqI) (simp only: uint_word_of_int_byte u16_def mod_mult_self3, simp)

lemma u16_inj: "u16 a b = u16 c d \<longleftrightarrow> a = c \<and> b = d"
  by (metis u16_div word_of_int_u16 word_uint_eqI)

lemma u16_0 [simp]: "u16 a b = 0 \<longleftrightarrow> a = 0 \<and> b = 0"
  using u16_inj [of a b 0 0] by (simp add: u16_def)

lemma pack_H_u16 [simp]: "pack_H Big (u16 a b) = Inr [a, b]" "pack_H Little (u16 b a) = Inr [a, b]"
  by (simp_all add: pack_H_ok)

lemma length_words_be [simp]: "length (words_be bs) = length bs div 2"
  by (induction bs rule: words_be.induct) simp_all

lemma words_be_range: "v \<in> set (words_be bs) \<Longrightarrow> 0 \<le> v \<and> v \<le> 65535"
  by (induction bs rule: words_be.induct) auto

lemma pack_nH_Nil [simp]: "pack_nH [] = Inr []"
  by (simp add: pack_nH_def)

lemma pack_nH_Cons:
  "pack_nH (v # vs) = bindE (pack_H Big v) (\<lambda>b. bindE (pack_nH vs) (\<lambda>bs. Inr (b @ bs)))"
  by (simp add: pack_nH_def bindE_assoc)

lemma pack_nH_words_be: "even (length bs) \<Longrightarrow> pack_nH (words_be bs) = Inr bs"
  by (induction bs rule: words_be.induct) (simp_all add: pack_nH_Cons)

lemma pack_nH_ok:
  "\<forall>v \<in> set vs. 0 \<le> v \<and> v \<le> 65535 \<Longrightarrow>
   \<exists>bs. pack_nH vs = Inr bs \<and> length bs = 2 * length vs \<and> words_be bs = vs"
proof (induction vs)
  case Nil
  then show ?case by simp
next
  case (Cons v vs)
  then obtain bs where "pack_nH vs = Inr bs" "length bs = 2 * length vs" "words_be bs = vs"
    by auto
  with Cons.prems show ?case by (simp add: pack_nH_Cons pack_H_ok)
qed

end
