(* ===== verification/Types.thy ===== *)
theory Types
  imports Py_Runtime
begin

text \<open>
  The public data types of \<open>src/pymod/_types.py\<close>: address areas, typed read and write
  items, and per-item results.  A Python value of a read or write (\<open>int | float | bool\<close>) is
  a \<open>pyval\<close>; a Python float is kept as its IEEE-754 binary64 bit pattern.
\<close>

datatype dtype =
    UInt16 | Int16 | UInt32 | Int32 | Float32 | UInt64 | Int64 | Float64 | Bit | Bits

datatype bit_numbering = LsbFirst | MsbFirst

datatype area = COIL | DISCRETE_INPUT | HOLDING_REGISTER | INPUT_REGISTER

datatype pyval = PInt int | PFloat "64 word" | PBool bool

text \<open>The common fields of \<open>Holding\<close> and \<open>Input\<close>.\<close>

record reg_item =
  ri_start :: int
  ri_count :: int
  ri_dtype :: dtype
  ri_word_order :: order
  ri_byte_order :: order
  ri_bit_index :: "int option"
  ri_bit_indices :: "int list option"
  ri_bit_numbering :: bit_numbering

datatype read_item =
    Holding reg_item
  | Input reg_item
  | Coil int int
  | Discrete int int

record write_holding =
  wh_start :: int
  wh_values :: "pyval list"
  wh_dtype :: dtype
  wh_word_order :: order
  wh_byte_order :: order

datatype write_item =
    WriteHolding write_holding
  | WriteCoils int "bool list"

record read_result =
  rr_item :: read_item
  rr_values :: "pyval list"
  rr_ok :: bool
  rr_error :: "py_exn option"

record write_result =
  wr_item :: write_item
  wr_ok :: bool
  wr_error :: "py_exn option"

text \<open>The attributes \<open>item.start\<close> and \<open>item.count\<close>, which every read item has.\<close>

fun item_start :: "read_item \<Rightarrow> int" where
  "item_start (Holding r) = ri_start r"
| "item_start (Input r) = ri_start r"
| "item_start (Coil s n) = s"
| "item_start (Discrete s n) = s"

fun item_count :: "read_item \<Rightarrow> int" where
  "item_count (Holding r) = ri_count r"
| "item_count (Input r) = ri_count r"
| "item_count (Coil s n) = n"
| "item_count (Discrete s n) = n"

text \<open>A register item with the dataclass defaults.\<close>

definition default_reg :: "int \<Rightarrow> int \<Rightarrow> reg_item" where
  "default_reg s n = \<lparr>ri_start = s, ri_count = n, ri_dtype = UInt16, ri_word_order = Big,
     ri_byte_order = Big, ri_bit_index = None, ri_bit_indices = None,
     ri_bit_numbering = LsbFirst\<rparr>"

instantiation area :: linorder
begin

primrec area_rank :: "area \<Rightarrow> nat" where
  "area_rank COIL = 0"
| "area_rank DISCRETE_INPUT = 1"
| "area_rank HOLDING_REGISTER = 2"
| "area_rank INPUT_REGISTER = 3"

definition less_eq_area :: "area \<Rightarrow> area \<Rightarrow> bool" where
  "less_eq_area a b \<longleftrightarrow> area_rank a \<le> area_rank b"

definition less_area :: "area \<Rightarrow> area \<Rightarrow> bool" where
  "less_area a b \<longleftrightarrow> area_rank a < area_rank b"

instance
proof
  fix a b :: area
  assume "a \<le> b" "b \<le> a"
  then show "a = b" by (cases a; cases b) (simp_all add: less_eq_area_def)
qed (auto simp: less_eq_area_def less_area_def)

end

lemma area_exhaust_list: "set [COIL, DISCRETE_INPUT, HOLDING_REGISTER, INPUT_REGISTER] = UNIV"
  by (auto intro: area.exhaust)

end
