(* ===== verification/Pdu.thy ===== *)
theory Pdu
  imports Types
begin

text \<open>
  The per-function-code PDU codecs of \<open>src/pymod/protocol/pdu.py\<close>: client-side request
  encoders and response decoders, the registry of custom function codes, server-side request
  decoders and response encoders.  Requests and responses are byte strings whose first byte is
  the function code.
\<close>

section \<open>Constants\<close>

definition FC_READ_COILS :: int where "FC_READ_COILS = 0x01"
definition FC_READ_DISCRETE_INPUTS :: int where "FC_READ_DISCRETE_INPUTS = 0x02"
definition FC_READ_HOLDING_REGISTERS :: int where "FC_READ_HOLDING_REGISTERS = 0x03"
definition FC_READ_INPUT_REGISTERS :: int where "FC_READ_INPUT_REGISTERS = 0x04"
definition FC_WRITE_SINGLE_COIL :: int where "FC_WRITE_SINGLE_COIL = 0x05"
definition FC_WRITE_SINGLE_REGISTER :: int where "FC_WRITE_SINGLE_REGISTER = 0x06"
definition FC_WRITE_MULTIPLE_COILS :: int where "FC_WRITE_MULTIPLE_COILS = 0x0F"
definition FC_WRITE_MULTIPLE_REGISTERS :: int where "FC_WRITE_MULTIPLE_REGISTERS = 0x10"

definition EXCEPTION_BIT :: int where "EXCEPTION_BIT = 0x80"

definition MAX_READ_COILS :: int where "MAX_READ_COILS = 2000"
definition MAX_READ_DISCRETE_INPUTS :: int where "MAX_READ_DISCRETE_INPUTS = 2000"
definition MAX_READ_REGISTERS :: int where "MAX_READ_REGISTERS = 125"
definition MAX_WRITE_COILS :: int where "MAX_WRITE_COILS = 1968"
definition MAX_WRITE_REGISTERS :: int where "MAX_WRITE_REGISTERS = 123"

definition ADDRESS_MAX :: int where "ADDRESS_MAX = 0xFFFF"
definition COIL_ON :: int where "COIL_ON = 0xFF00"
definition COIL_OFF :: int where "COIL_OFF = 0x0000"

lemmas fc_defs [pymod_const] =
  FC_READ_COILS_def FC_READ_DISCRETE_INPUTS_def FC_READ_HOLDING_REGISTERS_def
  FC_READ_INPUT_REGISTERS_def FC_WRITE_SINGLE_COIL_def FC_WRITE_SINGLE_REGISTER_def
  FC_WRITE_MULTIPLE_COILS_def FC_WRITE_MULTIPLE_REGISTERS_def

lemmas limit_defs [pymod_const] =
  MAX_READ_COILS_def MAX_READ_DISCRETE_INPUTS_def MAX_READ_REGISTERS_def MAX_WRITE_COILS_def
  MAX_WRITE_REGISTERS_def ADDRESS_MAX_def COIL_ON_def COIL_OFF_def EXCEPTION_BIT_def

definition check_address :: "int \<Rightarrow> unit result" where
  "check_address addr = (if \<not> (0 \<le> addr \<and> addr \<le> ADDRESS_MAX) then Inl ValueError else Inr ())"

definition check_count :: "int \<Rightarrow> int \<Rightarrow> unit result" where
  "check_count count maximum = (if \<not> (1 \<le> count \<and> count \<le> maximum) then Inl ValueError else Inr ())"

section \<open>Exception detection\<close>

definition detect_exception :: "bytes \<Rightarrow> int \<Rightarrow> py_exn option result" where
  "detect_exception pdu expected_fc =
     (if length pdu = 0 then Inl ModbusProtocolError
      else let fc = uint (pdu ! 0) in
        if fc = expected_fc then Inr None
        else if fc = (expected_fc OR EXCEPTION_BIT) then
          (if length pdu < 2 then Inl ModbusProtocolError
           else let code = uint (pdu ! 1);
                    cls = (case EXCEPTION_BY_CODE code of None \<Rightarrow> SlaveDeviceFailure | Some c \<Rightarrow> c)
                in Inr (Some (mk_response cls (Some code))))
        else Inl ModbusProtocolError)"

text \<open>The idiom \<open>exc = detect_exception(pdu, fc); if exc is not None: raise exc\<close>.\<close>

definition raise_exception :: "bytes \<Rightarrow> int \<Rightarrow> unit result" where
  "raise_exception pdu fc =
     bindE (detect_exception pdu fc) (\<lambda>exc. case exc of Some e \<Rightarrow> Inl e | None \<Rightarrow> Inr ())"

section \<open>FC01 and FC02: coils and discrete inputs\<close>

definition encode_read_coils :: "int \<Rightarrow> int \<Rightarrow> bytes result" where
  "encode_read_coils start count =
     bindE (check_address start) (\<lambda>_. bindE (check_count count MAX_READ_COILS) (\<lambda>_.
       pack_BHH FC_READ_COILS start count))"

definition encode_read_discrete_inputs :: "int \<Rightarrow> int \<Rightarrow> bytes result" where
  "encode_read_discrete_inputs start count =
     bindE (check_address start) (\<lambda>_. bindE (check_count count MAX_READ_DISCRETE_INPUTS) (\<lambda>_.
       pack_BHH FC_READ_DISCRETE_INPUTS start count))"

text \<open>
  The loop that reads \<open>count\<close> bits from the bytes after \<open>offset\<close>, least significant bit of each
  byte first: \<open>bool((data[offset + i // 8] >> (i % 8)) & 1)\<close>.
\<close>

definition unpack_bits :: "bytes \<Rightarrow> int \<Rightarrow> int \<Rightarrow> bool list result" where
  "unpack_bits data offset count =
     mapE (\<lambda>i. bindE (py_index data (offset + i div 8)) (\<lambda>b. Inr (shift_and_1 (uint b) (nat (i mod 8)))))
       (py_range count)"

definition decode_bit_response :: "bytes \<Rightarrow> int \<Rightarrow> int \<Rightarrow> bool list result" where
  "decode_bit_response pdu count fc =
     bindE (raise_exception pdu fc) (\<lambda>_.
       if length pdu < 2 then Inl ModbusProtocolError
       else let byte_count = uint (pdu ! 1); expected = (count + 7) div 8 in
         if byte_count \<noteq> expected then Inl ModbusProtocolError
         else if int (length pdu) \<noteq> 2 + byte_count then Inl ModbusProtocolError
         else unpack_bits pdu 2 count)"

definition decode_read_coils :: "bytes \<Rightarrow> int \<Rightarrow> bool list result" where
  "decode_read_coils pdu count = decode_bit_response pdu count FC_READ_COILS"

definition decode_read_discrete_inputs :: "bytes \<Rightarrow> int \<Rightarrow> bool list result" where
  "decode_read_discrete_inputs pdu count = decode_bit_response pdu count FC_READ_DISCRETE_INPUTS"

section \<open>FC03 and FC04: registers\<close>

definition encode_read_holding_registers :: "int \<Rightarrow> int \<Rightarrow> bytes result" where
  "encode_read_holding_registers start count =
     bindE (check_address start) (\<lambda>_. bindE (check_count count MAX_READ_REGISTERS) (\<lambda>_.
       pack_BHH FC_READ_HOLDING_REGISTERS start count))"

definition encode_read_input_registers :: "int \<Rightarrow> int \<Rightarrow> bytes result" where
  "encode_read_input_registers start count =
     bindE (check_address start) (\<lambda>_. bindE (check_count count MAX_READ_REGISTERS) (\<lambda>_.
       pack_BHH FC_READ_INPUT_REGISTERS start count))"

definition decode_register_response :: "bytes \<Rightarrow> int \<Rightarrow> int \<Rightarrow> int list result" where
  "decode_register_response pdu count fc =
     bindE (raise_exception pdu fc) (\<lambda>_.
       if length pdu < 2 then Inl ModbusProtocolError
       else let byte_count = uint (pdu ! 1); expected = 2 * count in
         if byte_count \<noteq> expected then Inl ModbusProtocolError
         else if int (length pdu) \<noteq> 2 + byte_count then Inl ModbusProtocolError
         else unpack_nH count (drop 2 pdu))"

definition decode_read_holding_registers :: "bytes \<Rightarrow> int \<Rightarrow> int list result" where
  "decode_read_holding_registers pdu count =
     decode_register_response pdu count FC_READ_HOLDING_REGISTERS"

definition decode_read_input_registers :: "bytes \<Rightarrow> int \<Rightarrow> int list result" where
  "decode_read_input_registers pdu count =
     decode_register_response pdu count FC_READ_INPUT_REGISTERS"

section \<open>FC05 and FC06: single writes\<close>

definition encode_write_single_coil :: "int \<Rightarrow> bool \<Rightarrow> bytes result" where
  "encode_write_single_coil address value =
     bindE (check_address address) (\<lambda>_.
       let coded = (if value then COIL_ON else COIL_OFF)
       in pack_BHH FC_WRITE_SINGLE_COIL address coded)"

definition decode_write_single_coil :: "bytes \<Rightarrow> (int \<times> bool) result" where
  "decode_write_single_coil pdu =
     bindE (raise_exception pdu FC_WRITE_SINGLE_COIL) (\<lambda>_.
       if length pdu \<noteq> 5 then Inl ModbusProtocolError
       else bindE (unpack_BHH pdu) (\<lambda>(_, address, coded).
         if coded = COIL_ON then Inr (address, True)
         else if coded = COIL_OFF then Inr (address, False)
         else Inl ModbusProtocolError))"

definition encode_write_single_register :: "int \<Rightarrow> int \<Rightarrow> bytes result" where
  "encode_write_single_register address value =
     bindE (check_address address) (\<lambda>_.
       if \<not> (0 \<le> value \<and> value \<le> 0xFFFF) then Inl ValueError
       else pack_BHH FC_WRITE_SINGLE_REGISTER address value)"

definition decode_write_single_register :: "bytes \<Rightarrow> (int \<times> int) result" where
  "decode_write_single_register pdu =
     bindE (raise_exception pdu FC_WRITE_SINGLE_REGISTER) (\<lambda>_.
       if length pdu \<noteq> 5 then Inl ModbusProtocolError
       else bindE (unpack_BHH pdu) (\<lambda>(_, address, value). Inr (address, value)))"

section \<open>FC15 and FC16: multiple writes\<close>

text \<open>
  The loop that fills a zeroed \<open>bytearray\<close>: \<open>buf[i // 8] |= 1 << (i % 8)\<close> for every true
  value.  \<open>FC15\<close> requests and \<open>FC01\<close>/\<open>FC02\<close> responses share it.
\<close>

fun pack_loop :: "nat \<Rightarrow> bool list \<Rightarrow> bytes \<Rightarrow> bytes" where
  "pack_loop i [] buf = buf"
| "pack_loop i (v # vs) buf =
     pack_loop (Suc i) vs
       (if v then buf[i div 8 := (buf ! (i div 8)) OR push_bit (i mod 8) 1] else buf)"

definition pack_bits :: "bool list \<Rightarrow> bytes" where
  "pack_bits values = pack_loop 0 values (replicate ((length values + 7) div 8) 0)"

definition encode_write_multiple_coils :: "int \<Rightarrow> bool list \<Rightarrow> bytes result" where
  "encode_write_multiple_coils start values =
     bindE (check_address start) (\<lambda>_.
       let count = int (length values) in
       if \<not> (1 \<le> count \<and> count \<le> MAX_WRITE_COILS) then Inl ValueError
       else let byte_count = (count + 7) div 8; buf = pack_bits values in
         bindE (pack_BHHB FC_WRITE_MULTIPLE_COILS start count byte_count) (\<lambda>h. Inr (h @ buf)))"

definition decode_write_multiple_coils :: "bytes \<Rightarrow> (int \<times> int) result" where
  "decode_write_multiple_coils pdu =
     bindE (raise_exception pdu FC_WRITE_MULTIPLE_COILS) (\<lambda>_.
       if length pdu \<noteq> 5 then Inl ModbusProtocolError
       else bindE (unpack_BHH pdu) (\<lambda>(_, start, count). Inr (start, count)))"

definition encode_write_multiple_registers :: "int \<Rightarrow> int list \<Rightarrow> bytes result" where
  "encode_write_multiple_registers start values =
     bindE (check_address start) (\<lambda>_.
       let count = int (length values) in
       if \<not> (1 \<le> count \<and> count \<le> MAX_WRITE_REGISTERS) then Inl ValueError
       else if list_ex (\<lambda>v. \<not> (0 \<le> v \<and> v \<le> 0xFFFF)) values then Inl ValueError
       else let byte_count = 2 * count in
         bindE (pack_BHHB FC_WRITE_MULTIPLE_REGISTERS start count byte_count) (\<lambda>header.
           bindE (pack_nH values) (\<lambda>body. Inr (header @ body))))"

definition decode_write_multiple_registers :: "bytes \<Rightarrow> (int \<times> int) result" where
  "decode_write_multiple_registers pdu =
     bindE (raise_exception pdu FC_WRITE_MULTIPLE_REGISTERS) (\<lambda>_.
       if length pdu \<noteq> 5 then Inl ModbusProtocolError
       else bindE (unpack_BHH pdu) (\<lambda>(_, start, count). Inr (start, count)))"

section \<open>Custom function codes\<close>

text \<open>A codec and the module-level registry; the two callables are opaque values.\<close>

record ('enc, 'dec) custom_codec =
  cc_code :: int
  cc_encode :: 'enc
  cc_decode :: 'dec

type_synonym ('enc, 'dec) codec_registry = "int \<rightharpoonup> ('enc, 'dec) custom_codec"

definition register_codec ::
  "('enc, 'dec) custom_codec \<Rightarrow> ('enc, 'dec) codec_registry \<Rightarrow> ('enc, 'dec) codec_registry result"
where
  "register_codec codec reg =
     (if 0x01 \<le> cc_code codec \<and> cc_code codec \<le> 0x10 then Inl ValueError
      else if (cc_code codec AND EXCEPTION_BIT) \<noteq> 0 then Inl ValueError
      else if \<not> (0 \<le> cc_code codec \<and> cc_code codec \<le> 0xFF) then Inl ValueError
      else if reg (cc_code codec) \<noteq> None then Inl ValueError
      else Inr (reg(cc_code codec \<mapsto> codec)))"

definition get_codec :: "int \<Rightarrow> ('enc, 'dec) codec_registry \<Rightarrow> ('enc, 'dec) custom_codec option" where
  "get_codec code reg = reg code"

definition unregister_codec :: "int \<Rightarrow> ('enc, 'dec) codec_registry \<Rightarrow> ('enc, 'dec) codec_registry" where
  "unregister_codec code reg = reg(code := None)"

section \<open>Server side: request decoders\<close>

text \<open>\<open>raise IllegalDataValue(...)\<close>.\<close>

abbreviation illegal_data_value :: py_exn where
  "illegal_data_value \<equiv> mk_response IllegalDataValue None"

definition decode_request_read_coils :: "bytes \<Rightarrow> (int \<times> int) result" where
  "decode_request_read_coils pdu =
     (if length pdu \<noteq> 5 then Inl illegal_data_value
      else bindE (unpack_HH (py_slice pdu 1 5)) (\<lambda>(start, count).
        if \<not> (1 \<le> count \<and> count \<le> MAX_READ_COILS) then Inl illegal_data_value
        else Inr (start, count)))"

definition decode_request_read_discrete_inputs :: "bytes \<Rightarrow> (int \<times> int) result" where
  "decode_request_read_discrete_inputs pdu =
     (if length pdu \<noteq> 5 then Inl illegal_data_value
      else bindE (unpack_HH (py_slice pdu 1 5)) (\<lambda>(start, count).
        if \<not> (1 \<le> count \<and> count \<le> MAX_READ_DISCRETE_INPUTS) then Inl illegal_data_value
        else Inr (start, count)))"

definition decode_request_read_holding_registers :: "bytes \<Rightarrow> (int \<times> int) result" where
  "decode_request_read_holding_registers pdu =
     (if length pdu \<noteq> 5 then Inl illegal_data_value
      else bindE (unpack_HH (py_slice pdu 1 5)) (\<lambda>(start, count).
        if \<not> (1 \<le> count \<and> count \<le> MAX_READ_REGISTERS) then Inl illegal_data_value
        else Inr (start, count)))"

definition decode_request_read_input_registers :: "bytes \<Rightarrow> (int \<times> int) result" where
  "decode_request_read_input_registers pdu =
     (if length pdu \<noteq> 5 then Inl illegal_data_value
      else bindE (unpack_HH (py_slice pdu 1 5)) (\<lambda>(start, count).
        if \<not> (1 \<le> count \<and> count \<le> MAX_READ_REGISTERS) then Inl illegal_data_value
        else Inr (start, count)))"

definition decode_request_write_single_coil :: "bytes \<Rightarrow> (int \<times> bool) result" where
  "decode_request_write_single_coil pdu =
     (if length pdu \<noteq> 5 then Inl illegal_data_value
      else bindE (unpack_BHH pdu) (\<lambda>(_, address, coded).
        if coded = COIL_ON then Inr (address, True)
        else if coded = COIL_OFF then Inr (address, False)
        else Inl illegal_data_value))"

definition decode_request_write_single_register :: "bytes \<Rightarrow> (int \<times> int) result" where
  "decode_request_write_single_register pdu =
     (if length pdu \<noteq> 5 then Inl illegal_data_value
      else bindE (unpack_BHH pdu) (\<lambda>(_, address, value). Inr (address, value)))"

definition decode_request_write_multiple_coils :: "bytes \<Rightarrow> (int \<times> bool list) result" where
  "decode_request_write_multiple_coils pdu =
     (if length pdu < 6 then Inl illegal_data_value
      else bindE (unpack_HH (py_slice pdu 1 5)) (\<lambda>(start, count).
        let byte_count = uint (pdu ! 5) in
        if \<not> (1 \<le> count \<and> count \<le> MAX_WRITE_COILS) then Inl illegal_data_value
        else if byte_count \<noteq> (count + 7) div 8 then Inl illegal_data_value
        else if int (length pdu) \<noteq> 6 + byte_count then Inl illegal_data_value
        else let data = drop 6 pdu in
          bindE (unpack_bits data 0 count) (\<lambda>bits. Inr (start, bits))))"

definition decode_request_write_multiple_registers :: "bytes \<Rightarrow> (int \<times> int list) result" where
  "decode_request_write_multiple_registers pdu =
     (if length pdu < 6 then Inl illegal_data_value
      else bindE (unpack_HH (py_slice pdu 1 5)) (\<lambda>(start, count).
        let byte_count = uint (pdu ! 5) in
        if \<not> (1 \<le> count \<and> count \<le> MAX_WRITE_REGISTERS) then Inl illegal_data_value
        else if byte_count \<noteq> 2 * count then Inl illegal_data_value
        else if int (length pdu) \<noteq> 6 + byte_count then Inl illegal_data_value
        else bindE (unpack_nH count (drop 6 pdu)) (\<lambda>values. Inr (start, values))))"

section \<open>Server side: response encoders\<close>

definition encode_response_read_coils :: "bool list \<Rightarrow> bytes result" where
  "encode_response_read_coils values =
     (let byte_count = (int (length values) + 7) div 8; buf = pack_bits values in
      bindE (byte_of_int FC_READ_COILS) (\<lambda>f. bindE (byte_of_int byte_count) (\<lambda>n.
        Inr (f @ n @ buf))))"

definition encode_response_read_discrete_inputs :: "bool list \<Rightarrow> bytes result" where
  "encode_response_read_discrete_inputs values =
     (let byte_count = (int (length values) + 7) div 8; buf = pack_bits values in
      bindE (byte_of_int FC_READ_DISCRETE_INPUTS) (\<lambda>f. bindE (byte_of_int byte_count) (\<lambda>n.
        Inr (f @ n @ buf))))"

definition encode_response_read_holding_registers :: "int list \<Rightarrow> bytes result" where
  "encode_response_read_holding_registers values =
     bindE (mapE (\<lambda>v. int_to_bytes v 2 Big False) values) (\<lambda>bs.
       let body = concat bs in
       bindE (byte_of_int FC_READ_HOLDING_REGISTERS) (\<lambda>f.
         bindE (byte_of_int (int (length body))) (\<lambda>n. Inr (f @ n @ body))))"

definition encode_response_read_input_registers :: "int list \<Rightarrow> bytes result" where
  "encode_response_read_input_registers values =
     bindE (mapE (\<lambda>v. int_to_bytes v 2 Big False) values) (\<lambda>bs.
       let body = concat bs in
       bindE (byte_of_int FC_READ_INPUT_REGISTERS) (\<lambda>f.
         bindE (byte_of_int (int (length body))) (\<lambda>n. Inr (f @ n @ body))))"

definition encode_response_write_single_coil :: "int \<Rightarrow> bool \<Rightarrow> bytes result" where
  "encode_response_write_single_coil address value =
     (let coded = (if value then COIL_ON else COIL_OFF)
      in pack_BHH FC_WRITE_SINGLE_COIL address coded)"

definition encode_response_write_single_register :: "int \<Rightarrow> int \<Rightarrow> bytes result" where
  "encode_response_write_single_register address value =
     pack_BHH FC_WRITE_SINGLE_REGISTER address value"

definition encode_response_write_multiple_coils :: "int \<Rightarrow> int \<Rightarrow> bytes result" where
  "encode_response_write_multiple_coils start count = pack_BHH FC_WRITE_MULTIPLE_COILS start count"

definition encode_response_write_multiple_registers :: "int \<Rightarrow> int \<Rightarrow> bytes result" where
  "encode_response_write_multiple_registers start count =
     pack_BHH FC_WRITE_MULTIPLE_REGISTERS start count"

definition encode_exception_response :: "int \<Rightarrow> int \<Rightarrow> bytes result" where
  "encode_exception_response fc exception_code =
     (if \<not> (0 \<le> fc \<and> fc \<le> 0xFF) then Inl ValueError
      else if \<not> (0 \<le> exception_code \<and> exception_code \<le> 0xFF) then Inl ValueError
      else bindE (byte_of_int ((fc OR EXCEPTION_BIT) AND 0xFF)) (\<lambda>f.
        bindE (byte_of_int exception_code) (\<lambda>c. Inr (f @ c))))"

end
