(* ===== verification/Py_Float.thy ===== *)
theory Py_Float
  imports Py_Runtime
begin

text \<open>
  Python floats as far as the codec uses them.  A \<open>float\<close> is an IEEE-754 binary64 number and is
  represented by its 64-bit pattern; \<open>struct\<close> formats \<open>"d"\<close> and \<open>"f"\<close> are the binary64 and
  binary32 patterns.  A format is given by its precision \<open>p\<close> (with the hidden bit) and the width
  \<open>w\<close> of its exponent field; patterns are natural numbers below \<open>2 ^ (p + w)\<close>.
  A conversion to a narrower format rounds to nearest, ties to even.
\<close>

section \<open>Formats\<close>

text \<open>The exponent of the least significant bit of a subnormal number.\<close>

definition emin :: "nat \<Rightarrow> nat \<Rightarrow> int" where
  "emin p w = 3 - 2 ^ (w - 1) - int p"

text \<open>A classified number: an infinity, a NaN with its payload, or \<open>(-1)^s * m * 2^e\<close>.\<close>

datatype fnum = FInf bool | FNan bool nat | FFin bool nat int

definition unpack_bits_ieee :: "nat \<Rightarrow> nat \<Rightarrow> nat \<Rightarrow> fnum" where
  "unpack_bits_ieee p w b =
     (let s = odd (b div 2 ^ (p - 1 + w));
          ex = b div 2 ^ (p - 1) mod 2 ^ w;
          fr = b mod 2 ^ (p - 1)
      in if ex = 2 ^ w - 1 then (if fr = 0 then FInf s else FNan s fr)
         else if ex = 0 then FFin s fr (emin p w)
         else FFin s (2 ^ (p - 1) + fr) (emin p w + int ex - 1))"

definition compose_bits :: "nat \<Rightarrow> nat \<Rightarrow> bool \<Rightarrow> nat \<Rightarrow> nat \<Rightarrow> nat" where
  "compose_bits p w s ex fr = of_bool s * 2 ^ (p - 1 + w) + ex * 2 ^ (p - 1) + fr"

text \<open>\<open>m / 2^r\<close> rounded to the nearest integer, ties to even.\<close>

definition round_half_even :: "nat \<Rightarrow> nat \<Rightarrow> nat" where
  "round_half_even m r =
     (let d = m div 2 ^ r; t = 2 * (m mod 2 ^ r)
      in if 2 ^ r < t \<or> (t = 2 ^ r \<and> odd d) then d + 1 else d)"

fun bit_len :: "nat \<Rightarrow> nat" where
  "bit_len m = (if m = 0 then 0 else Suc (bit_len (m div 2)))"

declare bit_len.simps [simp del]

text \<open>
  The pattern nearest to \<open>(-1)^s * m * 2^e\<close>, or \<open>OverflowError\<close> when it rounds beyond the
  largest finite number.
\<close>

definition round_to_format :: "nat \<Rightarrow> nat \<Rightarrow> bool \<Rightarrow> nat \<Rightarrow> int \<Rightarrow> nat result" where
  "round_to_format p w s m e =
     (let q = max (emin p w) (e + int (bit_len m) - int p);
          m1 = (if q \<le> e then m * 2 ^ nat (e - q) else round_half_even m (nat (q - e)));
          (m2, q2) = (if m1 = 2 ^ p then (2 ^ (p - 1), q + 1) else (m1, q));
          ex = (if m2 < 2 ^ (p - 1) then 0 else nat (q2 - emin p w) + 1)
      in if 2 ^ w - 1 \<le> ex then Inl OverflowError
         else Inr (compose_bits p w s ex (if m2 < 2 ^ (p - 1) then m2 else m2 - 2 ^ (p - 1))))"

section \<open>Python operations\<close>

type_synonym pyfloat = "64 word"

definition classify :: "pyfloat \<Rightarrow> fnum" where
  "classify f = unpack_bits_ieee 53 11 (unat f)"

text \<open>\<open>float(i)\<close> for an integer.\<close>

definition float_of_int :: "int \<Rightarrow> pyfloat result" where
  "float_of_int i =
     bindE (round_to_format 53 11 (i < 0) (nat \<bar>i\<bar>) 0) (\<lambda>b. Inr (word_of_nat b))"

text \<open>\<open>x.is_integer()\<close>.\<close>

definition float_is_integer :: "pyfloat \<Rightarrow> bool" where
  "float_is_integer f =
     (case classify f of FFin s m e \<Rightarrow> 0 \<le> e \<or> m mod 2 ^ nat (- e) = 0 | _ \<Rightarrow> False)"

definition float_isnan :: "pyfloat \<Rightarrow> bool" where
  "float_isnan f = (case classify f of FNan _ _ \<Rightarrow> True | _ \<Rightarrow> False)"

definition float_isinf :: "pyfloat \<Rightarrow> bool" where
  "float_isinf f = (case classify f of FInf _ \<Rightarrow> True | _ \<Rightarrow> False)"

text \<open>\<open>int(x)\<close>, truncating; \<open>OverflowError\<close> on an infinity and \<open>ValueError\<close> on a NaN.\<close>

definition float_to_int :: "pyfloat \<Rightarrow> int result" where
  "float_to_int f =
     (case classify f of
        FInf _ \<Rightarrow> Inl OverflowError
      | FNan _ _ \<Rightarrow> Inl ValueError
      | FFin s m e \<Rightarrow>
          let a = (if 0 \<le> e then int m * 2 ^ nat e else int (m div 2 ^ nat (- e)))
          in Inr (if s then - a else a))"

text \<open>
  \<open>struct.pack(">f", x)\<close> and \<open>struct.unpack(">f", b)\<close>.  Narrowing raises \<open>OverflowError\<close> when a
  finite number rounds to an infinity.  A NaN keeps its sign and the leading bits of its payload
  and is quiet, as the hardware conversion makes it.
\<close>

definition pack_f :: "pyfloat \<Rightarrow> bytes result" where
  "pack_f f =
     bindE (case classify f of
         FInf s \<Rightarrow> Inr (compose_bits 24 8 s 255 0)
       | FNan s fr \<Rightarrow> Inr (compose_bits 24 8 s 255 (2 ^ 22 + fr div 2 ^ 29 mod 2 ^ 22))
       | FFin s m e \<Rightarrow> round_to_format 24 8 s m e)
     (\<lambda>b. Inr (be_bytes 4 (int b)))"

definition widen :: "nat \<Rightarrow> nat result" where
  "widen b =
     (case unpack_bits_ieee 24 8 b of
         FInf s \<Rightarrow> Inr (compose_bits 53 11 s 2047 0)
       | FNan s fr \<Rightarrow> Inr (compose_bits 53 11 s 2047 (2 ^ 51 + (fr mod 2 ^ 22) * 2 ^ 29))
       | FFin s m e \<Rightarrow> round_to_format 53 11 s m e)"

definition unpack_f :: "bytes \<Rightarrow> pyfloat result" where
  "unpack_f bs =
     (if length bs = 4 then bindE (widen (nat (be_val bs))) (\<lambda>b. Inr (word_of_nat b))
      else Inl StructError)"

text \<open>\<open>struct.pack(">d", x)\<close> and \<open>struct.unpack(">d", b)\<close>.\<close>

definition pack_d :: "pyfloat \<Rightarrow> bytes" where
  "pack_d f = be_bytes 8 (uint f)"

definition unpack_d :: "bytes \<Rightarrow> pyfloat result" where
  "unpack_d bs = (if length bs = 8 then Inr (word_of_int (be_val bs)) else Inl StructError)"

end
