(* ===== verification/Codec.thy ===== *)
theory Codec
  imports Types Py_Float
begin

text \<open>
  The register codec of \<open>src/pymod/codec/\<close>: the byte layouts shared by values and bits
  (\<open>_common.py\<close>), typed values across registers (\<open>values.py\<close>), and bit extraction (\<open>bits.py\<close>).
  The laws follow in \<open>Codec_Laws\<close>.
\<close>

section \<open>Layouts: \<open>codec/_common.py\<close>\<close>

definition registers_to_bytes :: "int list \<Rightarrow> order \<Rightarrow> order \<Rightarrow> bytes result" where
  "registers_to_bytes registers word_order byte_order =
     (if list_ex (\<lambda>r. \<not> (0 \<le> r \<and> r \<le> 0xFFFF)) registers then Inl ValueError
      else let seq = (if word_order = Little then rev registers else registers) in
        bindE (mapE (\<lambda>r. int_to_bytes r 2 (if byte_order = Big then Big else Little) False) seq)
          (\<lambda>parts. Inr (concat parts)))"

text \<open>\<open>[xs[i : i + k] for i in range(0, len(xs), k)]\<close>, for a positive \<open>k\<close>.\<close>

function windows :: "nat \<Rightarrow> 'a list \<Rightarrow> 'a list list" where
  "windows k xs = (if xs = [] \<or> k = 0 then [] else take k xs # windows k (drop k xs))"
  by pat_completeness auto
termination by (relation "measure (\<lambda>(k, xs). length xs)") auto

declare windows.simps [simp del]

definition bytes_to_registers :: "bytes \<Rightarrow> order \<Rightarrow> order \<Rightarrow> int list result" where
  "bytes_to_registers raw word_order byte_order =
     (if length raw mod 2 \<noteq> 0 then Inl ValueError
      else let chunks = windows 2 raw;
               regs = (if byte_order = Big then map (\<lambda>c. int_from_bytes c Big False) chunks
                       else map (\<lambda>c. int_from_bytes c Little False) chunks)
        in Inr (if word_order = Little then rev regs else regs))"

section \<open>Typed values: \<open>codec/values.py\<close>\<close>

definition REGS_PER_ITEM :: "dtype \<rightharpoonup> nat" where
  "REGS_PER_ITEM = map_of
     [(UInt16, 1), (Int16, 1), (UInt32, 2), (Int32, 2), (Float32, 2),
      (UInt64, 4), (Int64, 4), (Float64, 4)]"

definition INT_RANGES :: "dtype \<rightharpoonup> int \<times> int" where
  "INT_RANGES = map_of
     [(UInt16, (0, 0xFFFF)),
      (Int16, (- 0x8000, 0x7FFF)),
      (UInt32, (0, 0xFFFFFFFF)),
      (Int32, (- 0x80000000, 0x7FFFFFFF)),
      (UInt64, (0, 0xFFFFFFFFFFFFFFFF)),
      (Int64, (- 0x8000000000000000, 0x7FFFFFFFFFFFFFFF))]"

definition regs_per_item :: "dtype \<Rightarrow> nat result" where
  "regs_per_item dtype =
     (case REGS_PER_ITEM dtype of None \<Rightarrow> Inl ValueError | Some n \<Rightarrow> Inr n)"

fun decode_one :: "bytes \<Rightarrow> dtype \<Rightarrow> pyval result" where
  "decode_one raw UInt16 = Inr (PInt (int_from_bytes raw Big False))"
| "decode_one raw Int16 = Inr (PInt (int_from_bytes raw Big True))"
| "decode_one raw UInt32 = Inr (PInt (int_from_bytes raw Big False))"
| "decode_one raw Int32 = Inr (PInt (int_from_bytes raw Big True))"
| "decode_one raw Float32 = bindE (unpack_f raw) (\<lambda>x. Inr (PFloat x))"
| "decode_one raw UInt64 = Inr (PInt (int_from_bytes raw Big False))"
| "decode_one raw Int64 = Inr (PInt (int_from_bytes raw Big True))"
| "decode_one raw Float64 = bindE (unpack_d raw) (\<lambda>x. Inr (PFloat x))"
| "decode_one raw _ = Inl ValueError"

text \<open>\<open>float(value)\<close>; a \<open>bool\<close> is an \<open>int\<close>.\<close>

fun py_float :: "pyval \<Rightarrow> pyfloat result" where
  "py_float (PFloat x) = Inr x"
| "py_float (PInt i) = float_of_int i"
| "py_float (PBool b) = float_of_int (of_bool b)"

text \<open>The integer value of \<open>_encode_one\<close>: a float must be integer-valued.\<close>

fun encode_int_value :: "pyval \<Rightarrow> int result" where
  "encode_int_value (PFloat x) =
     (if \<not> float_is_integer x \<or> float_isnan x \<or> float_isinf x then Inl ValueError
      else float_to_int x)"
| "encode_int_value (PInt i) = Inr i"
| "encode_int_value (PBool b) = Inr (of_bool b)"

text \<open>\<open>dtype.startswith("int")\<close>.\<close>

definition signed_dtype :: "dtype \<Rightarrow> bool" where
  "signed_dtype dtype \<longleftrightarrow> dtype \<in> {Int16, Int32, Int64}"

definition encode_one :: "pyval \<Rightarrow> dtype \<Rightarrow> bytes result" where
  "encode_one value dtype =
     (if dtype = Float32 then bindE (py_float value) pack_f
      else if dtype = Float64 then bindE (py_float value) (\<lambda>x. Inr (pack_d x))
      else bindE (encode_int_value value) (\<lambda>ivalue.
        case INT_RANGES dtype of
          None \<Rightarrow> Inl KeyError
        | Some (lo, hi) \<Rightarrow>
            if \<not> (lo \<le> ivalue \<and> ivalue \<le> hi) then Inl ValueError
            else bindE (regs_per_item dtype) (\<lambda>rpi.
              int_to_bytes ivalue (2 * rpi) Big (signed_dtype dtype))))"

definition decode_registers :: "int list \<Rightarrow> dtype \<Rightarrow> order \<Rightarrow> order \<Rightarrow> pyval list result" where
  "decode_registers registers dtype word_order byte_order =
     bindE (regs_per_item dtype) (\<lambda>rpi.
       if length registers mod rpi \<noteq> 0 then Inl ValueError
       else mapE (\<lambda>window. bindE (registers_to_bytes window word_order byte_order)
                             (\<lambda>raw. decode_one raw dtype)) (windows rpi registers))"

definition encode_registers :: "pyval list \<Rightarrow> dtype \<Rightarrow> order \<Rightarrow> order \<Rightarrow> int list result" where
  "encode_registers values dtype word_order byte_order =
     bindE (regs_per_item dtype) (\<lambda>_.
       bindE (mapE (\<lambda>v. bindE (encode_one v dtype)
                          (\<lambda>raw. bytes_to_registers raw word_order byte_order)) values)
         (\<lambda>regs. Inr (concat regs)))"

section \<open>Bits: \<open>codec/bits.py\<close>\<close>

definition resolve_pos :: "int \<Rightarrow> int \<Rightarrow> bit_numbering \<Rightarrow> int result" where
  "resolve_pos bit_index total_bits numbering =
     (if \<not> (0 \<le> bit_index \<and> bit_index < total_bits) then Inl ValueError
      else if numbering = LsbFirst then Inr bit_index
      else Inr (total_bits - 1 - bit_index))"

definition registers_to_int :: "int list \<Rightarrow> order \<Rightarrow> order \<Rightarrow> int result" where
  "registers_to_int registers word_order byte_order =
     bindE (registers_to_bytes registers word_order byte_order)
       (\<lambda>raw. Inr (int_from_bytes raw Big False))"

definition extract_bit ::
  "int list \<Rightarrow> int \<Rightarrow> order \<Rightarrow> order \<Rightarrow> bit_numbering \<Rightarrow> bool result" where
  "extract_bit registers bit_index word_order byte_order numbering =
     (if length registers = 0 then Inl ValueError
      else bindE (resolve_pos bit_index (int (length registers) * 16) numbering) (\<lambda>pos.
        bindE (registers_to_int registers word_order byte_order) (\<lambda>value.
          Inr (shift_and_1 value (nat pos)))))"

definition extract_bits ::
  "int list \<Rightarrow> int list \<Rightarrow> order \<Rightarrow> order \<Rightarrow> bit_numbering \<Rightarrow> bool list result" where
  "extract_bits registers bit_indices word_order byte_order numbering =
     (if length registers = 0 then Inl ValueError
      else bindE (registers_to_int registers word_order byte_order) (\<lambda>value.
        mapE (\<lambda>idx. bindE (resolve_pos idx (int (length registers) * 16) numbering)
                      (\<lambda>pos. Inr (shift_and_1 value (nat pos)))) bit_indices))"

end
