(* ===== verification/Planner.thy ===== *)
theory Planner
  imports Pdu Codec "HOL-Library.Product_Lexorder"
begin

text \<open>
  The request planner of \<open>src/pymod/planner.py\<close>.  A \<open>PduExecutor\<close> is a function from a request PDU
  to a response PDU or an exception.  The chunks of a batch run as the tasks of one
  \<open>asyncio.gather\<close>, each calling the executor at most once, so the executor's answers are given per
  task: \<open>execute i req\<close> is what the \<open>i\<close>-th task gets for its request.  Since the function is
  arbitrary, every interleaving of the tasks on the wire is covered.  Which exception \<open>gather\<close>
  raises depends on the order in which the tasks complete, a further parameter.
  The laws follow in \<open>Planner_Reads\<close> and \<open>Planner_Writes\<close>.
\<close>

type_synonym pdu_executor = "bytes \<Rightarrow> bytes result"

text \<open>\<open>asyncio.gather\<close>: the exception of the first task to fail, or all results in task order.\<close>

fun is_raised :: "'a result \<Rightarrow> bool" where
  "is_raised (Inl e) = True"
| "is_raised (Inr x) = False"

definition gather :: "nat list \<Rightarrow> 'a result list \<Rightarrow> 'a list result" where
  "gather completion tasks =
     (case find (\<lambda>i. i < length tasks \<and> is_raised (tasks ! i)) completion of
        Some i \<Rightarrow> bindE (tasks ! i) (\<lambda>x. Inr [x])
      | None \<Rightarrow> mapE id tasks)"

section \<open>Reads\<close>

record read_chunk =
  rc_area :: area
  rc_start :: int
  rc_count :: int

record read_chunk_result =
  cr_chunk :: read_chunk
  cr_values :: "pyval list option"
  cr_error :: "py_exn option"

primrec READ_LIMITS :: "area \<Rightarrow> int" where
  "READ_LIMITS HOLDING_REGISTER = MAX_READ_REGISTERS"
| "READ_LIMITS INPUT_REGISTER = MAX_READ_REGISTERS"
| "READ_LIMITS COIL = MAX_READ_COILS"
| "READ_LIMITS DISCRETE_INPUT = MAX_READ_DISCRETE_INPUTS"

primrec item_area :: "read_item \<Rightarrow> area" where
  "item_area (Holding r) = HOLDING_REGISTER"
| "item_area (Input r) = INPUT_REGISTER"
| "item_area (Coil s n) = COIL"
| "item_area (Discrete s n) = DISCRETE_INPUT"

text \<open>The fields of a \<open>Holding\<close> or \<open>Input\<close>, for \<open>isinstance(item, (Holding, Input))\<close>.\<close>

fun reg_fields :: "read_item \<Rightarrow> reg_item option" where
  "reg_fields (Holding r) = Some r"
| "reg_fields (Input r) = Some r"
| "reg_fields _ = None"

definition validate_read_item :: "read_item \<Rightarrow> unit result" where
  "validate_read_item item =
     (if item_count item \<le> 0 then Inl ValueError
      else case reg_fields item of
          None \<Rightarrow> Inr ()
        | Some r \<Rightarrow>
            if ri_dtype r = Bit \<and> ri_bit_index r = None then Inl ValueError
            else if ri_dtype r = Bits \<and> ri_bit_indices r = None then Inl ValueError
            else Inr ())"

fun merge_loop :: "(int \<times> int) list \<Rightarrow> (int \<times> int) list \<Rightarrow> (int \<times> int) list" where
  "merge_loop merged [] = merged"
| "merge_loop merged ((s, e) # rest) =
     (if s \<le> snd (last merged)
      then merge_loop (butlast merged @ [(fst (last merged), max (snd (last merged)) e)]) rest
      else merge_loop (merged @ [(s, e)]) rest)"

definition merge_ranges :: "(int \<times> int) list \<Rightarrow> (int \<times> int) list" where
  "merge_ranges ranges =
     (case sort ranges of [] \<Rightarrow> [] | r # rest \<Rightarrow> merge_loop [r] rest)"

text \<open>\<open>by_area.setdefault(area, []).append(x)\<close> on a dict, which keeps insertion order.\<close>

fun setdefault_append :: "'k \<Rightarrow> 'v \<Rightarrow> ('k \<times> 'v list) list \<Rightarrow> ('k \<times> 'v list) list" where
  "setdefault_append k v [] = [(k, [v])]"
| "setdefault_append k v ((k', vs) # m) =
     (if k = k' then (k', vs @ [v]) # m else (k', vs) # setdefault_append k v m)"

definition group_by_area :: "read_item list \<Rightarrow> (area \<times> (int \<times> int) list) list" where
  "group_by_area items =
     foldl (\<lambda>by_area item. setdefault_append (item_area item)
         (item_start item, item_start item + item_count item) by_area) [] items"

lemma READ_LIMITS_pos: "0 < READ_LIMITS a"
  by (cases a) (simp_all add: MAX_READ_REGISTERS_def MAX_READ_COILS_def MAX_READ_DISCRETE_INPUTS_def)

text \<open>The \<open>while cur < e\<close> loop that splits one merged range.\<close>

function split_range :: "area \<Rightarrow> int \<Rightarrow> int \<Rightarrow> read_chunk list" where
  "split_range area cur e =
     (if cur < e
      then let chunk_end = min (cur + READ_LIMITS area) e
           in \<lparr>rc_area = area, rc_start = cur, rc_count = chunk_end - cur\<rparr>
                # split_range area chunk_end e
      else [])"
  by pat_completeness auto
termination
proof (relation "measure (\<lambda>(area, cur, e). nat (e - cur))")
  fix area cur e x
  assume "(cur :: int) < e" "x = min (cur + READ_LIMITS area) e"
  then show "((area, x, e), area, cur, e) \<in> measure (\<lambda>(area, cur, e). nat (e - cur))"
    using READ_LIMITS_pos [of area] by auto
qed simp

declare split_range.simps [simp del]

definition plan_read_chunks :: "read_item list \<Rightarrow> read_chunk list" where
  "plan_read_chunks items =
     concat (map (\<lambda>(area, ranges). concat (map (\<lambda>(s, e). split_range area s e) (merge_ranges ranges)))
       (group_by_area items))"

text \<open>The body of the \<open>try\<close> of \<open>_execute_read_chunk\<close>.\<close>

definition read_chunk_values :: "read_chunk \<Rightarrow> pdu_executor \<Rightarrow> pyval list result" where
  "read_chunk_values chunk execute =
     (case rc_area chunk of
        HOLDING_REGISTER \<Rightarrow>
          bindE (encode_read_holding_registers (rc_start chunk) (rc_count chunk)) (\<lambda>req.
          bindE (execute req) (\<lambda>resp.
          bindE (decode_read_holding_registers resp (rc_count chunk)) (\<lambda>values. Inr (map PInt values))))
      | INPUT_REGISTER \<Rightarrow>
          bindE (encode_read_input_registers (rc_start chunk) (rc_count chunk)) (\<lambda>req.
          bindE (execute req) (\<lambda>resp.
          bindE (decode_read_input_registers resp (rc_count chunk)) (\<lambda>values. Inr (map PInt values))))
      | COIL \<Rightarrow>
          bindE (encode_read_coils (rc_start chunk) (rc_count chunk)) (\<lambda>req.
          bindE (execute req) (\<lambda>resp.
          bindE (decode_read_coils resp (rc_count chunk)) (\<lambda>values. Inr (map PBool values))))
      | DISCRETE_INPUT \<Rightarrow>
          bindE (encode_read_discrete_inputs (rc_start chunk) (rc_count chunk)) (\<lambda>req.
          bindE (execute req) (\<lambda>resp.
          bindE (decode_read_discrete_inputs resp (rc_count chunk)) (\<lambda>values. Inr (map PBool values)))))"

definition execute_read_chunk :: "read_chunk \<Rightarrow> pdu_executor \<Rightarrow> read_chunk_result result" where
  "execute_read_chunk chunk execute =
     (case read_chunk_values chunk execute of
        Inr values \<Rightarrow> Inr \<lparr>cr_chunk = chunk, cr_values = Some values, cr_error = None\<rparr>
      | Inl e \<Rightarrow>
          if is_modbus_error e then Inr \<lparr>cr_chunk = chunk, cr_values = None, cr_error = Some e\<rparr>
          else Inl e)"

text \<open>
  A register taken from a list of mixed values: a \<open>bool\<close> is an \<open>int\<close>, and a \<open>float\<close> has no
  \<open>to_bytes\<close>.
\<close>

fun as_register :: "pyval \<Rightarrow> int result" where
  "as_register (PInt i) = Inr i"
| "as_register (PBool b) = Inr (of_bool b)"
| "as_register (PFloat x) = Inl AttributeError"

text \<open>The \<open>try\<close> of \<open>_decode_register_item\<close>.\<close>

definition decoded_values :: "reg_item \<Rightarrow> pyval list \<Rightarrow> pyval list result" where
  "decoded_values r raw_registers =
     bindE (mapE as_register raw_registers) (\<lambda>regs.
       if ri_dtype r = Bit then
         (case ri_bit_index r of
            None \<Rightarrow> Inl AssertionError
          | Some i \<Rightarrow>
              bindE (extract_bit regs i (ri_word_order r) (ri_byte_order r) (ri_bit_numbering r))
                (\<lambda>b. Inr [PBool b]))
       else if ri_dtype r = Bits then
         (case ri_bit_indices r of
            None \<Rightarrow> Inl AssertionError
          | Some is \<Rightarrow>
              bindE (extract_bits regs is (ri_word_order r) (ri_byte_order r) (ri_bit_numbering r))
                (\<lambda>bs. Inr (map PBool bs)))
       else decode_registers regs (ri_dtype r) (ri_word_order r) (ri_byte_order r))"

definition decode_register_item :: "read_item \<Rightarrow> reg_item \<Rightarrow> pyval list \<Rightarrow> read_result result" where
  "decode_register_item item r raw_registers =
     (case decoded_values r raw_registers of
        Inr decoded \<Rightarrow> Inr \<lparr>rr_item = item, rr_values = decoded, rr_ok = True, rr_error = None\<rparr>
      | Inl e \<Rightarrow>
          if e = ValueError
          then Inr \<lparr>rr_item = item, rr_values = [], rr_ok = False, rr_error = Some ModbusError\<rparr>
          else Inl e)"

definition covers :: "read_item \<Rightarrow> read_chunk \<Rightarrow> bool" where
  "covers item chunk \<longleftrightarrow>
     rc_area chunk = item_area item \<and>
     rc_start chunk < item_start item + item_count item \<and>
     rc_start chunk + rc_count chunk > item_start item"

definition decode_read_item :: "read_item \<Rightarrow> read_chunk_result list \<Rightarrow> read_result result" where
  "decode_read_item item chunk_results =
     (let covering = sort_key (\<lambda>cr. rc_start (cr_chunk cr))
            (filter (\<lambda>cr. covers item (cr_chunk cr)) chunk_results)
      in if covering = []
         then Inr \<lparr>rr_item = item, rr_values = [], rr_ok = False, rr_error = Some ModbusError\<rparr>
         else case find (\<lambda>cr. cr_error cr \<noteq> None) covering of
           Some cr \<Rightarrow> Inr \<lparr>rr_item = item, rr_values = [], rr_ok = False, rr_error = cr_error cr\<rparr>
         | None \<Rightarrow>
             bindE (mapE (\<lambda>cr. case cr_values cr of None \<Rightarrow> Inl AssertionError | Some vs \<Rightarrow> Inr vs) covering)
               (\<lambda>parts.
                 let flat = concat parts;
                     rel_start = item_start item - rc_start (cr_chunk (hd covering));
                     rel_end = rel_start + item_count item;
                     item_values = py_slice flat rel_start rel_end
                 in case reg_fields item of
                      None \<Rightarrow> Inr \<lparr>rr_item = item, rr_values = item_values, rr_ok = True, rr_error = None\<rparr>
                    | Some r \<Rightarrow> decode_register_item item r item_values))"

definition plan_and_execute_reads ::
  "read_item list \<Rightarrow> (nat \<Rightarrow> pdu_executor) \<Rightarrow> nat list \<Rightarrow> read_result list result" where
  "plan_and_execute_reads items execute completion =
     (if items = [] then Inr []
      else bindE (mapE validate_read_item items) (\<lambda>_.
        let chunks = plan_read_chunks items;
            tasks = map (\<lambda>(i, c). execute_read_chunk c (execute i)) (enumerate 0 chunks)
        in bindE (gather completion tasks) (\<lambda>chunk_results.
             mapE (\<lambda>item. decode_read_item item chunk_results) items)))"

section \<open>Writes\<close>

record write_chunk =
  wc_item_idx :: nat
  wc_area :: area
  wc_start :: int
  wc_register_values :: "int list option"
  wc_coil_values :: "bool list option"

record write_chunk_result =
  wcr_chunk :: write_chunk
  wcr_error :: "py_exn option"

fun validate_write_item :: "write_item \<Rightarrow> unit result" where
  "validate_write_item (WriteHolding w) = (if length (wh_values w) = 0 then Inl ValueError else Inr ())"
| "validate_write_item (WriteCoils s vs) = (if length vs = 0 then Inl ValueError else Inr ())"

text \<open>
  The \<open>while cur < len(values)\<close> loop that splits one write: \<open>mk addr part\<close> builds the chunk, and
  the values not yet written are \<open>values[cur:]\<close>.
\<close>

function split_values :: "nat \<Rightarrow> (int \<Rightarrow> 'a list \<Rightarrow> write_chunk) \<Rightarrow> int \<Rightarrow> 'a list \<Rightarrow> write_chunk list" where
  "split_values limit mk addr vs =
     (if vs = [] \<or> limit = 0 then []
      else let size = min limit (length vs)
           in mk addr (take size vs) # split_values limit mk (addr + int size) (drop size vs))"
  by pat_completeness auto
termination
  by (relation "measure (\<lambda>(limit, mk, addr, vs). length vs)") (auto simp: min_def)

declare split_values.simps [simp del]

definition register_chunk :: "nat \<Rightarrow> int \<Rightarrow> int list \<Rightarrow> write_chunk" where
  "register_chunk idx addr part =
     \<lparr>wc_item_idx = idx, wc_area = HOLDING_REGISTER, wc_start = addr,
      wc_register_values = Some part, wc_coil_values = None\<rparr>"

definition coil_chunk :: "nat \<Rightarrow> int \<Rightarrow> bool list \<Rightarrow> write_chunk" where
  "coil_chunk idx addr part =
     \<lparr>wc_item_idx = idx, wc_area = COIL, wc_start = addr,
      wc_register_values = None, wc_coil_values = Some part\<rparr>"

text \<open>One turn of the loop of \<open>_plan_writes\<close>.\<close>

fun plan_write_item :: "nat \<Rightarrow> write_item \<Rightarrow> write_chunk list result" where
  "plan_write_item idx (WriteHolding w) =
     bindE (validate_write_item (WriteHolding w)) (\<lambda>_.
       bindE (encode_registers (wh_values w) (wh_dtype w) (wh_word_order w) (wh_byte_order w)) (\<lambda>regs.
         Inr (split_values (nat MAX_WRITE_REGISTERS) (register_chunk idx) (wh_start w) regs)))"
| "plan_write_item idx (WriteCoils s vs) =
     bindE (validate_write_item (WriteCoils s vs)) (\<lambda>_.
       Inr (split_values (nat MAX_WRITE_COILS) (coil_chunk idx) s vs))"

definition plan_writes :: "write_item list \<Rightarrow> write_chunk list result" where
  "plan_writes items =
     bindE (mapE (\<lambda>(idx, item). plan_write_item idx item) (enumerate 0 items)) (\<lambda>css. Inr (concat css))"

text \<open>The body of the \<open>try\<close> of \<open>_execute_write_chunk\<close>.\<close>

definition write_chunk_exchange :: "write_chunk \<Rightarrow> pdu_executor \<Rightarrow> unit result" where
  "write_chunk_exchange chunk execute =
     (case wc_area chunk of
        HOLDING_REGISTER \<Rightarrow>
          (case wc_register_values chunk of
             None \<Rightarrow> Inl AssertionError
           | Some vs \<Rightarrow>
               if length vs = 1 then
                 bindE (encode_write_single_register (wc_start chunk) (vs ! 0)) (\<lambda>req.
                 bindE (execute req) (\<lambda>resp.
                 bindE (decode_write_single_register resp) (\<lambda>_. Inr ())))
               else
                 bindE (encode_write_multiple_registers (wc_start chunk) vs) (\<lambda>req.
                 bindE (execute req) (\<lambda>resp.
                 bindE (decode_write_multiple_registers resp) (\<lambda>_. Inr ()))))
      | COIL \<Rightarrow>
          (case wc_coil_values chunk of
             None \<Rightarrow> Inl AssertionError
           | Some vs \<Rightarrow>
               if length vs = 1 then
                 bindE (encode_write_single_coil (wc_start chunk) (vs ! 0)) (\<lambda>req.
                 bindE (execute req) (\<lambda>resp.
                 bindE (decode_write_single_coil resp) (\<lambda>_. Inr ())))
               else
                 bindE (encode_write_multiple_coils (wc_start chunk) vs) (\<lambda>req.
                 bindE (execute req) (\<lambda>resp.
                 bindE (decode_write_multiple_coils resp) (\<lambda>_. Inr ()))))
      | _ \<Rightarrow> Inl AssertionError)"

definition execute_write_chunk :: "write_chunk \<Rightarrow> pdu_executor \<Rightarrow> write_chunk_result result" where
  "execute_write_chunk chunk execute =
     (case write_chunk_exchange chunk execute of
        Inr _ \<Rightarrow> Inr \<lparr>wcr_chunk = chunk, wcr_error = None\<rparr>
      | Inl e \<Rightarrow>
          if is_modbus_error e then Inr \<lparr>wcr_chunk = chunk, wcr_error = Some e\<rparr> else Inl e)"

text \<open>The loop that records the first error of each item.\<close>

fun apply_errors :: "write_item list \<Rightarrow> write_chunk_result list \<Rightarrow> write_result list \<Rightarrow> write_result list" where
  "apply_errors items [] results = results"
| "apply_errors items (cr # crs) results =
     (case wcr_error cr of
        None \<Rightarrow> apply_errors items crs results
      | Some e \<Rightarrow>
          let idx = wc_item_idx (wcr_chunk cr) in
          apply_errors items crs
            (if wr_ok (results ! idx)
             then results[idx := \<lparr>wr_item = items ! idx, wr_ok = False, wr_error = Some e\<rparr>]
             else results))"

definition plan_and_execute_writes ::
  "write_item list \<Rightarrow> (nat \<Rightarrow> pdu_executor) \<Rightarrow> nat list \<Rightarrow> write_result list result" where
  "plan_and_execute_writes items execute completion =
     (if items = [] then Inr []
      else bindE (plan_writes items) (\<lambda>chunks.
        let tasks = map (\<lambda>(i, c). execute_write_chunk c (execute i)) (enumerate 0 chunks)
        in bindE (gather completion tasks) (\<lambda>chunk_results.
             Inr (apply_errors items chunk_results
               (map (\<lambda>item. \<lparr>wr_item = item, wr_ok = True, wr_error = None\<rparr>) items)))))"

end
