(* ===== verification/Adu_Tcp.thy ===== *)
theory Adu_Tcp
  imports Py_Runtime
begin

text \<open>
  MBAP framing of Modbus TCP, \<open>src/pymod/protocol/adu_tcp.py\<close>: a seven-byte header
  (transaction id, protocol id, length, unit id) followed by the PDU.
\<close>

definition MBAP_HEADER_LENGTH :: nat where "MBAP_HEADER_LENGTH = 7"
definition MBAP_LENGTH_FIELD_OFFSET :: int where "MBAP_LENGTH_FIELD_OFFSET = 4"
definition MBAP_LENGTH_FIELD_SIZE :: int where "MBAP_LENGTH_FIELD_SIZE = 2"
definition MBAP_PROTOCOL_ID :: int where "MBAP_PROTOCOL_ID = 0x0000"

definition MBAP_MIN_PEEK_BYTES :: int where
  "MBAP_MIN_PEEK_BYTES = MBAP_LENGTH_FIELD_OFFSET + MBAP_LENGTH_FIELD_SIZE"

lemmas mbap_defs [pymod_const] =
  MBAP_HEADER_LENGTH_def MBAP_LENGTH_FIELD_OFFSET_def MBAP_LENGTH_FIELD_SIZE_def
  MBAP_PROTOCOL_ID_def MBAP_MIN_PEEK_BYTES_def

definition encode_mbap_frame :: "int \<Rightarrow> int \<Rightarrow> bytes \<Rightarrow> bytes result" where
  "encode_mbap_frame transaction_id unit_id pdu =
     (if \<not> (0 \<le> transaction_id \<and> transaction_id \<le> 0xFFFF) then Inl ValueError
      else if \<not> (0 \<le> unit_id \<and> unit_id \<le> 0xFF) then Inl ValueError
      else if length pdu = 0 then Inl ValueError
      else let len = 1 + int (length pdu) in
        if len > 0xFFFF then Inl ValueError
        else bindE (pack_HHHB transaction_id MBAP_PROTOCOL_ID len unit_id) (\<lambda>h. Inr (h @ pdu)))"

definition decode_mbap_frame :: "bytes \<Rightarrow> (int \<times> int \<times> bytes) result" where
  "decode_mbap_frame frame =
     (if length frame < MBAP_HEADER_LENGTH then Inl ModbusProtocolError
      else bindE (unpack_HHHB (take MBAP_HEADER_LENGTH frame)) (\<lambda>(tid, pid, len, uid).
        if pid \<noteq> MBAP_PROTOCOL_ID then Inl ModbusProtocolError
        else let pdu = drop MBAP_HEADER_LENGTH frame; expected_pdu_length = len - 1 in
          if expected_pdu_length \<noteq> int (length pdu) then Inl ModbusProtocolError
          else if length pdu = 0 then Inl ModbusProtocolError
          else Inr (tid, uid, pdu)))"

definition expected_frame_length :: "bytes \<Rightarrow> int result" where
  "expected_frame_length header_prefix =
     (if int (length header_prefix) < MBAP_MIN_PEEK_BYTES then Inl ModbusProtocolError
      else bindE (unpack_H Big (py_slice header_prefix MBAP_LENGTH_FIELD_OFFSET
          (MBAP_LENGTH_FIELD_OFFSET + MBAP_LENGTH_FIELD_SIZE)))
        (\<lambda>len. Inr (MBAP_MIN_PEEK_BYTES + len)))"

section \<open>Laws\<close>

abbreviation mbap_ok :: "int \<Rightarrow> int \<Rightarrow> bytes \<Rightarrow> bool" where
  "mbap_ok tid uid pdu \<equiv> 0 \<le> tid \<and> tid \<le> 65535 \<and> 0 \<le> uid \<and> uid \<le> 255 \<and>
     pdu \<noteq> [] \<and> length pdu < 65535"

lemma encode_mbap_frame_eq:
  "encode_mbap_frame tid uid pdu =
     (if mbap_ok tid uid pdu
      then Inr ([word_of_int (tid div 256), word_of_int tid, 0, 0,
        word_of_int ((1 + int (length pdu)) div 256), word_of_int (1 + int (length pdu)),
        word_of_int uid] @ pdu)
      else Inl ValueError)"
  by (auto simp: encode_mbap_frame_def pack_HHHB_def pack_H_ok pack_B_ok Let_def MBAP_PROTOCOL_ID_def)

lemma length_field: "length pdu < 65535 \<Longrightarrow>
  u16 (word_of_int ((1 + int (length pdu)) div 256)) (word_of_int (1 + int (length pdu))) =
    1 + int (length pdu)"
  by (rule u16_word_of_int) auto

lemma encode_mbap_length:
  "encode_mbap_frame tid uid pdu = Inr frame \<Longrightarrow> length frame = 7 + length pdu"
  by (auto simp: encode_mbap_frame_eq split: if_splits)

lemma expected_length_prefix:
  "expected_frame_length (a # b # c # d # e # f # bs) = Inr (6 + u16 e f)"
  by (simp add: expected_frame_length_def mbap_defs py_slice_nat)

lemma decode_mbap_cons:
  "decode_mbap_frame (a # b # c # d # e # f # g # pdu) =
     (if u16 c d = 0 \<and> u16 e f = 1 + int (length pdu) \<and> pdu \<noteq> []
      then Inr (u16 a b, uint g, pdu) else Inl ModbusProtocolError)"
  by (auto simp: decode_mbap_frame_def mbap_defs Let_def eval_nat_numeral)

lemma decode_mbap_short: "length frame < 7 \<Longrightarrow> decode_mbap_frame frame = Inl ModbusProtocolError"
  by (simp add: decode_mbap_frame_def mbap_defs)

lemma list_of_length_ge_7:
  "7 \<le> length xs \<Longrightarrow> \<exists>a b c d e f g bs. xs = a # b # c # d # e # f # g # bs"
  by (auto simp: eval_nat_numeral Suc_le_length_iff)

lemma decode_mbap_error: "decode_mbap_frame frame = Inl e \<Longrightarrow> e = ModbusProtocolError"
proof (cases "7 \<le> length frame")
  case True
  assume "decode_mbap_frame frame = Inl e"
  with True show ?thesis
    by (auto dest!: list_of_length_ge_7 simp: decode_mbap_cons split: if_splits)
qed (simp add: decode_mbap_short)

lemma decode_mbap_ok:
  assumes "decode_mbap_frame frame = Inr (tid, uid, pdu)"
  shows "encode_mbap_frame tid uid pdu = Inr frame"
proof -
  have "7 \<le> length frame"
    using assms by (metis decode_mbap_short Inl_Inr_False not_le)
  then obtain a b c d e f g bs where frame: "frame = a # b # c # d # e # f # g # bs"
    using list_of_length_ge_7 by blast
  with assms have *: "u16 c d = 0" "u16 e f = 1 + int (length bs)" "bs \<noteq> []"
    "tid = u16 a b" "uid = uint g" "pdu = bs"
    by (auto simp: decode_mbap_cons split: if_splits)
  have "c = 0" "d = 0" using *(1) by simp_all
  moreover have "word_of_int ((1 + int (length bs)) div 256) = e" "word_of_int (1 + int (length bs)) = f"
    using u16_div [of e f] word_of_int_u16 [of e f] by (simp_all only: *(2) [symmetric] word_of_int_uint)
  moreover have "int (length bs) < 65535"
    using u16_bounds(2) [of e f] *(2) by linarith
  ultimately show ?thesis
    using * by (simp add: encode_mbap_frame_eq frame)
qed

section \<open>Properties\<close>

text \<open>
  C11: MBAP framing round trips, and the length field frames the stream.  For every transaction
  id, unit id and PDU in range the decoder recovers all three from the encoded frame, and the
  frame length computed from the first six bytes of the frame, whatever follows it on the
  stream, is exactly the length of the frame.  Everything out of range is refused by the encoder.
\<close>

theorem mbap_roundtrip:
  "bindE (encode_mbap_frame tid uid pdu) decode_mbap_frame =
     (if mbap_ok tid uid pdu then Inr (tid, uid, pdu) else Inl ValueError) \<and>
   bindE (encode_mbap_frame tid uid pdu) (\<lambda>frame. expected_frame_length (take 6 (frame @ rest))) =
     (if mbap_ok tid uid pdu then Inr (int (length pdu) + 7) else Inl ValueError)"
  using length_field [of pdu]
  by (simp add: encode_mbap_frame_eq decode_mbap_cons expected_length_prefix
      del: of_int_add of_int_of_nat_eq)

text \<open>
  The MBAP decoder accepts nothing but encoded frames.  Whenever it returns a transaction id,
  a unit id and a PDU, encoding these gives back the very same bytes, so no two frames decode
  alike and every accepted header has protocol id 0 and a truthful length.
\<close>

theorem mbap_decode_canonical:
  assumes "decode_mbap_frame frame = Inr (tid, uid, pdu)"
  shows "encode_mbap_frame tid uid pdu = Inr frame"
  using assms by (rule decode_mbap_ok)

theorem mbap_decode_canonical_witness:
  "encode_mbap_frame 258 17 [3, 4] = Inr [1, 2, 0, 0, 0, 3, 17, 3, 4]"
proof -
  have "decode_mbap_frame [1, 2, 0, 0, 0, 3, 17, 3, 4] = Inr (258, 17, [3, 4])"
    by (simp add: decode_mbap_cons u16_def)
  then show ?thesis by (rule mbap_decode_canonical)
qed

end
