(* ===== verification/Mbap_Stream.thy ===== *)
theory Mbap_Stream
  imports Adu_Tcp
begin

text \<open>
  Reading MBAP frames from a byte stream, as the server's connection handler and the TCP transport's
  read loop both do it: \<open>readexactly(MBAP_MIN_PEEK_BYTES)\<close>, the frame length from the header, and
  \<open>readexactly\<close> of the rest.  \<open>next_frame buf\<close> is what the two reads return when \<open>buf\<close> has arrived:
  nothing yet, or the frame and the bytes after it.
\<close>

definition next_frame :: "bytes \<Rightarrow> (bytes \<times> bytes) option result" where
  "next_frame buf =
     (if int (length buf) < MBAP_MIN_PEEK_BYTES then Inr None
      else let header = take (nat MBAP_MIN_PEEK_BYTES) buf in
        bindE (expected_frame_length header) (\<lambda>total.
          if int (length buf) < total then Inr None
          else Inr (Some (take (nat total) buf, drop (nat total) buf))))"

section \<open>Laws\<close>

lemma next_frame_short: "length buf < 6 \<Longrightarrow> next_frame buf = Inr None"
  by (simp add: next_frame_def MBAP_MIN_PEEK_BYTES_def MBAP_LENGTH_FIELD_OFFSET_def MBAP_LENGTH_FIELD_SIZE_def)

lemma next_frame_long:
  "next_frame (a # b # c # d # e # f # bs) =
     (if int (length bs) < u16 e f then Inr None
      else Inr (Some (a # b # c # d # e # f # take (nat (u16 e f)) bs, drop (nat (u16 e f)) bs)))"
  by (simp add: next_frame_def mbap_defs expected_length_prefix nat_add_distrib eval_nat_numeral)

text \<open>Framing never fails, and a frame has at least the six bytes of its header.\<close>

lemma next_frame_cases:
  obtains "next_frame buf = Inr None"
  | frame rest where "next_frame buf = Inr (Some (frame, rest))" "buf = frame @ rest" "6 \<le> length frame"
proof (cases "6 \<le> length buf")
  case True
  then obtain a b c d e f bs where "buf = a # b # c # d # e # f # bs" using list_of_length_ge_6 by blast
  then show thesis
    using that(1) that(2) [of "a # b # c # d # e # f # take (nat (u16 e f)) bs" "drop (nat (u16 e f)) bs"]
    by (cases "int (length bs) < u16 e f") (simp_all add: next_frame_long)
qed (use that(1) next_frame_short in simp)

lemma next_frame_smaller: "next_frame buf = Inr (Some (frame, rest)) \<Longrightarrow> length rest < length buf"
  by (rule next_frame_cases [of buf]) auto

text \<open>A frame that is complete stays the next frame when more bytes arrive.\<close>

lemma next_frame_append:
  assumes "next_frame buf = Inr (Some (frame, rest))"
  shows "next_frame (buf @ more) = Inr (Some (frame, rest @ more))"
proof -
  have "6 \<le> length buf" using assms next_frame_short [of buf] by (cases "length buf < 6") auto
  then obtain a b c d e f bs where "buf = a # b # c # d # e # f # bs" using list_of_length_ge_6 by blast
  with assms show ?thesis by (auto simp: next_frame_long split: if_splits)
qed

text \<open>An encoded frame at the head of the stream is read back whole.\<close>

lemma next_frame_encoded:
  assumes "encode_mbap_frame tid uid pdu = Inr frame"
  shows "next_frame (frame @ rest) = Inr (Some (frame, rest))" "decode_mbap_frame frame = Inr (tid, uid, pdu)"
proof -
  from assms have ok: "mbap_ok tid uid pdu" and frame: "frame = [word_of_int (tid div 256), word_of_int tid, 0, 0,
      word_of_int ((1 + int (length pdu)) div 256), word_of_int (1 + int (length pdu)), word_of_int uid] @ pdu"
    by (auto simp: encode_mbap_frame_eq split: if_splits)
  have len: "u16 (word_of_int ((1 + int (length pdu)) div 256)) (word_of_int (1 + int (length pdu))) =
      1 + int (length pdu)"
    using ok by (intro length_field) simp
  then have "nat (u16 (word_of_int ((1 + int (length pdu)) div 256)) (word_of_int (1 + int (length pdu)))) =
      Suc (length pdu)" by simp
  with len show "next_frame (frame @ rest) = Inr (Some (frame, rest))"
    unfolding frame by (simp add: next_frame_long del: of_int_add)
  show "decode_mbap_frame frame = Inr (tid, uid, pdu)"
    unfolding frame using ok len by (simp add: decode_mbap_cons del: of_int_add)
qed

lemma decode_mbap_uid:
  "decode_mbap_frame frame = Inr (tid, uid, pdu) \<Longrightarrow> mbap_ok tid uid pdu"
  using decode_mbap_ok [of frame tid uid pdu] by (auto simp: encode_mbap_frame_eq split: if_splits)

end
