(* ===== verification/Server.thy ===== *)
theory Server
  imports Effects Planner Mbap_Stream
begin

text \<open>
  The Modbus TCP server of \<open>src/pymod/server.py\<close>.  The host's store is a state of any type, and the
  callbacks \<open>on_read\<close> and \<open>on_write\<close> are functions on it that return a value or raise; a callback may
  change the store before it raises.  A handler is a function from the store to its result and the
  store after it.  The laws follow in \<open>Server_Laws\<close>.
\<close>

section \<open>Configuration\<close>

record 's server =
  srv_on_read :: "area \<Rightarrow> int \<Rightarrow> int \<Rightarrow> ('s, pyval list) effect"
  srv_on_write :: "(area \<Rightarrow> int \<Rightarrow> pyval list \<Rightarrow> ('s, unit) effect) option"
  srv_unit_id :: "int option"
  srv_max_connections :: int

text \<open>\<open>Server.__init__\<close>; the address to bind is left out.\<close>

definition make_server ::
  "(area \<Rightarrow> int \<Rightarrow> int \<Rightarrow> ('s, pyval list) effect) \<Rightarrow>
   (area \<Rightarrow> int \<Rightarrow> pyval list \<Rightarrow> ('s, unit) effect) option \<Rightarrow> int option \<Rightarrow> int \<Rightarrow> 's server result" where
  "make_server on_read on_write unit_id max_connections =
     (if max_connections < 1 then Inl ValueError
      else Inr \<lparr>srv_on_read = on_read, srv_on_write = on_write, srv_unit_id = unit_id,
                srv_max_connections = max_connections\<rparr>)"

definition GATEWAY_TARGET_FAILED_TO_RESPOND :: int where
  "GATEWAY_TARGET_FAILED_TO_RESPOND = 0x0B"

section \<open>Callback results\<close>

text \<open>\<open>bool(v)\<close> and \<open>int(v)\<close>; a float is false only if it is a zero.\<close>

fun py_bool :: "pyval \<Rightarrow> bool" where
  "py_bool (PBool b) = b"
| "py_bool (PInt i) = (i \<noteq> 0)"
| "py_bool (PFloat x) = (case classify x of FFin s m e \<Rightarrow> m \<noteq> 0 | _ \<Rightarrow> True)"

fun py_int :: "pyval \<Rightarrow> int result" where
  "py_int (PBool b) = Inr (of_bool b)"
| "py_int (PInt i) = Inr i"
| "py_int (PFloat x) = float_to_int x"

abbreviation slave_device_failure :: py_exn where
  "slave_device_failure \<equiv> mk_response SlaveDeviceFailure None"

definition to_bool_list :: "pyval list \<Rightarrow> int \<Rightarrow> bool list result" where
  "to_bool_list values expected_count =
     (if int (length values) \<noteq> expected_count then Inl slave_device_failure
      else Inr (map py_bool values))"

definition to_int_list :: "pyval list \<Rightarrow> int \<Rightarrow> int list result" where
  "to_int_list values expected_count =
     (if int (length values) \<noteq> expected_count then Inl slave_device_failure
      else mapE (\<lambda>v. bindE (py_int v) (\<lambda>iv.
        if \<not> (0 \<le> iv \<and> iv \<le> 0xFFFF) then Inl slave_device_failure else Inr iv)) values)"

section \<open>Request dispatch\<close>

definition call_read :: "'s server \<Rightarrow> area \<Rightarrow> int \<Rightarrow> int \<Rightarrow> ('s, pyval list) effect" where
  "call_read srv area address count = srv_on_read srv area address count"

definition call_write :: "'s server \<Rightarrow> area \<Rightarrow> int \<Rightarrow> pyval list \<Rightarrow> ('s, unit) effect" where
  "call_write srv area address values =
     (case srv_on_write srv of
        None \<Rightarrow> pureS (Inl AssertionError)
      | Some on_write \<Rightarrow> on_write area address values)"

definition handle :: "'s server \<Rightarrow> int \<Rightarrow> bytes \<Rightarrow> ('s, bytes) effect" where
  "handle srv fc pdu =
     (if fc = FC_READ_COILS then
        bindS (pureS (decode_request_read_coils pdu)) (\<lambda>(start, count).
        bindS (call_read srv COIL start count) (\<lambda>values.
        pureS (bindE (to_bool_list values count) encode_response_read_coils)))
      else if fc = FC_READ_DISCRETE_INPUTS then
        bindS (pureS (decode_request_read_discrete_inputs pdu)) (\<lambda>(start, count).
        bindS (call_read srv DISCRETE_INPUT start count) (\<lambda>values.
        pureS (bindE (to_bool_list values count) encode_response_read_discrete_inputs)))
      else if fc = FC_READ_HOLDING_REGISTERS then
        bindS (pureS (decode_request_read_holding_registers pdu)) (\<lambda>(start, count).
        bindS (call_read srv HOLDING_REGISTER start count) (\<lambda>values.
        pureS (bindE (to_int_list values count) encode_response_read_holding_registers)))
      else if fc = FC_READ_INPUT_REGISTERS then
        bindS (pureS (decode_request_read_input_registers pdu)) (\<lambda>(start, count).
        bindS (call_read srv INPUT_REGISTER start count) (\<lambda>values.
        pureS (bindE (to_int_list values count) encode_response_read_input_registers)))
      else if fc \<in> {FC_WRITE_SINGLE_COIL, FC_WRITE_SINGLE_REGISTER, FC_WRITE_MULTIPLE_COILS,
                    FC_WRITE_MULTIPLE_REGISTERS} then
        (if srv_on_write srv = None then
           pureS (encode_exception_response fc (class_code IllegalFunction))
         else if fc = FC_WRITE_SINGLE_COIL then
           bindS (pureS (decode_request_write_single_coil pdu)) (\<lambda>(coil_addr, coil_value).
           bindS (call_write srv COIL coil_addr [PBool coil_value]) (\<lambda>_.
           pureS (encode_response_write_single_coil coil_addr coil_value)))
         else if fc = FC_WRITE_SINGLE_REGISTER then
           bindS (pureS (decode_request_write_single_register pdu)) (\<lambda>(reg_addr, reg_value).
           bindS (call_write srv HOLDING_REGISTER reg_addr [PInt reg_value]) (\<lambda>_.
           pureS (encode_response_write_single_register reg_addr reg_value)))
         else if fc = FC_WRITE_MULTIPLE_COILS then
           bindS (pureS (decode_request_write_multiple_coils pdu)) (\<lambda>(start, bits).
           bindS (call_write srv COIL start (map PBool bits)) (\<lambda>_.
           pureS (encode_response_write_multiple_coils start (int (length bits)))))
         else
           bindS (pureS (decode_request_write_multiple_registers pdu)) (\<lambda>(start, regs).
           bindS (call_write srv HOLDING_REGISTER start (map PInt regs)) (\<lambda>_.
           pureS (encode_response_write_multiple_registers start (int (length regs))))))
      else pureS (encode_exception_response fc (class_code IllegalFunction)))"

text \<open>
  The \<open>except\<close> clauses of \<open>_dispatch\<close>: an exception response carries its own code, any other
  exception of the handler becomes \<open>SLAVE_DEVICE_FAILURE\<close>.
\<close>

fun exception_code :: "py_exn \<Rightarrow> int" where
  "exception_code (ResponseError cls code) = code"
| "exception_code _ = class_code SlaveDeviceFailure"

definition dispatch :: "'s server \<Rightarrow> int \<Rightarrow> bytes \<Rightarrow> ('s, bytes) effect" where
  "dispatch srv uid pdu st =
     (if length pdu = 0 then (encode_exception_response 0 (class_code IllegalFunction), st)
      else let fc = uint (pdu ! 0) in
        if srv_unit_id srv \<noteq> None \<and> srv_unit_id srv \<noteq> Some uid
        then (encode_exception_response fc GATEWAY_TARGET_FAILED_TO_RESPOND, st)
        else case handle srv fc pdu st of
            (Inr response, st') \<Rightarrow> (Inr response, st')
          | (Inl e, st') \<Rightarrow> (encode_exception_response fc (exception_code e), st'))"

section \<open>A connection\<close>

text \<open>
  The \<open>while True\<close> loop of \<open>_on_client\<close> on the bytes that have arrived: the response frames it
  writes, and either the bytes it still waits to complete or the exception that ends the handler.
\<close>

datatype conn_status = Reading bytes | Dropped py_exn

function serve_buffer :: "'s server \<Rightarrow> bytes \<Rightarrow> 's \<Rightarrow> bytes list \<times> conn_status \<times> 's" where
  "serve_buffer srv buf st =
     (case next_frame buf of
        Inl e \<Rightarrow> ([], Dropped e, st)
      | Inr None \<Rightarrow> ([], Reading buf, st)
      | Inr (Some (frame, rest)) \<Rightarrow>
          (case decode_mbap_frame frame of
             Inl e \<Rightarrow>
               if isinstance_exn e C_ModbusProtocolError then serve_buffer srv rest st
               else ([], Dropped e, st)
           | Inr (tid, uid, request_pdu) \<Rightarrow>
               (case dispatch srv uid request_pdu st of
                  (Inl e, st') \<Rightarrow> ([], Dropped e, st')
                | (Inr response_pdu, st') \<Rightarrow>
                    (case encode_mbap_frame tid uid response_pdu of
                       Inl e \<Rightarrow> ([], Dropped e, st')
                     | Inr response_frame \<Rightarrow>
                         let (sent, status, st'') = serve_buffer srv rest st'
                         in (response_frame # sent, status, st'')))))"
  by pat_completeness auto
termination
  by (relation "measure (\<lambda>(srv, buf, st). length buf)") (auto dest: next_frame_smaller)

declare serve_buffer.simps [simp del]

end
