(* ===== verification/Pdu_Laws.thy ===== *)
theory Pdu_Laws
  imports Pdu
begin

text \<open>
  Laws of the PDU codecs: bit packing and unpacking are inverse, every request encoder is
  undone by the server's request decoder, every response encoder by the client's response
  decoder, and no decoder escapes its documented error class on any byte string.  The locales
  state these laws as interfaces; the planner and the server rely on them through the
  interpretations.
\<close>

section \<open>Bit packing\<close>

lemma length_pack_loop [simp]: "length (pack_loop i vs buf) = length buf"
  by (induction i vs buf rule: pack_loop.induct) simp_all

lemma div_mod_8: "(i div 8 = k \<and> i mod 8 = j) \<longleftrightarrow> i = 8 * k + j" if "j < 8" for i j k :: nat
  using that by auto

lemma bit_set_in_buf:
  assumes "k < length buf" "j < 8"
  shows "bit (buf[i div 8 := (buf ! (i div 8)) OR push_bit (i mod 8) (1 :: byte)] ! k) j
    \<longleftrightarrow> bit (buf ! k) j \<or> i = 8 * k + j"
proof (cases "i div 8 = k")
  case True
  with assms div_mod_8 [of j i k] have "i = 8 * k + j \<longleftrightarrow> i mod 8 = j" by blast
  with True assms show ?thesis by (auto simp: bit_simps)
next
  case False
  with assms div_mod_8 [of j i k] show ?thesis by auto
qed

lemma bit_pack_loop:
  "k < length buf \<Longrightarrow> j < 8 \<Longrightarrow> bit (pack_loop i vs buf ! k) j \<longleftrightarrow>
     bit (buf ! k) j \<or> (i \<le> 8 * k + j \<and> 8 * k + j < i + length vs \<and> vs ! (8 * k + j - i))"
proof (induction i vs buf rule: pack_loop.induct)
  case (1 i buf)
  then show ?case by auto
next
  case (2 i v vs buf)
  let ?t = "8 * k + j"
  let ?buf = "if v then buf[i div 8 := (buf ! (i div 8)) OR push_bit (i mod 8) 1] else buf"
  have "bit (pack_loop i (v # vs) buf ! k) j \<longleftrightarrow> bit (?buf ! k) j \<or>
      (Suc i \<le> ?t \<and> ?t < Suc i + length vs \<and> vs ! (?t - Suc i))"
    using 2 by simp
  also have "bit (?buf ! k) j \<longleftrightarrow> bit (buf ! k) j \<or> (v \<and> i = ?t)"
    using 2(2,3) bit_set_in_buf [of k buf j i] by simp
  finally show ?case
    by (cases "i = ?t") (auto simp: nth_Cons' Suc_le_eq)
qed

lemma length_pack_bits [simp]: "length (pack_bits vs) = (length vs + 7) div 8"
  by (simp add: pack_bits_def)

lemma bit_pack_bits:
  assumes "i < length vs"
  shows "bit (pack_bits vs ! (i div 8)) (i mod 8) = vs ! i"
  using assms by (simp add: pack_bits_def bit_pack_loop)

lemma pack_bits_padding:
  assumes "length vs \<le> i" "i < 8 * length (pack_bits vs)"
  shows "\<not> bit (pack_bits vs ! (i div 8)) (i mod 8)"
  using assms by (simp add: pack_bits_def bit_pack_loop less_mult_imp_div_less)

lemma unpack_bits_eq:
  assumes "0 \<le> off" "off + (count + 7) div 8 \<le> int (length data)"
  shows "unpack_bits data off count =
    Inr (map (\<lambda>i. bit (data ! (nat off + i div 8)) (i mod 8)) [0..<nat count])"
proof -
  have "unpack_bits data off count =
      Inr (map (\<lambda>i. bit (data ! nat (off + i div 8)) (nat (i mod 8))) (py_range count))"
    unfolding unpack_bits_def
  proof (rule mapE_Inr)
    fix i assume "i \<in> set (py_range count)"
    then have "0 \<le> off + i div 8" "off + i div 8 < int (length data)"
      using assms by auto
    then show "bindE (py_index data (off + i div 8)) (\<lambda>b. Inr (shift_and_1 (uint b) (nat (i mod 8))))
        = Inr (bit (data ! nat (off + i div 8)) (nat (i mod 8)))"
      by (simp add: bit_uint_iff) (use less_imp_le in force)
  qed
  then show ?thesis
    using assms(1) by (simp add: py_range_def nat_add_distrib nat_div_distrib nat_mod_distrib)
qed

lemma unpack_pack_bits:
  "unpack_bits (pre @ pack_bits vs) (int (length pre)) (int (length vs)) = Inr vs"
proof -
  have "nat ((int (length vs) + 7) div 8) = (length vs + 7) div 8" by simp
  then have "unpack_bits (pre @ pack_bits vs) (int (length pre)) (int (length vs)) =
      Inr (map (\<lambda>i. bit ((pre @ pack_bits vs) ! (length pre + i div 8)) (i mod 8)) [0..<length vs])"
    by (subst unpack_bits_eq) simp_all
  also have "\<dots> = Inr (map (\<lambda>i. vs ! i) [0..<length vs])"
    by (simp add: bit_pack_bits nth_append)
  finally show ?thesis by (simp add: map_nth)
qed

section \<open>Exception responses\<close>

lemma raise_exception_normal [simp]:
  "0 \<le> fc \<Longrightarrow> fc \<le> 255 \<Longrightarrow> raise_exception (word_of_int fc # bs) fc = Inr ()"
  by (simp add: raise_exception_def detect_exception_def Let_def)

lemma detect_exception_normal:
  "uint f = fc \<Longrightarrow> detect_exception (f # bs) fc = Inr None"
  by (simp add: detect_exception_def Let_def)

text \<open>Whatever the bytes are, a raised error is one of the library's own classes.\<close>

lemma raise_exception_modbus_error: "raise_exception pdu fc = Inl e \<Longrightarrow> is_modbus_error e"
  by (auto simp: raise_exception_def detect_exception_def bindE_eq_Inl mk_response_def Let_def
      split: if_splits option.splits)

lemma raise_exception_Inr:
  "raise_exception pdu fc = Inr u \<Longrightarrow> pdu \<noteq> [] \<and> uint (pdu ! 0) = fc"
  by (auto simp: raise_exception_def detect_exception_def Let_def split: if_splits option.splits)

lemma take_bit_and_exp: "take_bit n x AND 2 ^ n = (0 :: int)"
  by (rule bit_eqI) (auto simp: bit_and_iff bit_exp_iff bit_take_bit_iff)

lemma and_255: "x AND 255 = x mod (256 :: int)"
  using take_bit_eq_mask [of 8 x] by (simp add: take_bit_eq_mod mask_eq_exp_minus_1)

lemma exception_bit_or:
  assumes "0 \<le> fc" "fc < 128"
  shows "(fc OR 128) = fc + (128 :: int)"
proof -
  have fc: "take_bit 7 fc = fc"
    using assms by (simp add: take_bit_int_eq_self_iff)
  have "fc AND 128 = 0"
    using take_bit_and_exp [of 7 fc] by (simp add: fc)
  then show ?thesis by (simp add: disjunctive_add_eq_or)
qed

lemma or_128_high:
  assumes "128 \<le> fc" "fc \<le> 255"
  shows "(fc OR 128) = (fc :: int)"
proof -
  have "fc = 128 + (fc - 128)" by simp
  also have "\<dots> = (fc - 128) OR 128"
    using assms exception_bit_or [of "fc - 128"] by simp
  finally show ?thesis by (metis or.assoc or.idem)
qed

lemma or_128_mod: "0 \<le> fc \<Longrightarrow> fc \<le> 255 \<Longrightarrow> (fc OR 128) AND 255 = (fc OR (128 :: int))"
  using exception_bit_or [of fc] or_128_high [of fc]
  by (cases "fc < 128") (simp_all add: and_255)

section \<open>Read requests\<close>

definition be16 :: "int \<Rightarrow> bytes" where
  "be16 v = [word_of_int (v div 256), word_of_int v]"

lemma read_request_encode:
  assumes "0 \<le> fc" "fc \<le> 255" "limit \<le> 65535"
  shows "bindE (check_address s) (\<lambda>_. bindE (check_count c limit) (\<lambda>_. pack_BHH fc s c)) =
    (if 0 \<le> s \<and> s \<le> ADDRESS_MAX \<and> 1 \<le> c \<and> c \<le> limit
     then Inr (word_of_int fc # be16 s @ be16 c) else Inl ValueError)"
  using assms by (auto simp: check_address_def check_count_def pack_BHH_ok be16_def ADDRESS_MAX_def)

lemma list_of_length_5: "length pdu = 5 \<Longrightarrow> \<exists>a b c d e. pdu = [a, b, c, d, e]"
  by (auto simp: length_Suc_conv eval_nat_numeral)

lemma slice_1_5 [simp]: "py_slice (a # b # c # d # e # bs) 1 5 = [b, c, d, e]"
  by (simp add: py_slice_nat)

lemma read_request_decode:
  "(if length pdu \<noteq> 5 then Inl illegal_data_value
    else bindE (unpack_HH (py_slice pdu 1 5)) (\<lambda>(start, count).
      if \<not> (1 \<le> count \<and> count \<le> limit) then Inl illegal_data_value else Inr (start, count))) =
   (case pdu of [a, b, c, d, e] \<Rightarrow>
      if 1 \<le> u16 d e \<and> u16 d e \<le> limit then Inr (u16 b c, u16 d e) else Inl illegal_data_value
    | _ \<Rightarrow> Inl illegal_data_value)"
  by (auto simp: split: list.splits dest: list_of_length_5)

text \<open>
  The interface of a read function code as client and server use it: the request encoder accepts
  exactly the addresses and counts of the specification, the request decoder inverts it and
  accepts nothing else under the same function code.
\<close>

locale read_request =
  fixes fc limit :: int
    and enc_req :: "int \<Rightarrow> int \<Rightarrow> bytes result"
    and dec_req :: "bytes \<Rightarrow> (int \<times> int) result"
  assumes enc_req: "enc_req s c =
      (if 0 \<le> s \<and> s \<le> ADDRESS_MAX \<and> 1 \<le> c \<and> c \<le> limit
       then Inr (word_of_int fc # be16 s @ be16 c) else Inl ValueError)"
    and dec_req: "dec_req pdu =
      (case pdu of [a, b, c, d, e] \<Rightarrow>
         if 1 \<le> u16 d e \<and> u16 d e \<le> limit then Inr (u16 b c, u16 d e) else Inl illegal_data_value
       | _ \<Rightarrow> Inl illegal_data_value)"
    and fc_byte: "0 \<le> fc" "fc < 128"
    and limit_word: "limit \<le> 65535"
begin

lemma roundtrip:
  "bindE (enc_req s c) dec_req =
     (if 0 \<le> s \<and> s \<le> ADDRESS_MAX \<and> 1 \<le> c \<and> c \<le> limit then Inr (s, c) else Inl ValueError)"
  using limit_word by (auto simp: enc_req dec_req be16_def ADDRESS_MAX_def)

lemma canonical:
  assumes "dec_req pdu = Inr (s, c)" "uint (pdu ! 0) = fc"
  shows "enc_req s c = Inr pdu"
proof -
  from assms obtain a b c' d e where pdu: "pdu = [a, b, c', d, e]"
    and s: "s = u16 b c'" and c: "c = u16 d e" and "1 \<le> c" "c \<le> limit"
    by (auto simp: dec_req split: list.splits if_splits)
  moreover from assms(2) pdu have "word_of_int fc = a" by auto
  ultimately show ?thesis by (simp add: enc_req be16_def ADDRESS_MAX_def)
qed

lemma request_head:
  "enc_req s c = Inr pdu \<Longrightarrow> length pdu = 5 \<and> uint (pdu ! 0) = fc"
  using fc_byte by (auto simp: enc_req be16_def split: if_splits)

lemma request_error: "dec_req pdu = Inl e \<Longrightarrow> e = illegal_data_value"
  by (auto simp: dec_req split: list.splits if_splits)

lemma request_decoded: "enc_req s c = Inr pdu \<Longrightarrow> dec_req pdu = Inr (s, c)"
  using roundtrip [of s c] enc_req [of s c] by (simp split: if_splits)

lemma request_range:
  "dec_req pdu = Inr (s, c) \<Longrightarrow> 0 \<le> s \<and> s \<le> 65535 \<and> 1 \<le> c \<and> c \<le> limit"
  by (auto simp: dec_req split: list.splits if_splits)

end

interpretation coils_req: read_request FC_READ_COILS MAX_READ_COILS
  encode_read_coils decode_request_read_coils
  by unfold_locales
    (simp_all add: encode_read_coils_def decode_request_read_coils_def read_request_encode
      read_request_decode pymod_const)

interpretation discrete_req: read_request FC_READ_DISCRETE_INPUTS MAX_READ_DISCRETE_INPUTS
  encode_read_discrete_inputs decode_request_read_discrete_inputs
  by unfold_locales
    (simp_all add: encode_read_discrete_inputs_def decode_request_read_discrete_inputs_def
      read_request_encode read_request_decode pymod_const)

interpretation holding_req: read_request FC_READ_HOLDING_REGISTERS MAX_READ_REGISTERS
  encode_read_holding_registers decode_request_read_holding_registers
  by unfold_locales
    (simp_all add: encode_read_holding_registers_def decode_request_read_holding_registers_def
      read_request_encode read_request_decode pymod_const)

interpretation input_req: read_request FC_READ_INPUT_REGISTERS MAX_READ_REGISTERS
  encode_read_input_registers decode_request_read_input_registers
  by unfold_locales
    (simp_all add: encode_read_input_registers_def decode_request_read_input_registers_def
      read_request_encode read_request_decode pymod_const)

section \<open>Read responses\<close>

text \<open>
  The interface of a read response.  \<open>okv\<close> says which values fit a cell, \<open>cells\<close> how many cells
  a response can carry at most; beyond that the byte count does not fit its byte.
\<close>

locale read_response =
  fixes fc :: int and cells :: nat and okv :: "'v \<Rightarrow> bool"
    and enc_resp :: "'v list \<Rightarrow> bytes result"
    and dec_resp :: "bytes \<Rightarrow> int \<Rightarrow> 'v list result"
  assumes resp_ok: "list_all okv vs \<Longrightarrow> length vs \<le> cells \<Longrightarrow>
      \<exists>body. enc_resp vs = Inr (word_of_int fc # body) \<and>
        dec_resp (word_of_int fc # body) (int (length vs)) = Inr vs"
    and resp_large: "list_all okv vs \<Longrightarrow> cells < length vs \<Longrightarrow> enc_resp vs = Inl ValueError"
    and dec_values: "dec_resp pdu c = Inr vs \<Longrightarrow> length vs = nat c \<and> list_all okv vs"
    and dec_head: "dec_resp pdu c = Inr vs \<Longrightarrow> pdu \<noteq> [] \<and> uint (pdu ! 0) = fc"
    and dec_error: "dec_resp pdu c = Inl e \<Longrightarrow> is_modbus_error e"
begin

lemma resp_roundtrip:
  "list_all okv vs \<Longrightarrow> bindE (enc_resp vs) (\<lambda>p. dec_resp p (int (length vs))) =
     (if length vs \<le> cells then Inr vs else Inl ValueError)"
  using resp_ok [of vs] resp_large [of vs] by (cases "length vs \<le> cells") auto

end

lemma decode_bit_response_eq:
  "decode_bit_response pdu count fc =
     bindE (raise_exception pdu fc) (\<lambda>_.
       if 2 \<le> length pdu \<and> uint (pdu ! 1) = (count + 7) div 8 \<and> int (length pdu) = 2 + (count + 7) div 8
       then Inr (map (\<lambda>i. bit (pdu ! (2 + i div 8)) (i mod 8)) [0..<nat count])
       else Inl ModbusProtocolError)"
  by (cases "raise_exception pdu fc") (simp_all add: decode_bit_response_def Let_def unpack_bits_eq)

lemma decode_register_response_eq:
  "decode_register_response pdu count fc =
     bindE (raise_exception pdu fc) (\<lambda>_.
       if 2 \<le> length pdu \<and> uint (pdu ! 1) = 2 * count \<and> int (length pdu) = 2 + 2 * count
       then Inr (words_be (drop 2 pdu)) else Inl ModbusProtocolError)"
  using uint_byte_bounds(1) [of "pdu ! 1"]
  by (cases "raise_exception pdu fc")
    (auto simp: decode_register_response_def Let_def unpack_nH_def)

lemma bit_response_roundtrip:
  assumes "0 \<le> fc" "fc \<le> 255" "length vs \<le> 2040"
  shows "decode_bit_response (word_of_int fc # word_of_int ((int (length vs) + 7) div 8) # pack_bits vs)
    (int (length vs)) fc = Inr vs"
proof -
  have "map (\<lambda>i. bit (pack_bits vs ! (i div 8)) (i mod 8)) [0..<length vs] = vs"
    using bit_pack_bits [of _ vs] by (intro nth_equalityI) simp_all
  moreover have "int ((length vs + 7) div 8) = (int (length vs) + 7) div 8" by simp
  ultimately show ?thesis
    using assms by (simp add: decode_bit_response_eq)
qed

lemma bit_response_locale:
  assumes fc: "0 \<le> fc" "fc \<le> 255"
    and enc: "\<And>vs. enc vs = (if length vs \<le> 2040
        then Inr (word_of_int fc # word_of_int ((int (length vs) + 7) div 8) # pack_bits vs)
        else Inl ValueError)"
    and dec: "\<And>pdu c. dec pdu c = decode_bit_response pdu c fc"
  shows "read_response fc 2040 (\<lambda>_. True) enc dec"
proof
  fix vs :: "bool list" assume "length vs \<le> 2040"
  then show "\<exists>body. enc vs = Inr (word_of_int fc # body) \<and>
      dec (word_of_int fc # body) (int (length vs)) = Inr vs"
    using bit_response_roundtrip [OF fc] by (simp add: enc dec)
next
  fix vs :: "bool list" assume "2040 < length vs"
  then show "enc vs = Inl ValueError" by (simp add: enc)
next
  fix pdu c vs assume "dec pdu c = Inr vs"
  then show "length vs = nat c \<and> list_all (\<lambda>_. True) vs"
    by (auto simp: dec decode_bit_response_eq list_all_iff split: if_splits)
next
  fix pdu c vs assume "dec pdu c = Inr vs"
  then show "pdu \<noteq> [] \<and> uint (pdu ! 0) = fc"
    by (auto simp: dec decode_bit_response_eq dest: raise_exception_Inr split: if_splits)
next
  fix pdu c e assume "dec pdu c = Inl e"
  then show "is_modbus_error e"
    by (auto simp: dec decode_bit_response_eq bindE_eq_Inl dest: raise_exception_modbus_error
        split: if_splits)
qed

interpretation coils_resp: read_response FC_READ_COILS 2040 "\<lambda>_. True"
  encode_response_read_coils decode_read_coils
  by (rule bit_response_locale)
    (auto simp: encode_response_read_coils_def decode_read_coils_def byte_of_int_def Let_def
      FC_READ_COILS_def)

interpretation discrete_resp: read_response FC_READ_DISCRETE_INPUTS 2040 "\<lambda>_. True"
  encode_response_read_discrete_inputs decode_read_discrete_inputs
  by (rule bit_response_locale)
    (auto simp: encode_response_read_discrete_inputs_def decode_read_discrete_inputs_def
      byte_of_int_def Let_def FC_READ_DISCRETE_INPUTS_def)

abbreviation is_reg :: "int \<Rightarrow> bool" where
  "is_reg v \<equiv> 0 \<le> v \<and> v \<le> 65535"

lemma words_be_be16: "list_all is_reg vs \<Longrightarrow> words_be (concat (map be16 vs)) = vs"
  by (induction vs) (simp_all add: be16_def)

lemma length_concat_be16 [simp]: "length (concat (map be16 vs)) = 2 * length vs"
  by (induction vs) (simp_all add: be16_def)

lemma mapE_to_bytes_be16:
  "list_all is_reg vs \<Longrightarrow> mapE (\<lambda>v. int_to_bytes v 2 Big False) vs = Inr (map be16 vs)"
  by (rule mapE_Inr) (auto simp: list_all_iff int_to_bytes_def be16_def be_bytes_2)

lemma pack_nH_be16: "list_all is_reg vs \<Longrightarrow> pack_nH vs = Inr (concat (map be16 vs))"
  by (induction vs) (simp_all add: pack_nH_Cons pack_H_ok be16_def)

lemma register_response_roundtrip:
  assumes "0 \<le> fc" "fc \<le> 255" "length vs \<le> 127" "list_all is_reg vs"
  shows "decode_register_response (word_of_int fc # word_of_int (int (2 * length vs)) #
      concat (map be16 vs)) (int (length vs)) fc = Inr vs"
proof -
  have "uint (2 * word_of_nat (length vs) :: byte) = 2 * int (length vs)"
    using uint_word_of_int_byte [of "2 * int (length vs)"] assms(3) by simp
  with assms show ?thesis by (simp add: decode_register_response_eq words_be_be16)
qed

lemma register_response_locale:
  assumes fc: "0 \<le> fc" "fc \<le> 255"
    and enc: "\<And>vs. list_all is_reg vs \<Longrightarrow> enc vs = (if length vs \<le> 127
        then Inr (word_of_int fc # word_of_int (int (2 * length vs)) # concat (map be16 vs))
        else Inl ValueError)"
    and dec: "\<And>pdu c. dec pdu c = decode_register_response pdu c fc"
  shows "read_response fc 127 is_reg enc dec"
proof
  fix vs assume "list_all is_reg vs" "length vs \<le> 127"
  then show "\<exists>body. enc vs = Inr (word_of_int fc # body) \<and>
      dec (word_of_int fc # body) (int (length vs)) = Inr vs"
    using register_response_roundtrip [OF fc, of vs] by (simp add: enc dec)
next
  fix vs assume "list_all is_reg vs" "127 < length vs"
  then show "enc vs = Inl ValueError" by (simp add: enc)
next
  fix pdu c vs assume "dec pdu c = Inr vs"
  then show "length vs = nat c \<and> list_all is_reg vs"
    by (auto simp: dec decode_register_response_eq list_all_iff dest: words_be_range
        split: if_splits)
next
  fix pdu c vs assume "dec pdu c = Inr vs"
  then show "pdu \<noteq> [] \<and> uint (pdu ! 0) = fc"
    by (auto simp: dec decode_register_response_eq dest: raise_exception_Inr split: if_splits)
next
  fix pdu c e assume "dec pdu c = Inl e"
  then show "is_modbus_error e"
    by (auto simp: dec decode_register_response_eq bindE_eq_Inl dest: raise_exception_modbus_error
        split: if_splits)
qed

interpretation holding_resp: read_response FC_READ_HOLDING_REGISTERS 127 is_reg
  encode_response_read_holding_registers decode_read_holding_registers
  by (rule register_response_locale)
    (auto simp: encode_response_read_holding_registers_def decode_read_holding_registers_def
      mapE_to_bytes_be16 byte_of_int_def Let_def FC_READ_HOLDING_REGISTERS_def)

interpretation input_resp: read_response FC_READ_INPUT_REGISTERS 127 is_reg
  encode_response_read_input_registers decode_read_input_registers
  by (rule register_response_locale)
    (auto simp: encode_response_read_input_registers_def decode_read_input_registers_def
      mapE_to_bytes_be16 byte_of_int_def Let_def FC_READ_INPUT_REGISTERS_def)

section \<open>Writes\<close>

lemma unpack_BHH_be16:
  "is_reg s \<Longrightarrow> is_reg v \<Longrightarrow> unpack_BHH (f # be16 s @ be16 v) = Inr (uint f, s, v)"
  by (simp add: be16_def)

lemma pack_BHH_be16:
  "0 \<le> f \<Longrightarrow> f \<le> 255 \<Longrightarrow> is_reg s \<Longrightarrow> is_reg v \<Longrightarrow> pack_BHH f s v = Inr (word_of_int f # be16 s @ be16 v)"
  by (simp add: pack_BHH_ok be16_def)

text \<open>
  The interface of a write function code.  \<open>ack\<close> is what a response confirms of a request, a
  pair of the address and the value or count; the client only decodes the acknowledgement, the
  server echoes it.
\<close>

locale write_fc =
  fixes fc :: int and ok :: "int \<Rightarrow> 'v \<Rightarrow> bool" and ack :: "'v \<Rightarrow> 'w"
    and enc_req :: "int \<Rightarrow> 'v \<Rightarrow> bytes result"
    and dec_req :: "bytes \<Rightarrow> (int \<times> 'v) result"
    and enc_resp :: "int \<Rightarrow> 'w \<Rightarrow> bytes result"
    and dec_resp :: "bytes \<Rightarrow> (int \<times> 'w) result"
  assumes wreq_ok: "ok s v \<Longrightarrow> \<exists>body. enc_req s v = Inr (word_of_int fc # body) \<and>
      dec_req (word_of_int fc # body) = Inr (s, v)"
    and wreq_reject: "\<not> ok s v \<Longrightarrow> enc_req s v = Inl ValueError"
    and wreq_error: "dec_req pdu = Inl e \<Longrightarrow> e = illegal_data_value"
    and wreq_range: "dec_req pdu = Inr (s, v) \<Longrightarrow> ok s v"
    and wresp_ok: "ok s v \<Longrightarrow> \<exists>body. enc_resp s (ack v) = Inr (word_of_int fc # body) \<and>
      dec_resp (word_of_int fc # body) = Inr (s, ack v)"
    and wresp_error: "dec_resp pdu = Inl e \<Longrightarrow> is_modbus_error e"
begin

lemma write_roundtrip: "bindE (enc_req s v) dec_req = (if ok s v then Inr (s, v) else Inl ValueError)"
  using wreq_ok [of s v] wreq_reject [of s v] by auto

text \<open>A request the server decodes is acknowledged by a response the client decodes.\<close>

lemma acknowledged: "dec_req pdu = Inr (s, v) \<Longrightarrow> bindE (enc_resp s (ack v)) dec_resp = Inr (s, ack v)"
  using wresp_ok [OF wreq_range] by fastforce

end

lemmas write_defs =
  encode_write_single_coil_def encode_write_single_register_def
  encode_write_multiple_coils_def encode_write_multiple_registers_def
  encode_response_write_single_coil_def encode_response_write_single_register_def
  encode_response_write_multiple_coils_def encode_response_write_multiple_registers_def

lemma echo_response_error:
  assumes "bindE (raise_exception pdu fc) (\<lambda>_. if length pdu \<noteq> 5 then Inl ModbusProtocolError
      else bindE (unpack_BHH pdu) (\<lambda>(_, a, v). Inr (a, v))) = Inl e"
  shows "is_modbus_error e"
  using assms by (auto simp: bindE_eq_Inl dest: raise_exception_modbus_error list_of_length_5
      split: if_splits)

interpretation single_coil: write_fc FC_WRITE_SINGLE_COIL "\<lambda>s _. is_reg s" id
  encode_write_single_coil decode_request_write_single_coil
  encode_response_write_single_coil decode_write_single_coil
proof
  fix s :: int and v :: bool assume "is_reg s"
  then show "\<exists>body. encode_write_single_coil s v = Inr (word_of_int FC_WRITE_SINGLE_COIL # body) \<and>
      decode_request_write_single_coil (word_of_int FC_WRITE_SINGLE_COIL # body) = Inr (s, v)"
    by (auto simp: write_defs decode_request_write_single_coil_def check_address_def Let_def
        pack_BHH_ok pymod_const)
next
  fix s :: int and v :: bool assume "is_reg s"
  then show "\<exists>body. encode_response_write_single_coil s (id v) =
        Inr (word_of_int FC_WRITE_SINGLE_COIL # body) \<and>
      decode_write_single_coil (word_of_int FC_WRITE_SINGLE_COIL # body) = Inr (s, id v)"
    by (auto simp: write_defs decode_write_single_coil_def Let_def pack_BHH_ok
        raise_exception_def detect_exception_def pymod_const)
next
  fix pdu e assume "decode_write_single_coil pdu = Inl e"
  then show "is_modbus_error e"
    by (auto simp: decode_write_single_coil_def bindE_eq_Inl dest: raise_exception_modbus_error
        list_of_length_5 split: if_splits)
next
  fix pdu e assume "decode_request_write_single_coil pdu = Inl e"
  then show "e = illegal_data_value"
    by (auto simp: decode_request_write_single_coil_def bindE_eq_Inl dest: list_of_length_5
        split: if_splits)
next
  fix pdu s v assume "decode_request_write_single_coil pdu = Inr (s, v)"
  then show "is_reg s"
    by (auto simp: decode_request_write_single_coil_def dest!: list_of_length_5 split: if_splits)
qed (auto simp: encode_write_single_coil_def check_address_def ADDRESS_MAX_def)

interpretation single_register: write_fc FC_WRITE_SINGLE_REGISTER "\<lambda>s v. is_reg s \<and> is_reg v" id
  encode_write_single_register decode_request_write_single_register
  encode_response_write_single_register decode_write_single_register
proof
  fix s v :: int assume "is_reg s \<and> is_reg v"
  then show "\<exists>body. encode_write_single_register s v =
        Inr (word_of_int FC_WRITE_SINGLE_REGISTER # body) \<and>
      decode_request_write_single_register (word_of_int FC_WRITE_SINGLE_REGISTER # body) = Inr (s, v)"
    by (auto simp: write_defs decode_request_write_single_register_def check_address_def Let_def
        pack_BHH_ok pymod_const)
next
  fix s v :: int assume "is_reg s \<and> is_reg v"
  then show "\<exists>body. encode_response_write_single_register s (id v) =
        Inr (word_of_int FC_WRITE_SINGLE_REGISTER # body) \<and>
      decode_write_single_register (word_of_int FC_WRITE_SINGLE_REGISTER # body) = Inr (s, id v)"
    by (auto simp: write_defs decode_write_single_register_def Let_def pack_BHH_ok
        raise_exception_def detect_exception_def pymod_const)
next
  fix pdu e assume "decode_request_write_single_register pdu = Inl e"
  then show "e = illegal_data_value"
    by (auto simp: decode_request_write_single_register_def bindE_eq_Inl dest: list_of_length_5
        split: if_splits)
next
  fix pdu s v assume "decode_request_write_single_register pdu = Inr (s, v)"
  then show "is_reg s \<and> is_reg v"
    by (auto simp: decode_request_write_single_register_def dest!: list_of_length_5 split: if_splits)
qed (auto simp: encode_write_single_register_def check_address_def ADDRESS_MAX_def
      decode_write_single_register_def dest: echo_response_error)

text \<open>The two multiple-write decoders, on the shape every accepted request has.\<close>

lemma decode_multiple_coils_eq:
  "decode_request_write_multiple_coils pdu =
     (case pdu of a # b # c # d # e # f # bs \<Rightarrow>
        if 1 \<le> u16 d e \<and> u16 d e \<le> MAX_WRITE_COILS \<and> uint f = (u16 d e + 7) div 8
          \<and> int (length bs) = (u16 d e + 7) div 8
        then Inr (u16 b c, map (\<lambda>i. bit (bs ! (i div 8)) (i mod 8)) [0..<nat (u16 d e)])
        else Inl illegal_data_value
      | _ \<Rightarrow> Inl illegal_data_value)"
proof (cases "6 \<le> length pdu")
  case True
  then obtain a b c d e f bs where pdu: "pdu = a # b # c # d # e # f # bs"
    using list_of_length_ge_6 by blast
  show ?thesis
    by (auto simp: pdu decode_request_write_multiple_coils_def Let_def unpack_bits_eq)
next
  case False
  then show ?thesis
    by (auto simp: decode_request_write_multiple_coils_def split: list.splits)
qed

lemma decode_multiple_registers_eq:
  "decode_request_write_multiple_registers pdu =
     (case pdu of a # b # c # d # e # f # bs \<Rightarrow>
        if 1 \<le> u16 d e \<and> u16 d e \<le> MAX_WRITE_REGISTERS \<and> uint f = 2 * u16 d e
          \<and> int (length bs) = 2 * u16 d e
        then Inr (u16 b c, words_be bs) else Inl illegal_data_value
      | _ \<Rightarrow> Inl illegal_data_value)"
proof (cases "6 \<le> length pdu")
  case True
  then obtain a b c d e f bs where pdu: "pdu = a # b # c # d # e # f # bs"
    using list_of_length_ge_6 by blast
  show ?thesis
    by (auto simp: pdu decode_request_write_multiple_registers_def Let_def unpack_nH_def)
next
  case False
  then show ?thesis
    by (auto simp: decode_request_write_multiple_registers_def split: list.splits)
qed

lemma encode_multiple_coils_eq:
  "encode_write_multiple_coils s vs =
     (if is_reg s \<and> 1 \<le> length vs \<and> length vs \<le> 1968
      then Inr (word_of_int FC_WRITE_MULTIPLE_COILS # be16 s @ be16 (int (length vs)) @
        word_of_int ((int (length vs) + 7) div 8) # pack_bits vs)
      else Inl ValueError)"
  by (auto simp: encode_write_multiple_coils_def check_address_def Let_def pack_BHHB_ok be16_def
      pymod_const)

lemma encode_multiple_registers_eq:
  "encode_write_multiple_registers s vs =
     (if is_reg s \<and> 1 \<le> length vs \<and> length vs \<le> 123 \<and> list_all is_reg vs
      then Inr (word_of_int FC_WRITE_MULTIPLE_REGISTERS # be16 s @ be16 (int (length vs)) @
        word_of_int (2 * int (length vs)) # concat (map be16 vs))
      else Inl ValueError)"
  by (auto simp: encode_write_multiple_registers_def check_address_def Let_def pack_BHHB_ok
      pack_nH_be16 be16_def list_ex_iff list_all_iff pymod_const)

lemma echo_count_ok:
  assumes "0 \<le> fc" "fc \<le> 255" "is_reg s" "is_reg n"
  shows "\<exists>body. pack_BHH fc s n = Inr (word_of_int fc # body) \<and>
    bindE (raise_exception (word_of_int fc # body) fc) (\<lambda>_.
      if length (word_of_int fc # body) \<noteq> 5 then Inl ModbusProtocolError
      else bindE (unpack_BHH (word_of_int fc # body)) (\<lambda>(_, a, v). Inr (a, v))) = Inr (s, n)"
  using assms by (auto simp: pack_BHH_ok)

interpretation multiple_coils: write_fc FC_WRITE_MULTIPLE_COILS
  "\<lambda>s vs. is_reg s \<and> 1 \<le> length vs \<and> length vs \<le> 1968" "\<lambda>vs. int (length vs)"
  encode_write_multiple_coils decode_request_write_multiple_coils
  encode_response_write_multiple_coils decode_write_multiple_coils
proof
  fix s :: int and vs :: "bool list"
  assume ok: "is_reg s \<and> 1 \<le> length vs \<and> length vs \<le> 1968"
  have "map (\<lambda>i. bit (pack_bits vs ! (i div 8)) (i mod 8)) [0..<length vs] = vs"
    using bit_pack_bits [of _ vs] by (intro nth_equalityI) simp_all
  moreover have "int ((length vs + 7) div 8) = (int (length vs) + 7) div 8" by simp
  moreover have "(int (length vs) + 7) div 8 mod 256 = (int (length vs) + 7) div 8"
    using ok by (intro mod_pos_pos_trivial) auto
  ultimately show "\<exists>body. encode_write_multiple_coils s vs =
        Inr (word_of_int FC_WRITE_MULTIPLE_COILS # body) \<and>
      decode_request_write_multiple_coils (word_of_int FC_WRITE_MULTIPLE_COILS # body) = Inr (s, vs)"
    using ok by (simp add: encode_multiple_coils_eq decode_multiple_coils_eq be16_def MAX_WRITE_COILS_def)
next
  fix s :: int and vs :: "bool list"
  assume "is_reg s \<and> 1 \<le> length vs \<and> length vs \<le> 1968"
  then show "\<exists>body. encode_response_write_multiple_coils s (int (length vs)) =
        Inr (word_of_int FC_WRITE_MULTIPLE_COILS # body) \<and>
      decode_write_multiple_coils (word_of_int FC_WRITE_MULTIPLE_COILS # body) = Inr (s, int (length vs))"
    unfolding encode_response_write_multiple_coils_def decode_write_multiple_coils_def
    by (intro echo_count_ok) (simp_all add: FC_WRITE_MULTIPLE_COILS_def)
next
  fix pdu e assume "decode_write_multiple_coils pdu = Inl e"
  then show "is_modbus_error e"
    unfolding decode_write_multiple_coils_def by (rule echo_response_error)
next
  fix pdu s vs assume "decode_request_write_multiple_coils pdu = Inr (s, vs)"
  then show "is_reg s \<and> 1 \<le> length vs \<and> length vs \<le> 1968"
    by (auto simp: decode_multiple_coils_eq MAX_WRITE_COILS_def split: list.splits if_splits)
qed (auto simp: encode_multiple_coils_eq decode_multiple_coils_eq split: list.splits if_splits)

interpretation multiple_registers: write_fc FC_WRITE_MULTIPLE_REGISTERS
  "\<lambda>s vs. is_reg s \<and> 1 \<le> length vs \<and> length vs \<le> 123 \<and> list_all is_reg vs"
  "\<lambda>vs. int (length vs)"
  encode_write_multiple_registers decode_request_write_multiple_registers
  encode_response_write_multiple_registers decode_write_multiple_registers
proof
  fix s :: int and vs :: "int list"
  assume ok: "is_reg s \<and> 1 \<le> length vs \<and> length vs \<le> 123 \<and> list_all is_reg vs"
  have "uint (2 * word_of_nat (length vs) :: byte) = 2 * int (length vs)"
    using uint_word_of_int_byte [of "2 * int (length vs)"] ok by simp
  then show "\<exists>body. encode_write_multiple_registers s vs =
        Inr (word_of_int FC_WRITE_MULTIPLE_REGISTERS # body) \<and>
      decode_request_write_multiple_registers (word_of_int FC_WRITE_MULTIPLE_REGISTERS # body) = Inr (s, vs)"
    using ok by (simp add: encode_multiple_registers_eq decode_multiple_registers_eq be16_def
        words_be_be16 MAX_WRITE_REGISTERS_def)
next
  fix s :: int and vs :: "int list"
  assume "is_reg s \<and> 1 \<le> length vs \<and> length vs \<le> 123 \<and> list_all is_reg vs"
  then show "\<exists>body. encode_response_write_multiple_registers s (int (length vs)) =
        Inr (word_of_int FC_WRITE_MULTIPLE_REGISTERS # body) \<and>
      decode_write_multiple_registers (word_of_int FC_WRITE_MULTIPLE_REGISTERS # body) =
        Inr (s, int (length vs))"
    unfolding encode_response_write_multiple_registers_def decode_write_multiple_registers_def
    by (intro echo_count_ok) (simp_all add: FC_WRITE_MULTIPLE_REGISTERS_def)
next
  fix pdu e assume "decode_write_multiple_registers pdu = Inl e"
  then show "is_modbus_error e"
    unfolding decode_write_multiple_registers_def by (rule echo_response_error)
next
  fix pdu s vs assume "decode_request_write_multiple_registers pdu = Inr (s, vs)"
  then show "is_reg s \<and> 1 \<le> length vs \<and> length vs \<le> 123 \<and> list_all is_reg vs"
    by (auto simp: decode_multiple_registers_eq MAX_WRITE_REGISTERS_def list_all_iff
        dest: words_be_range split: list.splits if_splits)
qed (auto simp: encode_multiple_registers_eq decode_multiple_registers_eq
      split: list.splits if_splits)

section \<open>The registry of custom codecs\<close>

definition custom_code :: "int \<Rightarrow> bool" where
  "custom_code k \<longleftrightarrow> k = 0 \<or> 0x10 < k \<and> k < 0x80"

definition registry_inv :: "('enc, 'dec) codec_registry \<Rightarrow> bool" where
  "registry_inv reg \<longleftrightarrow> (\<forall>k c. reg k = Some c \<longrightarrow> cc_code c = k \<and> custom_code k)"

inductive registry_reachable :: "('enc, 'dec) codec_registry \<Rightarrow> bool" where
  empty: "registry_reachable (\<lambda>_. None)"
| register: "registry_reachable reg \<Longrightarrow> register_codec c reg = Inr reg' \<Longrightarrow> registry_reachable reg'"
| unregister: "registry_reachable reg \<Longrightarrow> registry_reachable (unregister_codec k reg)"

lemma and_128_eq_0_iff: "0 \<le> k \<Longrightarrow> k \<le> 255 \<Longrightarrow> k AND 128 = 0 \<longleftrightarrow> k < (128 :: int)"
proof (cases "k < 128")
  case True
  moreover assume "0 \<le> k"
  ultimately have "take_bit 7 k = k" by (simp add: take_bit_int_eq_self_iff)
  with take_bit_and_exp [of 7 k] True show ?thesis by simp
next
  case False
  moreover assume "k \<le> 255"
  ultimately have "k OR 128 = k" by (simp add: or_128_high)
  then have "k AND 128 = 128" using plus_and_or [of k 128] by simp
  with False show ?thesis by simp
qed

lemma register_codec_eq:
  "register_codec c reg =
     (if custom_code (cc_code c) \<and> reg (cc_code c) = None then Inr (reg(cc_code c \<mapsto> c))
      else Inl ValueError)"
  using and_128_eq_0_iff [of "cc_code c"]
  by (auto simp: register_codec_def custom_code_def EXCEPTION_BIT_def)

lemma registry_reachable_inv: "registry_reachable reg \<Longrightarrow> registry_inv reg"
  by (induction rule: registry_reachable.induct)
    (auto simp: registry_inv_def register_codec_eq unregister_codec_def split: if_splits)

section \<open>Properties\<close>

text \<open>
  C7: read requests round trip.  For each of FC01 to FC04 the client's encoder followed by the
  server's request decoder returns the start address and count unchanged, for exactly the
  addresses 0..0xFFFF and the counts the specification allows; anything else is refused with
  \<open>ValueError\<close> before a byte is sent.
\<close>

theorem read_requests_roundtrip:
  "bindE (encode_read_coils s c) decode_request_read_coils =
     (if 0 \<le> s \<and> s \<le> 0xFFFF \<and> 1 \<le> c \<and> c \<le> 2000 then Inr (s, c) else Inl ValueError) \<and>
   bindE (encode_read_discrete_inputs s c) decode_request_read_discrete_inputs =
     (if 0 \<le> s \<and> s \<le> 0xFFFF \<and> 1 \<le> c \<and> c \<le> 2000 then Inr (s, c) else Inl ValueError) \<and>
   bindE (encode_read_holding_registers s c) decode_request_read_holding_registers =
     (if 0 \<le> s \<and> s \<le> 0xFFFF \<and> 1 \<le> c \<and> c \<le> 125 then Inr (s, c) else Inl ValueError) \<and>
   bindE (encode_read_input_registers s c) decode_request_read_input_registers =
     (if 0 \<le> s \<and> s \<le> 0xFFFF \<and> 1 \<le> c \<and> c \<le> 125 then Inr (s, c) else Inl ValueError)"
  unfolding coils_req.roundtrip discrete_req.roundtrip holding_req.roundtrip input_req.roundtrip
  by (simp add: pymod_const)

text \<open>
  C8: write requests round trip.  For FC05, FC06, FC15 and FC16 the server decodes from the
  client's request exactly the address and the values the client encoded, bit packing included,
  for every address and value list within the specification's limits; every other input is
  refused with \<open>ValueError\<close>.
\<close>

theorem write_requests_roundtrip:
  "bindE (encode_write_single_coil s b) decode_request_write_single_coil =
     (if is_reg s then Inr (s, b) else Inl ValueError) \<and>
   bindE (encode_write_single_register s v) decode_request_write_single_register =
     (if is_reg s \<and> is_reg v then Inr (s, v) else Inl ValueError) \<and>
   bindE (encode_write_multiple_coils s bs) decode_request_write_multiple_coils =
     (if is_reg s \<and> 1 \<le> length bs \<and> length bs \<le> 1968 then Inr (s, bs) else Inl ValueError) \<and>
   bindE (encode_write_multiple_registers s vs) decode_request_write_multiple_registers =
     (if is_reg s \<and> 1 \<le> length vs \<and> length vs \<le> 123 \<and> list_all is_reg vs
      then Inr (s, vs) else Inl ValueError)"
  by (intro conjI single_coil.write_roundtrip single_register.write_roundtrip
      multiple_coils.write_roundtrip multiple_registers.write_roundtrip)

text \<open>
  C9: read responses round trip.  The client decodes from the server's response exactly the
  values the server encoded; the encoder refuses, with \<open>ValueError\<close>, the value lists whose byte
  count does not fit one byte, which lie beyond the limits of the read requests.
\<close>

theorem read_responses_roundtrip:
  assumes "list_all is_reg vs"
  shows "bindE (encode_response_read_coils bs) (\<lambda>p. decode_read_coils p (int (length bs))) =
       (if length bs \<le> 2040 then Inr bs else Inl ValueError) \<and>
     bindE (encode_response_read_discrete_inputs bs)
         (\<lambda>p. decode_read_discrete_inputs p (int (length bs))) =
       (if length bs \<le> 2040 then Inr bs else Inl ValueError) \<and>
     bindE (encode_response_read_holding_registers vs)
         (\<lambda>p. decode_read_holding_registers p (int (length vs))) =
       (if length vs \<le> 127 then Inr vs else Inl ValueError) \<and>
     bindE (encode_response_read_input_registers vs)
         (\<lambda>p. decode_read_input_registers p (int (length vs))) =
       (if length vs \<le> 127 then Inr vs else Inl ValueError)"
  using coils_resp.resp_roundtrip [of bs] discrete_resp.resp_roundtrip [of bs]
    holding_resp.resp_roundtrip [OF assms] input_resp.resp_roundtrip [OF assms]
  by (simp add: list_all_iff)

theorem read_responses_roundtrip_witness:
  "bindE (encode_response_read_holding_registers [10, 65535, 0])
     (\<lambda>p. decode_read_holding_registers p (int (length [10, 65535, 0 :: int]))) =
     Inr [10, 65535, 0]"
proof -
  have "list_all is_reg [10, 65535, 0 :: int]" by simp
  from read_responses_roundtrip [OF this, of "[True]"] show ?thesis by simp
qed

text \<open>
  Exception responses reach the client as the matching exception.  For a function code below
  0x80, what \<open>detect_exception\<close> makes of an encoded exception response is an instance of the class
  that \<open>EXCEPTION_BY_CODE\<close> registers for the code (\<open>SlaveDeviceFailure\<close> for an unregistered one),
  carrying the code; codes outside one byte are refused by the encoder.
\<close>

theorem exception_response_roundtrip:
  assumes "0 \<le> fc" "fc < 128"
  shows "bindE (encode_exception_response fc code) (\<lambda>p. detect_exception p fc) =
    (if 0 \<le> code \<and> code \<le> 255
     then Inr (Some (ResponseError (case EXCEPTION_BY_CODE code of
       None \<Rightarrow> SlaveDeviceFailure | Some c \<Rightarrow> c) code))
     else Inl ValueError)"
proof -
  have "uint (word_of_int fc + 128 :: byte) = fc + 128"
    using uint_word_of_int_byte [of "fc + 128"] assms by simp
  then show ?thesis
    using assms or_128_mod [of fc] exception_bit_or [of fc]
    by (simp add: encode_exception_response_def EXCEPTION_BIT_def byte_of_int_ok
        detect_exception_def mk_response_def Let_def)
qed

theorem exception_response_roundtrip_witness:
  "bindE (encode_exception_response 3 2) (\<lambda>p. detect_exception p 3) =
     Inr (Some (ResponseError IllegalDataAddress 2))"
  using exception_response_roundtrip [of 3 2] by (simp add: EXCEPTION_BY_CODE_def)

text \<open>
  C10: the client's response decoders are robust.  On every byte string, however malformed, each
  of the eight decoders either returns a value or raises an exception of the library's own
  hierarchy (\<open>ModbusError\<close>); no \<open>IndexError\<close> and no \<open>struct.error\<close> escapes.
\<close>

theorem client_decoders_raise_modbus_errors:
  assumes "decode_read_coils pdu n = Inl e \<or> decode_read_discrete_inputs pdu n = Inl e \<or>
     decode_read_holding_registers pdu n = Inl e \<or> decode_read_input_registers pdu n = Inl e \<or>
     decode_write_single_coil pdu = Inl e \<or> decode_write_single_register pdu = Inl e \<or>
     decode_write_multiple_coils pdu = Inl e \<or> decode_write_multiple_registers pdu = Inl e"
  shows "is_modbus_error e"
  using assms coils_resp.dec_error discrete_resp.dec_error holding_resp.dec_error input_resp.dec_error
    single_coil.wresp_error single_register.wresp_error multiple_coils.wresp_error
    multiple_registers.wresp_error
  by blast

theorem client_decoders_raise_modbus_errors_witness:
  "decode_read_holding_registers [3, 4, 1] 2 = Inl ModbusProtocolError \<and>
   is_modbus_error ModbusProtocolError"
proof -
  have h: "decode_read_holding_registers [3, 4, 1] 2 = Inl ModbusProtocolError"
    by (simp add: decode_read_holding_registers_def decode_register_response_def
        raise_exception_def detect_exception_def FC_READ_HOLDING_REGISTERS_def)
  then show ?thesis
    using client_decoders_raise_modbus_errors [of "[3, 4, 1]" 2 ModbusProtocolError] by blast
qed

text \<open>
  The server's request decoders are robust.  On every byte string each of the eight request
  decoders either returns parameters within the specification's limits or raises
  \<open>IllegalDataValue\<close> with its own exception code.
\<close>

theorem request_decoders_raise_illegal_data_value:
  assumes "decode_request_read_coils pdu = Inl e \<or> decode_request_read_discrete_inputs pdu = Inl e \<or>
     decode_request_read_holding_registers pdu = Inl e \<or>
     decode_request_read_input_registers pdu = Inl e \<or>
     decode_request_write_single_coil pdu = Inl e \<or> decode_request_write_single_register pdu = Inl e \<or>
     decode_request_write_multiple_coils pdu = Inl e \<or>
     decode_request_write_multiple_registers pdu = Inl e"
  shows "e = ResponseError IllegalDataValue 3"
proof -
  have "e = illegal_data_value"
    using assms coils_req.request_error discrete_req.request_error holding_req.request_error
      input_req.request_error single_coil.wreq_error single_register.wreq_error
      multiple_coils.wreq_error multiple_registers.wreq_error
    by blast
  then show ?thesis by (simp add: mk_response_def)
qed

theorem request_decoders_raise_illegal_data_value_witness:
  "decode_request_read_coils [1, 0] = Inl (ResponseError IllegalDataValue 3) \<and>
   ResponseError IllegalDataValue 3 = mk_response IllegalDataValue None"
proof -
  have h: "decode_request_read_coils [1, 0] = Inl (mk_response IllegalDataValue None)"
    by (simp add: decode_request_read_coils_def)
  show ?thesis
    using h request_decoders_raise_illegal_data_value [of "[1, 0]" "mk_response IllegalDataValue None"]
    by simp
qed

text \<open>
  The registry of custom codecs.  In every registry reachable by \<open>register_codec\<close> and
  \<open>unregister_codec\<close> each entry is filed under its own code, and no entry has a reserved standard
  code (0x01..0x10), a code with the exception bit, or a code outside one byte.
\<close>

theorem registry_reachable_codes:
  assumes "registry_reachable reg" "get_codec k reg = Some c"
  shows "cc_code c = k \<and> (k = 0 \<or> 0x10 < k \<and> k < 0x80)"
  using registry_reachable_inv [OF assms(1)] assms(2)
  by (auto simp: registry_inv_def get_codec_def custom_code_def)

theorem registry_reachable_codes_witness:
  "\<exists>reg :: (unit, unit) codec_registry. registry_reachable reg \<and>
     get_codec 0x64 reg = Some \<lparr>cc_code = 0x64, cc_encode = (), cc_decode = ()\<rparr> \<and>
     cc_code \<lparr>cc_code = 0x64, cc_encode = (), cc_decode = ()\<rparr> = 0x64"
proof -
  define c :: "(unit, unit) custom_codec" where
    "c = \<lparr>cc_code = 0x64, cc_encode = (), cc_decode = ()\<rparr>"
  have "registry_reachable ((\<lambda>_. None)(0x64 \<mapsto> c))"
    by (rule registry_reachable.register [OF registry_reachable.empty, where c = c])
      (simp add: register_codec_def c_def EXCEPTION_BIT_def)
  moreover have "get_codec 0x64 ((\<lambda>_. None)(0x64 \<mapsto> c)) = Some c"
    by (simp add: get_codec_def)
  ultimately show ?thesis
    using registry_reachable_codes [of "(\<lambda>_. None)(0x64 \<mapsto> c)" "0x64" c] c_def by blast
qed

end
