(* ===== verification/Server_Laws.thy ===== *)
theory Server_Laws
  imports Server Pdu_Laws
begin

text \<open>
  Laws of the server: every request is answered, the stream is served frame by frame however it is
  cut into segments, and writes reach the store only where they may.
\<close>

section \<open>Exception responses\<close>

lemma encode_exception_response_eq:
  "encode_exception_response fc code =
     (if 0 \<le> fc \<and> fc \<le> 255 \<and> 0 \<le> code \<and> code \<le> 255
      then Inr [word_of_int (fc OR 128), word_of_int code] else Inl ValueError)"
proof (cases "0 \<le> fc \<and> fc \<le> 255")
  case True
  moreover from this have "0 \<le> fc OR 128 \<and> fc OR 128 \<le> 255"
    using exception_bit_or [of fc] or_128_high [of fc] by (cases "fc < 128") auto
  ultimately show ?thesis
    by (auto simp: encode_exception_response_def EXCEPTION_BIT_def byte_of_int_def or_128_mod)
qed (auto simp: encode_exception_response_def)

text \<open>The shape every response to a request has: a head that names the function code, and a size.\<close>

definition response_for :: "int \<Rightarrow> bytes \<Rightarrow> bool" where
  "response_for fc resp \<longleftrightarrow>
     resp \<noteq> [] \<and> length resp \<le> 252 \<and> (resp ! 0 = word_of_int fc \<or> resp ! 0 = word_of_int (fc OR 128))"

lemma response_for_exception:
  "encode_exception_response fc code = Inr resp \<Longrightarrow> response_for fc resp"
  by (auto simp: encode_exception_response_eq response_for_def split: if_splits)

section \<open>Every request is answered\<close>

text \<open>The callbacks raise exception responses with codes of one byte only.\<close>

definition byte_code :: "py_exn \<Rightarrow> bool" where
  "byte_code e \<longleftrightarrow> (\<forall>cls code. e = ResponseError cls code \<longrightarrow> 0 \<le> code \<and> code \<le> 255)"

definition codes_ok :: "'s server \<Rightarrow> bool" where
  "codes_ok srv \<longleftrightarrow>
     (\<forall>a s n st e st'. srv_on_read srv a s n st = (Inl e, st') \<longrightarrow> byte_code e) \<and>
     (\<forall>w a s vs st e st'. srv_on_write srv = Some w \<longrightarrow> w a s vs st = (Inl e, st') \<longrightarrow> byte_code e)"

lemma byte_code_simps [simp]:
  "byte_code illegal_data_value" "byte_code slave_device_failure" "byte_code ValueError"
  "byte_code OverflowError" "byte_code StructError" "byte_code AssertionError"
  by (simp_all add: byte_code_def mk_response_def)

lemma codes_ok_call:
  "codes_ok srv \<Longrightarrow> call_read srv a s n st = (Inl e, st') \<Longrightarrow> byte_code e"
  "codes_ok srv \<Longrightarrow> call_write srv a s vs st = (Inl e, st') \<Longrightarrow> byte_code e"
proof -
  show "codes_ok srv \<Longrightarrow> call_read srv a s n st = (Inl e, st') \<Longrightarrow> byte_code e"
    unfolding codes_ok_def call_read_def by blast
  show "codes_ok srv \<Longrightarrow> call_write srv a s vs st = (Inl e, st') \<Longrightarrow> byte_code e"
    unfolding codes_ok_def call_write_def by (cases "srv_on_write srv") (fastforce, simp, blast)
qed

lemma byte_code_exception: "byte_code e \<Longrightarrow> 0 \<le> exception_code e \<and> exception_code e \<le> 255"
  by (cases e) (auto simp: byte_code_def)

lemma to_list_error:
  "to_bool_list vs n = Inl e \<Longrightarrow> byte_code e" "to_int_list vs n = Inl e \<Longrightarrow> byte_code e"
proof -
  show "to_bool_list vs n = Inl e \<Longrightarrow> byte_code e"
    by (auto simp: to_bool_list_def split: if_splits)
  have "byte_code e" if "py_int v = Inl e" for v
    using that by (cases v) (auto simp: float_to_int_def Let_def split: fnum.splits)
  then show "to_int_list vs n = Inl e \<Longrightarrow> byte_code e"
    by (auto simp: to_int_list_def bindE_eq_Inl split: if_splits dest!: mapE_eq_Inl)
qed

lemma to_list_length:
  "to_bool_list vs n = Inr bs \<Longrightarrow> int (length bs) = n" "to_int_list vs n = Inr is \<Longrightarrow> int (length is) = n"
  by (auto simp: to_bool_list_def to_int_list_def split: if_splits dest: mapE_eq_Inr_length)

lemma byte_of_int_error: "byte_of_int v = Inl e \<Longrightarrow> byte_code e"
  by (auto simp: byte_of_int_def split: if_splits)

lemma int_to_bytes_error: "int_to_bytes v n ord s = Inl e \<Longrightarrow> byte_code e"
  by (auto simp: int_to_bytes_def split: if_splits)

lemma pack_BHH_error: "pack_BHH a b c = Inl e \<Longrightarrow> byte_code e"
  by (auto simp: pack_BHH_def pack_B_def pack_H_def bindE_eq_Inl split: if_splits)

lemmas response_defs =
  encode_response_read_coils_def encode_response_read_discrete_inputs_def
  encode_response_read_holding_registers_def encode_response_read_input_registers_def
  encode_response_write_single_coil_def encode_response_write_single_register_def
  encode_response_write_multiple_coils_def encode_response_write_multiple_registers_def

lemma response_error:
  "encode_response_read_coils bs = Inl e \<Longrightarrow> byte_code e"
  "encode_response_read_discrete_inputs bs = Inl e \<Longrightarrow> byte_code e"
  "encode_response_read_holding_registers is = Inl e \<Longrightarrow> byte_code e"
  "encode_response_read_input_registers is = Inl e \<Longrightarrow> byte_code e"
  "encode_response_write_single_coil a b = Inl e \<Longrightarrow> byte_code e"
  "encode_response_write_single_register a v = Inl e \<Longrightarrow> byte_code e"
  "encode_response_write_multiple_coils a v = Inl e \<Longrightarrow> byte_code e"
  "encode_response_write_multiple_registers a v = Inl e \<Longrightarrow> byte_code e"
  by (auto simp: response_defs bindE_eq_Inl Let_def
      dest!: mapE_eq_Inl dest: byte_of_int_error int_to_bytes_error pack_BHH_error)

lemma exception_response_error: "encode_exception_response fc code = Inl e \<Longrightarrow> byte_code e"
  by (auto simp: encode_exception_response_eq split: if_splits)

lemma handle_error: "codes_ok srv \<Longrightarrow> handle srv fc pdu st = (Inl e, st') \<Longrightarrow> byte_code e"
  unfolding handle_def
  by (auto simp: bindS_eq_Inl bindE_eq_Inl split: if_splits
      dest: codes_ok_call coils_req.request_error discrete_req.request_error holding_req.request_error
        input_req.request_error single_coil.wreq_error single_register.wreq_error
        multiple_coils.wreq_error multiple_registers.wreq_error to_list_error response_error
        exception_response_error)

lemma response_for_bits:
  "encode_response_read_coils bs = Inr r \<Longrightarrow> length bs \<le> 2000 \<Longrightarrow> response_for FC_READ_COILS r"
  "encode_response_read_discrete_inputs bs = Inr r \<Longrightarrow> length bs \<le> 2000 \<Longrightarrow> response_for FC_READ_DISCRETE_INPUTS r"
  by (auto simp: response_defs response_for_def Let_def byte_of_int_def split: if_splits)

lemma length_concat_2_bytes:
  "mapE (\<lambda>v. int_to_bytes v 2 Big False) vs = Inr bss \<Longrightarrow> length (concat bss) = 2 * length vs"
  by (induction vs arbitrary: bss) (auto dest: int_to_bytes_length)

lemma response_for_registers:
  "encode_response_read_holding_registers vs = Inr r \<Longrightarrow> length vs \<le> 125 \<Longrightarrow> response_for FC_READ_HOLDING_REGISTERS r"
  "encode_response_read_input_registers vs = Inr r \<Longrightarrow> length vs \<le> 125 \<Longrightarrow> response_for FC_READ_INPUT_REGISTERS r"
  by (auto simp: response_defs response_for_def Let_def byte_of_int_def length_concat_2_bytes
      simp del: length_concat split: if_splits)

lemma pack_BHH_response: "pack_BHH fc a b = Inr r \<Longrightarrow> response_for fc r"
  by (auto simp: pack_BHH_def pack_B_def pack_H_def be_bytes_2 response_for_def split: if_splits)

lemma response_for_write:
  "encode_response_write_single_coil a b = Inr r \<Longrightarrow> response_for FC_WRITE_SINGLE_COIL r"
  "encode_response_write_single_register a v = Inr r \<Longrightarrow> response_for FC_WRITE_SINGLE_REGISTER r"
  "encode_response_write_multiple_coils a v = Inr r \<Longrightarrow> response_for FC_WRITE_MULTIPLE_COILS r"
  "encode_response_write_multiple_registers a v = Inr r \<Longrightarrow> response_for FC_WRITE_MULTIPLE_REGISTERS r"
  by (auto simp: response_defs Let_def dest: pack_BHH_response)

lemma request_counts:
  "decode_request_read_coils pdu = Inr (s, n) \<Longrightarrow> n \<le> 2000"
  "decode_request_read_discrete_inputs pdu = Inr (s, n) \<Longrightarrow> n \<le> 2000"
  "decode_request_read_holding_registers pdu = Inr (s, n) \<Longrightarrow> n \<le> 125"
  "decode_request_read_input_registers pdu = Inr (s, n) \<Longrightarrow> n \<le> 125"
  using coils_req.request_range [of pdu s n] discrete_req.request_range [of pdu s n]
    holding_req.request_range [of pdu s n] input_req.request_range [of pdu s n]
  by (simp_all add: pymod_const)

lemma handle_response:
  assumes "handle srv fc pdu st = (Inr resp, st')"
  shows "response_for fc resp"
proof -
  have "int (length bs) \<le> 2000 \<Longrightarrow> length bs \<le> 2000" "int (length vs) \<le> 125 \<Longrightarrow> length vs \<le> 125"
    for bs :: "bool list" and vs :: "int list" by simp_all
  with assms show ?thesis
    unfolding handle_def
    by (auto simp: bindS_eq_Inr split: if_splits
        dest!: request_counts to_list_length
        dest: response_for_bits response_for_registers response_for_write response_for_exception)
qed

lemma dispatch_answers:
  assumes "codes_ok srv"
  shows "\<exists>resp st'. dispatch srv uid pdu st = (Inr resp, st') \<and>
    response_for (if pdu = [] then 0 else uint (pdu ! 0)) resp"
proof -
  have exc: "\<exists>resp. encode_exception_response fc code = Inr resp \<and> response_for fc resp"
    if "0 \<le> fc" "fc \<le> 255" "0 \<le> code" "code \<le> 255" for fc code
    using that response_for_exception [of fc code] by (simp add: encode_exception_response_eq)
  show ?thesis
  proof (cases "handle srv (uint (pdu ! 0)) pdu st")
    case (Pair r st1)
    have "\<exists>resp. encode_exception_response (uint (pdu ! 0)) (exception_code e) = Inr resp \<and>
        response_for (uint (pdu ! 0)) resp" if "r = Inl e" for e
      using exc byte_code_exception [OF handle_error [OF assms]] Pair that by simp
    moreover have "response_for (uint (pdu ! 0)) resp" if "r = Inr resp" for resp
      using handle_response [of srv "uint (pdu ! 0)" pdu st resp st1] Pair that by simp
    ultimately show ?thesis
      using Pair exc [of 0 1] exc [of "uint (pdu ! 0)" 11]
      by (cases r) (auto simp: dispatch_def Let_def GATEWAY_TARGET_FAILED_TO_RESPOND_def)
  qed
qed

lemma dispatch_response:
  assumes "dispatch srv uid pdu st = (Inr resp, st')"
  shows "resp \<noteq> [] \<and> length resp \<le> 252"
proof (cases "handle srv (uint (pdu ! 0)) pdu st")
  case (Pair r st1)
  with assms have "\<exists>fc. response_for fc resp"
    by (auto simp: dispatch_def Let_def split: if_splits sum.splits dest: handle_response response_for_exception)
  then show ?thesis by (auto simp: response_for_def)
qed

section \<open>The stream\<close>

text \<open>Serving what arrives later continues where the first bytes left off.\<close>

definition then_serve ::
  "'s server \<Rightarrow> bytes \<Rightarrow> bytes list \<times> conn_status \<times> 's \<Rightarrow> bytes list \<times> conn_status \<times> 's" where
  "then_serve srv later = (\<lambda>(sent, status, st).
     case status of
       Dropped e \<Rightarrow> (sent, Dropped e, st)
     | Reading buf \<Rightarrow> let (sent', status', st') = serve_buffer srv (buf @ later) st in (sent @ sent', status', st'))"

lemma then_serve_Cons:
  "then_serve srv later (f # sent, status, st) =
     (let (sent', status', st') = then_serve srv later (sent, status, st) in (f # sent', status', st'))"
  by (auto simp: then_serve_def split: conn_status.splits prod.splits)

lemma serve_buffer_frame:
  assumes "next_frame buf = Inr (Some (frame, rest))"
  shows "serve_buffer srv buf st =
    (case decode_mbap_frame frame of
       Inl e \<Rightarrow> serve_buffer srv rest st
     | Inr (tid, uid, pdu) \<Rightarrow>
         (case dispatch srv uid pdu st of
            (Inl e, st') \<Rightarrow> ([], Dropped e, st')
          | (Inr resp, st') \<Rightarrow>
              (case encode_mbap_frame tid uid resp of
                 Inl e \<Rightarrow> ([], Dropped e, st')
               | Inr out \<Rightarrow> let (sent, status, st'') = serve_buffer srv rest st' in (out # sent, status, st''))))"
proof -
  have "isinstance_exn ModbusProtocolError C_ModbusProtocolError" by (simp add: isinstance_exn_def)
  then show ?thesis
    using assms decode_mbap_error [of frame]
    by (subst serve_buffer.simps) (auto split: sum.split)
qed

lemma serve_buffer_none: "next_frame buf = Inr None \<Longrightarrow> serve_buffer srv buf st = ([], Reading buf, st)"
  by (subst serve_buffer.simps) simp

lemma serve_append: "serve_buffer srv (a @ b) st = then_serve srv b (serve_buffer srv a st)"
proof (induction "length a" arbitrary: a st rule: less_induct)
  case less
  show ?case
  proof (rule next_frame_cases [of a])
    assume "next_frame a = Inr None"
    then show ?thesis by (simp add: serve_buffer_none then_serve_def)
  next
    fix frame rest
    assume nf: "next_frame a = Inr (Some (frame, rest))" and "a = frame @ rest" "6 \<le> length frame"
    then have IH: "serve_buffer srv (rest @ b) st = then_serve srv b (serve_buffer srv rest st)" for st
      by (intro less) auto
    show ?thesis
      unfolding serve_buffer_frame [OF nf] serve_buffer_frame [OF next_frame_append [OF nf]] IH
      by (auto simp: then_serve_def split: sum.splits prod.splits conn_status.splits)
  qed
qed

lemma serve_stays_open:
  assumes "codes_ok srv"
  shows "\<exists>sent rest st'. serve_buffer srv buf st = (sent, Reading rest, st')"
proof (induction "length buf" arbitrary: buf st rule: less_induct)
  case less
  show ?case
  proof (rule next_frame_cases [of buf])
    assume "next_frame buf = Inr None"
    then show ?thesis by (simp add: serve_buffer_none)
  next
    fix frame rest
    assume nf: "next_frame buf = Inr (Some (frame, rest))" and buf: "buf = frame @ rest" "6 \<le> length frame"
    then have IH: "\<exists>sent r st'. serve_buffer srv rest st = (sent, Reading r, st')" for st
      by (intro less) auto
    show ?thesis
    proof (cases "decode_mbap_frame frame")
      case (Inl e)
      then show ?thesis using IH by (simp add: serve_buffer_frame [OF nf])
    next
      case (Inr x)
      obtain tid uid pdu where x: "x = (tid, uid, pdu)" by (cases x)
      from dispatch_answers [OF assms, of uid pdu st] obtain resp st1 where
        d: "dispatch srv uid pdu st = (Inr resp, st1)" and r: "resp \<noteq> []" "length resp \<le> 252"
        by (auto simp: response_for_def)
      obtain out where "encode_mbap_frame tid uid resp = Inr out"
        using decode_mbap_uid [of frame tid uid pdu] Inr x r by (auto simp: encode_mbap_frame_eq)
      with d Inr x IH [of st1] show ?thesis by (auto simp: serve_buffer_frame [OF nf])
    qed
  qed
qed

text \<open>The frame of one request, served alone.\<close>

lemma serve_one_frame:
  assumes "encode_mbap_frame tid uid req = Inr frame"
  shows "serve_buffer srv frame st =
    (case dispatch srv uid req st of
       (Inl e, st') \<Rightarrow> ([], Dropped e, st')
     | (Inr resp, st') \<Rightarrow> (case encode_mbap_frame tid uid resp of
         Inl e \<Rightarrow> ([], Dropped e, st') | Inr out \<Rightarrow> ([out], Reading [], st')))"
proof -
  have "next_frame frame = Inr (Some (frame, []))" using next_frame_encoded(1) [OF assms, of "[]"] by simp
  then show ?thesis
    using next_frame_encoded(2) [OF assms]
    by (simp add: serve_buffer_frame serve_buffer_none next_frame_short split: prod.split sum.split)
qed

text \<open>Serving whole requests one after the other: the specification of a pipelined connection.\<close>

fun serve_requests :: "'s server \<Rightarrow> (int \<times> int \<times> bytes) list \<Rightarrow> 's \<Rightarrow> (int \<times> int \<times> bytes) list \<times> 's" where
  "serve_requests srv [] st = ([], st)"
| "serve_requests srv ((tid, uid, pdu) # reqs) st =
     (case dispatch srv uid pdu st of
        (Inl e, st') \<Rightarrow> ([], st')
      | (Inr resp, st') \<Rightarrow> let (resps, st'') = serve_requests srv reqs st' in ((tid, uid, resp) # resps, st''))"

definition encode_frames :: "(int \<times> int \<times> bytes) list \<Rightarrow> bytes list result" where
  "encode_frames = mapE (\<lambda>(tid, uid, pdu). encode_mbap_frame tid uid pdu)"

lemma serve_pipelined:
  assumes "codes_ok srv" "encode_frames reqs = Inr frames"
  shows "\<exists>sent. encode_frames (fst (serve_requests srv reqs st)) = Inr sent \<and>
    length sent = length reqs \<and>
    serve_buffer srv (concat frames) st = (sent, Reading [], snd (serve_requests srv reqs st))"
  using assms(2)
proof (induction reqs arbitrary: frames st)
  case Nil
  then show ?case by (simp add: encode_frames_def serve_buffer_none next_frame_short)
next
  case (Cons req reqs)
  obtain tid uid pdu where req: "req = (tid, uid, pdu)" by (cases req)
  from Cons.prems req obtain f fs where f: "encode_mbap_frame tid uid pdu = Inr f"
    and fs: "encode_frames reqs = Inr fs" "frames = f # fs" by (auto simp: encode_frames_def)
  from dispatch_answers [OF assms(1), of uid pdu st] obtain resp st1 where
    d: "dispatch srv uid pdu st = (Inr resp, st1)" and r: "resp \<noteq> []" "length resp \<le> 252"
    by (auto simp: response_for_def)
  from f r obtain out where out: "encode_mbap_frame tid uid resp = Inr out"
    by (auto simp: encode_mbap_frame_eq split: if_splits)
  from Cons.IH [OF fs(1), of st1] obtain sent where
    "encode_frames (fst (serve_requests srv reqs st1)) = Inr sent" "length sent = length reqs"
    "serve_buffer srv (concat fs) st1 = (sent, Reading [], snd (serve_requests srv reqs st1))" by blast
  with d out fs(2) next_frame_encoded [OF f] req show ?case
    by (auto simp: serve_buffer_frame encode_frames_def split: prod.splits)
qed

section \<open>Properties\<close>

text \<open>
  C22: the server answers every request and keeps the connection.  If the callbacks raise exception
  responses with one-byte codes only, then whatever bytes a client sends, every request PDU gets a
  response of at most 252 bytes that starts with its function code or with the function code and the
  exception bit, and the connection handler never ends with an error.
\<close>

theorem server_always_answers:
  assumes "codes_ok srv"
  shows "(\<exists>resp st'. dispatch srv uid pdu st = (Inr resp, st') \<and>
      response_for (if pdu = [] then 0 else uint (pdu ! 0)) resp) \<and>
    (\<exists>sent rest st'. serve_buffer srv buf st = (sent, Reading rest, st'))"
  using dispatch_answers [OF assms] serve_stays_open [OF assms] by blast

definition null_server :: "unit server" where
  "null_server = \<lparr>srv_on_read = \<lambda>a s n st. (Inl (HostError 0), st), srv_on_write = None,
     srv_unit_id = None, srv_max_connections = 1\<rparr>"

lemma null_server_codes: "codes_ok null_server"
  by (simp add: codes_ok_def null_server_def byte_code_def)

theorem server_always_answers_witness:
  "\<exists>resp st'. dispatch null_server 1 [3, 0, 0, 0, 1] () = (Inr resp, st') \<and> response_for 3 resp"
  using server_always_answers [OF null_server_codes, of 1 "[3, 0, 0, 0, 1]" "()" "[]"] by simp

text \<open>
  C23: segmentation does not matter.  Serving the bytes of a connection as they arrive, in any pieces,
  sends the same responses, leaves the same store and keeps the same unread bytes as serving them at
  once.
\<close>

theorem stream_segmentation: "serve_buffer srv (a @ b) st = then_serve srv b (serve_buffer srv a st)"
  by (rule serve_append)

text \<open>
  Pipelined requests are answered one by one and in order.  For any list of requests sent back to
  back on a connection, the server sends exactly one response frame per request, in the same order,
  each with the transaction id and unit id of its request and the response that dispatching the
  requests one after the other gives, and leaves no bytes unread.
\<close>

theorem pipelined_in_order:
  assumes "codes_ok srv" "encode_frames reqs = Inr frames"
  shows "\<exists>sent. encode_frames (fst (serve_requests srv reqs st)) = Inr sent \<and>
    length sent = length reqs \<and>
    serve_buffer srv (concat frames) st = (sent, Reading [], snd (serve_requests srv reqs st))"
  using assms by (rule serve_pipelined)

theorem pipelined_in_order_witness:
  "\<exists>frames sent. encode_frames [(7, 1, [3, 0, 0, 0, 1]), (8, 1, [99])] = Inr frames \<and> length sent = 2 \<and>
     serve_buffer null_server (concat frames) () = (sent, Reading [], ())"
proof -
  obtain frames where f: "encode_frames [(7, 1, [3, 0, 0, 0, 1]), (8, 1, [99])] = Inr frames"
    by (simp add: encode_frames_def encode_mbap_frame_eq)
  from pipelined_in_order [OF null_server_codes this, of "()"] f show ?thesis by auto
qed

text \<open>
  C24: writes reach the store only where they may.  Without an \<open>on_write\<close> callback every write request
  is refused with \<open>ILLEGAL_FUNCTION\<close> and the store is unchanged; a request for another unit is refused
  with the gateway exception and never reaches a callback; and since no function code writes discrete
  inputs or input registers, what \<open>on_write\<close> does for those areas is never observed.
\<close>

theorem write_authorization:
  "(srv_on_write srv = None \<and> srv_unit_id srv \<in> {None, Some uid} \<and> pdu \<noteq> [] \<and> pdu ! 0 \<in> {5, 6, 15, 16} \<longrightarrow>
     dispatch srv uid pdu st = (Inr [pdu ! 0 OR 128, 1], st)) \<and>
   (srv_unit_id srv \<notin> {None, Some uid} \<and> pdu \<noteq> [] \<longrightarrow>
     dispatch srv uid pdu st = (Inr [pdu ! 0 OR 128, 11], st)) \<and>
   (srv_on_write srv = Some w \<and> w' COIL = w COIL \<and> w' HOLDING_REGISTER = w HOLDING_REGISTER \<longrightarrow>
     dispatch (srv\<lparr>srv_on_write := Some w'\<rparr>) uid pdu st = dispatch srv uid pdu st)"
proof (intro conjI impI; elim conjE)
  have w: "word_of_int (uint b OR 128) = b OR 128" for b :: byte
    by (rule bit_word_eqI) (simp add: bit_simps)
  {
    assume *: "srv_on_write srv = None" "srv_unit_id srv \<in> {None, Some uid}" "pdu \<noteq> []" "pdu ! 0 \<in> {5, 6, 15, 16}"
    then have "handle srv (uint (pdu ! 0)) pdu st = (Inr [pdu ! 0 OR 128, 1], st)"
      by (auto simp: handle_def encode_exception_response_eq pymod_const)
    with * show "dispatch srv uid pdu st = (Inr [pdu ! 0 OR 128, 1], st)"
      by (auto simp: dispatch_def Let_def)
  }
  {
    assume "srv_unit_id srv \<notin> {None, Some uid}" "pdu \<noteq> []"
    then show "dispatch srv uid pdu st = (Inr [pdu ! 0 OR 128, 11], st)"
      by (auto simp: dispatch_def Let_def encode_exception_response_eq w GATEWAY_TARGET_FAILED_TO_RESPOND_def)
  }
  assume *: "srv_on_write srv = Some w" "w' COIL = w COIL" "w' HOLDING_REGISTER = w HOLDING_REGISTER"
  then have "handle (srv\<lparr>srv_on_write := Some w'\<rparr>) fc pdu = handle srv fc pdu" for fc
    by (simp add: handle_def call_read_def call_write_def cong: if_cong)
  then show "dispatch (srv\<lparr>srv_on_write := Some w'\<rparr>) uid pdu st = dispatch srv uid pdu st"
    by (simp add: dispatch_def Let_def)
qed

theorem write_authorization_witness: "dispatch null_server 1 [6, 0, 0, 0, 9] () = (Inr [134, 1], ())"
  using write_authorization [of null_server 1 "[6, 0, 0, 0, 9]" "()"] by (simp add: null_server_def)

end
