(* ===== verification/Server_Lifecycle.thy ===== *)
theory Server_Lifecycle
  imports Server_Laws
begin

text \<open>
  Connections and the life cycle of the server: \<open>start\<close>, \<open>stop\<close> and the admission and end of
  connection handlers in \<open>_on_client\<close>, as a step relation.  \<open>stop\<close> awaits between its parts, so other
  tasks run in between; it is cut at those awaits into phases.  A connection is named by a number;
  \<open>sv_handlers\<close> are the running handler tasks with the bytes their reader holds, \<open>sv_connections\<close> and
  \<open>sv_client_tasks\<close> the two sets of the \<open>Server\<close> object, \<open>sv_server\<close> says that \<open>_server\<close> is not \<open>None\<close>, and
  \<open>sv_accepting\<close> that the listening socket is open.  \<open>waits\<close> says whether the \<open>wait_closed\<close> of asyncio's
  server also waits for the open connections, as it does since Python 3.12.1.  One \<open>stop\<close> runs at a
  time, and a handler serves the frames that have arrived without other tasks in between.
\<close>

datatype stop_phase =
    Running
  | Closing             \<comment> \<open>connections cleared, waiting for the writers to close\<close>
  | Cancelling "nat set" \<comment> \<open>waiting for the cancelled handlers\<close>
  | ListenerClosing     \<comment> \<open>listening socket closed, in \<open>wait_closed\<close>\<close>

record 's server_state =
  sv_server :: bool
  sv_accepting :: bool
  sv_phase :: stop_phase
  sv_connections :: "nat set"
  sv_client_tasks :: "nat set"
  sv_handlers :: "nat \<rightharpoonup> bytes"
  sv_sent :: "nat \<Rightarrow> bytes list"
  sv_store :: 's

definition server_init :: "'s \<Rightarrow> 's server_state" where
  "server_init st = \<lparr>sv_server = False, sv_accepting = False, sv_phase = Running, sv_connections = {}, sv_client_tasks = {},
     sv_handlers = Map.empty, sv_sent = (\<lambda>_. []), sv_store = st\<rparr>"

text \<open>\<open>active_connections\<close> and \<open>is_running\<close>.\<close>

definition active_connections :: "'s server_state \<Rightarrow> nat" where
  "active_connections \<sigma> = card (sv_connections \<sigma>)"

definition is_running :: "'s server_state \<Rightarrow> bool" where
  "is_running \<sigma> = sv_server \<sigma>"

definition start :: "'s server_state \<Rightarrow> 's server_state" where
  "start \<sigma> = (if sv_server \<sigma> then \<sigma> else \<sigma>\<lparr>sv_server := True, sv_accepting := True\<rparr>)"

text \<open>The head of \<open>_on_client\<close>, up to the first read: the connection is refused or registered.\<close>

definition admit :: "'s server \<Rightarrow> nat \<Rightarrow> 's server_state \<Rightarrow> 's server_state" where
  "admit srv c \<sigma> =
     (if int (card (sv_connections \<sigma>)) \<ge> srv_max_connections srv then \<sigma>
      else \<sigma>\<lparr>sv_connections := insert c (sv_connections \<sigma>),
              sv_client_tasks := insert c (sv_client_tasks \<sigma>),
              sv_handlers := (sv_handlers \<sigma>)(c \<mapsto> [])\<rparr>)"

text \<open>The \<open>finally\<close> clause of \<open>_on_client\<close>.\<close>

definition finish :: "nat \<Rightarrow> 's server_state \<Rightarrow> 's server_state" where
  "finish c \<sigma> = \<sigma>\<lparr>sv_connections := sv_connections \<sigma> - {c},
     sv_client_tasks := sv_client_tasks \<sigma> - {c}, sv_handlers := (sv_handlers \<sigma>)(c := None)\<rparr>"

text \<open>The handler of \<open>c\<close> runs on the bytes that have arrived for it.\<close>

definition handler_reads :: "'s server \<Rightarrow> nat \<Rightarrow> bytes \<Rightarrow> bytes \<Rightarrow> 's server_state \<Rightarrow> 's server_state" where
  "handler_reads srv c buf data \<sigma> =
     (let (sent, status, st) = serve_buffer srv (buf @ data) (sv_store \<sigma>);
          \<sigma>' = \<sigma>\<lparr>sv_store := st, sv_sent := (sv_sent \<sigma>)(c := sv_sent \<sigma> c @ sent)\<rparr>
      in case status of
           Reading rest \<Rightarrow> \<sigma>'\<lparr>sv_handlers := (sv_handlers \<sigma>')(c \<mapsto> rest)\<rparr>
         | Dropped e \<Rightarrow> finish c \<sigma>')"

text \<open>The parts of \<open>stop\<close> between its awaits.\<close>

definition stop_connections :: "'s server_state \<Rightarrow> 's server_state" where
  "stop_connections \<sigma> = \<sigma>\<lparr>sv_connections := {}, sv_phase := Closing\<rparr>"

definition stop_cancel :: "'s server_state \<Rightarrow> 's server_state" where
  "stop_cancel \<sigma> = \<sigma>\<lparr>sv_phase := Cancelling (sv_client_tasks \<sigma>)\<rparr>"

definition stop_listener :: "'s server_state \<Rightarrow> 's server_state" where
  "stop_listener \<sigma> =
     (if sv_server \<sigma> then \<sigma>\<lparr>sv_client_tasks := {}, sv_accepting := False, sv_phase := ListenerClosing\<rparr>
      else \<sigma>\<lparr>sv_client_tasks := {}, sv_phase := Running\<rparr>)"

definition stop_done :: "'s server_state \<Rightarrow> 's server_state" where
  "stop_done \<sigma> = \<sigma>\<lparr>sv_server := False, sv_phase := Running\<rparr>"

inductive server_step :: "bool \<Rightarrow> 's server \<Rightarrow> 's server_state \<Rightarrow> 's server_state \<Rightarrow> bool" for waits srv where
  step_start: "server_step waits srv \<sigma> (start \<sigma>)"
| step_accept: "sv_accepting \<sigma> \<Longrightarrow> sv_handlers \<sigma> c = None \<Longrightarrow> c \<notin> sv_connections \<sigma> \<Longrightarrow>
    c \<notin> sv_client_tasks \<sigma> \<Longrightarrow> server_step waits srv \<sigma> (admit srv c \<sigma>)"
| step_data: "sv_handlers \<sigma> c = Some buf \<Longrightarrow> server_step waits srv \<sigma> (handler_reads srv c buf data \<sigma>)"
| step_eof: "sv_handlers \<sigma> c = Some buf \<Longrightarrow> server_step waits srv \<sigma> (finish c \<sigma>)"
| step_stop: "sv_phase \<sigma> = Running \<Longrightarrow> server_step waits srv \<sigma> (stop_connections \<sigma>)"
| step_cancel: "sv_phase \<sigma> = Closing \<Longrightarrow> server_step waits srv \<sigma> (stop_cancel \<sigma>)"
| step_cancelled: "sv_phase \<sigma> = Cancelling victims \<Longrightarrow> c \<in> victims \<Longrightarrow> sv_handlers \<sigma> c = Some buf \<Longrightarrow>
    server_step waits srv \<sigma> (finish c \<sigma>)"
| step_stopped: "sv_phase \<sigma> = Cancelling victims \<Longrightarrow> \<forall>c \<in> victims. sv_handlers \<sigma> c = None \<Longrightarrow>
    server_step waits srv \<sigma> (stop_listener \<sigma>)"
| step_done: "sv_phase \<sigma> = ListenerClosing \<Longrightarrow> (waits \<Longrightarrow> dom (sv_handlers \<sigma>) = {}) \<Longrightarrow>
    server_step waits srv \<sigma> (stop_done \<sigma>)"

inductive server_reachable :: "bool \<Rightarrow> 's server \<Rightarrow> 's \<Rightarrow> 's server_state \<Rightarrow> bool" for waits srv st where
  reach_init: "server_reachable waits srv st (server_init st)"
| reach_step: "server_reachable waits srv st \<sigma> \<Longrightarrow> server_step waits srv \<sigma> \<sigma>' \<Longrightarrow> server_reachable waits srv st \<sigma>'"

inductive_cases server_stepE: "server_step waits srv \<sigma> \<sigma>'"

section \<open>Invariant\<close>

definition server_inv :: "'s server \<Rightarrow> 's server_state \<Rightarrow> bool" where
  "server_inv srv \<sigma> \<longleftrightarrow>
     finite (sv_connections \<sigma>) \<and> int (card (sv_connections \<sigma>)) \<le> max 0 (srv_max_connections srv) \<and>
     sv_connections \<sigma> \<subseteq> dom (sv_handlers \<sigma>) \<and> sv_client_tasks \<sigma> \<subseteq> dom (sv_handlers \<sigma>)"

lemma server_inv_init: "server_inv srv (server_init st)"
  by (simp add: server_inv_def server_init_def)

lemma card_remove_le: "finite A \<Longrightarrow> card (A - {x}) \<le> card A"
  by (rule card_mono) auto

lemma server_inv_finish: "server_inv srv \<sigma> \<Longrightarrow> server_inv srv (finish c \<sigma>)"
  using card_remove_le [of "sv_connections \<sigma>" c] by (fastforce simp: server_inv_def finish_def)

lemma server_inv_reads: "server_inv srv \<sigma> \<Longrightarrow> sv_handlers \<sigma> c = Some buf \<Longrightarrow>
  server_inv srv (handler_reads srv c buf data \<sigma>)"
proof -
  assume inv: "server_inv srv \<sigma>" "sv_handlers \<sigma> c = Some buf"
  obtain sent status st where r: "serve_buffer srv (buf @ data) (sv_store \<sigma>) = (sent, status, st)"
    by (metis prod_cases3)
  let ?\<sigma>' = "\<sigma>\<lparr>sv_store := st, sv_sent := (sv_sent \<sigma>)(c := sv_sent \<sigma> c @ sent)\<rparr>"
  have "server_inv srv ?\<sigma>'" using inv(1) by (simp add: server_inv_def)
  then show ?thesis
    using r server_inv_finish [of srv ?\<sigma>' c] inv
    by (cases status) (auto simp: handler_reads_def server_inv_def)
qed

lemma server_inv_admit: "server_inv srv \<sigma> \<Longrightarrow> c \<notin> sv_connections \<sigma> \<Longrightarrow> server_inv srv (admit srv c \<sigma>)"
  by (auto simp: server_inv_def admit_def)

lemma server_inv_step: "server_step waits srv \<sigma> \<sigma>' \<Longrightarrow> server_inv srv \<sigma> \<Longrightarrow> server_inv srv \<sigma>'"
proof (induction rule: server_step.induct)
  case (step_accept \<sigma> c)
  then show ?case by (intro server_inv_admit)
next
  case (step_data \<sigma> c buf data)
  then show ?case by (intro server_inv_reads)
next
  case (step_eof \<sigma> c buf)
  then show ?case by (intro server_inv_finish)
next
  case (step_cancelled \<sigma> victims c buf)
  then show ?case by (intro server_inv_finish)
qed (auto simp: start_def stop_connections_def stop_cancel_def stop_listener_def stop_done_def server_inv_def)

lemma server_reachable_inv: "server_reachable waits srv st \<sigma> \<Longrightarrow> server_inv srv \<sigma>"
  by (induction rule: server_reachable.induct) (auto intro: server_inv_init server_inv_step)

section \<open>Properties\<close>

text \<open>
  C25: the connection limit.  In every state the server can reach by starting, stopping, accepting,
  serving and dropping connections in any order, at most \<open>max_connections\<close> connections are active, and
  every connection or client task the server has registered belongs to a handler that is running.
\<close>

theorem connection_limit:
  assumes "make_server on_read on_write unit_id max_connections = Inr srv" "server_reachable waits srv st \<sigma>"
  shows "int (active_connections \<sigma>) \<le> max_connections \<and>
    sv_connections \<sigma> \<subseteq> dom (sv_handlers \<sigma>) \<and> sv_client_tasks \<sigma> \<subseteq> dom (sv_handlers \<sigma>)"
  using server_reachable_inv [OF assms(2)] assms(1)
  by (auto simp: server_inv_def active_connections_def make_server_def split: if_splits)

text \<open>
  C26: a connection can outlive \<open>stop\<close>.  The listener is closed last, so a client that connects while
  \<open>stop\<close> waits for the cancelled handlers is admitted, and nothing in the rest of \<open>stop\<close> closes it: when
  the listener has been closed, that connection is still registered and its handler still serves
  requests.  Where \<open>wait_closed\<close> does not wait for connections, \<open>stop\<close> then finishes and leaves the
  connection behind in a server that is not running; where it waits for them, \<open>stop\<close> hangs until the
  client disconnects.
\<close>

theorem stop_leaves_connection:
  assumes "make_server on_read on_write unit_id max_connections = Inr srv"
  shows "\<exists>\<sigma>. server_reachable waits srv st \<sigma> \<and> 1 \<in> sv_connections \<sigma> \<and> sv_handlers \<sigma> 1 = Some [] \<and>
    (if waits then sv_phase \<sigma> = ListenerClosing \<and> \<not> sv_accepting \<sigma> \<and> 1 \<notin> sv_client_tasks \<sigma>
     else \<not> is_running \<sigma> \<and> sv_phase \<sigma> = Running)"
proof -
  have max: "\<not> int 0 \<ge> srv_max_connections srv" using assms by (auto simp: make_server_def split: if_splits)
  define s1 where "s1 = start (server_init st)"
  define s2 where "s2 = admit srv 0 s1"
  define s3 where "s3 = stop_cancel (stop_connections s2)"
  define s4 where "s4 = admit srv 1 s3"
  define s5 where "s5 = finish 0 s4"
  define s6 where "s6 = stop_listener s5"
  note defs = s1_def s2_def s3_def s4_def s5_def s6_def start_def server_init_def admit_def stop_cancel_def
    stop_connections_def finish_def stop_listener_def stop_done_def
  note step = server_reachable.reach_step
  have "server_reachable waits srv st s1"
    unfolding s1_def by (rule step [OF server_reachable.reach_init server_step.step_start])
  then have "server_reachable waits srv st s2"
    unfolding s2_def by (rule step) (rule server_step.step_accept; simp add: defs)
  then have "server_reachable waits srv st (stop_connections s2)"
    by (rule step) (rule server_step.step_stop, use max in \<open>simp add: defs\<close>)
  then have "server_reachable waits srv st s3"
    unfolding s3_def by (rule step) (rule server_step.step_cancel, simp add: stop_connections_def)
  then have "server_reachable waits srv st s4"
    unfolding s4_def by (rule step) (rule server_step.step_accept; use max in \<open>simp add: defs\<close>)
  then have "server_reachable waits srv st s5"
    unfolding s5_def
    by (rule step) (rule server_step.step_cancelled [where victims = "{0}" and buf = "[]"]; use max in \<open>simp add: defs\<close>)
  then have s6: "server_reachable waits srv st s6"
    unfolding s6_def
    by (rule step) (rule server_step.step_stopped [where victims = "{0}"]; use max in \<open>simp add: defs\<close>)
  have left: "sv_phase s6 = ListenerClosing" "\<not> sv_accepting s6" "1 \<notin> sv_client_tasks s6" "1 \<in> sv_connections s6"
      "sv_handlers s6 1 = Some []"
    using max by (simp_all add: defs)
  show ?thesis
  proof (cases waits)
    case True
    with s6 left show ?thesis by (intro exI [of _ s6]) simp
  next
    case False
    from s6 have "server_reachable waits srv st (stop_done s6)"
      by (rule step) (rule server_step.step_done [OF left(1)], use False in simp)
    with False left show ?thesis by (intro exI [of _ "stop_done s6"]) (simp add: stop_done_def is_running_def)
  qed
qed

lemma make_null_server:
  "make_server (srv_on_read null_server) None None 1 = Inr null_server"
  by (simp add: make_server_def null_server_def)

theorem connection_limit_witness:
  "int (active_connections (admit null_server 0 (start (server_init ())))) \<le> 1"
proof -
  have "server_reachable True null_server () (start (server_init ()))"
    by (rule server_reachable.reach_step [OF server_reachable.reach_init server_step.step_start])
  then have "server_reachable True null_server () (admit null_server 0 (start (server_init ())))"
    by (rule server_reachable.reach_step)
      (rule server_step.step_accept; simp add: start_def server_init_def)
  from connection_limit [OF make_null_server this] show ?thesis by simp
qed

theorem stop_leaves_connection_witness:
  "\<exists>\<sigma>. server_reachable False null_server () \<sigma> \<and> \<not> is_running \<sigma> \<and> 1 \<in> sv_connections \<sigma>"
  using stop_leaves_connection [OF make_null_server, of False "()"] by auto

end
