(* ===== verification/Py_Text.thy ===== *)
theory Py_Text
  imports Errors
begin

text \<open>
  What the command line uses of Python's strings and of \<open>int(s, 0)\<close>, on ASCII text: stripping, splitting,
  lower case, the integer literals of the language with their prefixes and underscores, and the
  decimal and hexadecimal formats that print them.
\<close>

section \<open>Strings\<close>

definition is_space :: "char \<Rightarrow> bool" where
  "is_space c \<longleftrightarrow> (let n = of_char c :: nat in n \<in> {9, 10, 11, 12, 13, 28, 29, 30, 31, 32})"

definition py_strip :: "string \<Rightarrow> string" where
  "py_strip s = rev (dropWhile is_space (rev (dropWhile is_space s)))"

text \<open>\<open>s.split(sep)\<close> for one separator character.\<close>

fun py_split :: "char \<Rightarrow> string \<Rightarrow> string list" where
  "py_split sep [] = [[]]"
| "py_split sep (c # cs) =
     (if c = sep then [] # py_split sep cs
      else case py_split sep cs of [] \<Rightarrow> [[c]] | w # ws \<Rightarrow> (c # w) # ws)"

text \<open>\<open>sep.join(parts)\<close> for one separator character.\<close>

fun py_join :: "char \<Rightarrow> string list \<Rightarrow> string" where
  "py_join sep [] = []"
| "py_join sep [t] = t"
| "py_join sep (t # ts) = t @ sep # py_join sep ts"

text \<open>\<open>s.split(sep, 1)\<close> for a separator that occurs.\<close>

definition py_partition :: "char \<Rightarrow> string \<Rightarrow> string \<times> string" where
  "py_partition sep s = (takeWhile (\<lambda>c. c \<noteq> sep) s, drop 1 (dropWhile (\<lambda>c. c \<noteq> sep) s))"

definition lower_char :: "char \<Rightarrow> char" where
  "lower_char c = (let n = of_char c :: nat in if 65 \<le> n \<and> n \<le> 90 then char_of (n + 32) else c)"

definition py_lower :: "string \<Rightarrow> string" where
  "py_lower s = map lower_char s"

section \<open>Integer literals\<close>

definition digit_val :: "char \<Rightarrow> int option" where
  "digit_val c =
     (let n = of_char c :: nat in
      if 48 \<le> n \<and> n \<le> 57 then Some (int n - 48)
      else if 97 \<le> n \<and> n \<le> 122 then Some (int n - 87)
      else if 65 \<le> n \<and> n \<le> 90 then Some (int n - 55) else None)"

text \<open>Digits with single underscores between them; the flag says that the last character was one.\<close>

fun parse_digits :: "int \<Rightarrow> int \<Rightarrow> bool \<Rightarrow> string \<Rightarrow> int option" where
  "parse_digits base acc us [] = (if us then None else Some acc)"
| "parse_digits base acc us (c # cs) =
     (if c = CHR ''_'' then (if us then None else parse_digits base acc True cs)
      else case digit_val c of
          None \<Rightarrow> None
        | Some d \<Rightarrow> if d < base then parse_digits base (acc * base + d) False cs else None)"

text \<open>After the sign: a prefix with its digits, or decimal digits that only zero may start with a zero.\<close>

definition parse_unsigned :: "string \<Rightarrow> int option" where
  "parse_unsigned s =
     (case s of
        [] \<Rightarrow> None
      | c # cs \<Rightarrow>
          if c = CHR ''_'' then None
          else if c = CHR ''0'' then
            (case cs of
               [] \<Rightarrow> Some 0
             | p # ds \<Rightarrow>
                 if p \<in> {CHR ''x'', CHR ''X''} then (if ds = [] then None else parse_digits 16 0 False ds)
                 else if p \<in> {CHR ''o'', CHR ''O''} then (if ds = [] then None else parse_digits 8 0 False ds)
                 else if p \<in> {CHR ''b'', CHR ''B''} then (if ds = [] then None else parse_digits 2 0 False ds)
                 else (case parse_digits 10 0 False s of Some n \<Rightarrow> if n = 0 then Some 0 else None | None \<Rightarrow> None))
          else parse_digits 10 0 False s)"

text \<open>\<open>int(s, 0)\<close>.\<close>

definition int_base0 :: "string \<Rightarrow> int result" where
  "int_base0 s =
     (let t = py_strip s;
          r = (case t of
                 [] \<Rightarrow> None
               | c # cs \<Rightarrow>
                   if c = CHR ''-'' then map_option uminus (parse_unsigned cs)
                   else if c = CHR ''+'' then parse_unsigned cs else parse_unsigned t)
      in case r of None \<Rightarrow> Inl ValueError | Some n \<Rightarrow> Inr n)"

section \<open>Printing\<close>

definition digit_char :: "nat \<Rightarrow> char" where
  "digit_char d = (if d < 10 then char_of (48 + d) else char_of (55 + d))"

fun digits_of :: "nat \<Rightarrow> nat \<Rightarrow> string" where
  "digits_of base n = (if n < base \<or> base < 2 then [digit_char n] else digits_of base (n div base) @ [digit_char (n mod base)])"

declare digits_of.simps [simp del]

text \<open>\<open>str(n)\<close>, and the format \<open>{n:0wX}\<close> of a non-negative integer.\<close>

definition py_str_int :: "int \<Rightarrow> string" where
  "py_str_int n = (if n < 0 then CHR ''-'' # digits_of 10 (nat (- n)) else digits_of 10 (nat n))"

definition py_hex :: "nat \<Rightarrow> int \<Rightarrow> string" where
  "py_hex width n = (let ds = digits_of 16 (nat n) in replicate (width - length ds) CHR ''0'' @ ds)"

section \<open>Laws\<close>

lemma digit_char_ok:
  assumes "d < 16"
  shows "digit_val (digit_char d) = Some (int d)" "digit_char d \<noteq> CHR ''_''" "\<not> is_space (digit_char d)"
    "digit_char d \<noteq> CHR '',''" "digit_char d \<noteq> CHR ''-''" "digit_char d \<noteq> CHR ''+''" "digit_char d = CHR ''0'' \<longleftrightarrow> d = 0"
proof -
  have code: "of_char (digit_char d) = (if d < 10 then 48 + d else 55 + d)"
    using assms by (simp add: digit_char_def)
  have other: "digit_char d \<noteq> c" if "of_char c \<noteq> (of_char (digit_char d) :: nat)" for c using that by auto
  show "digit_val (digit_char d) = Some (int d)" "\<not> is_space (digit_char d)"
    using assms by (auto simp: digit_val_def is_space_def code Let_def)
  show "digit_char d \<noteq> CHR ''_''" "digit_char d \<noteq> CHR '',''" "digit_char d \<noteq> CHR ''-''" "digit_char d \<noteq> CHR ''+''"
    using assms by (intro other; simp add: code)+
  show "digit_char d = CHR ''0'' \<longleftrightarrow> d = 0"
  proof
    assume "digit_char d = CHR ''0''"
    then have "of_char (digit_char d) = (48 :: nat)" by simp
    then show "d = 0" by (simp add: code split: if_splits)
  next
    assume "d = 0"
    then have "of_char (digit_char d) = (of_char CHR ''0'' :: nat)" using code by simp
    then show "digit_char d = CHR ''0''" by (simp only: of_char_eq_iff)
  qed
qed

lemma digits_of_chars:
  assumes "2 \<le> base" "base \<le> 16"
  shows "set (digits_of base n) \<subseteq> digit_char ` {..<base} \<and> digits_of base n \<noteq> []"
  using assms
proof (induction base n rule: digits_of.induct)
  case (1 base n)
  then show ?case by (subst (1 2) digits_of.simps) auto
qed

lemma parse_digits_snoc:
  assumes "parse_digits base acc us xs = Some m" "d < 16" "int d < base"
  shows "parse_digits base acc us (xs @ [digit_char d]) = Some (m * base + int d)"
  using assms
  by (induction base acc us xs rule: parse_digits.induct) (auto simp: digit_char_ok split: if_splits option.splits)

lemma parse_digits_of:
  assumes "2 \<le> base" "base \<le> 16"
  shows "parse_digits (int base) 0 us (digits_of base n) = Some (int n)"
  using assms
proof (induction base n rule: digits_of.induct)
  case (1 base n)
  show ?case
  proof (cases "n < base")
    case True
    with 1 show ?thesis by (subst digits_of.simps) (simp add: digit_char_ok)
  next
    case False
    have m: "n mod base < base" using 1 by simp
    then have "n mod base < 16" using 1 by linarith
    with m 1 False have "parse_digits (int base) 0 us (digits_of base (n div base) @ [digit_char (n mod base)]) =
        Some (int (n div base) * int base + int (n mod base))"
      by (intro parse_digits_snoc) auto
    also have "int (n div base) * int base + int (n mod base) = int n"
      by (metis div_mult_mod_eq of_nat_add of_nat_mult)
    finally show ?thesis using False 1 by (subst digits_of.simps) simp
  qed
qed

lemma hd_digits_of: "2 \<le> base \<Longrightarrow> base \<le> 16 \<Longrightarrow> hd (digits_of base n) = CHR ''0'' \<longleftrightarrow> n = 0"
proof (induction base n rule: digits_of.induct)
  case (1 base n)
  show ?case
  proof (cases "n < base")
    case True
    with 1 show ?thesis by (subst digits_of.simps) (simp add: digit_char_ok)
  next
    case False
    with 1 have "hd (digits_of base n) = hd (digits_of base (n div base))"
      using digits_of_chars [of base "n div base"] by (subst digits_of.simps) simp
    with 1 False show ?thesis by (auto simp: div_eq_0_iff)
  qed
qed

lemma py_strip_id: "s \<noteq> [] \<Longrightarrow> \<not> is_space (hd s) \<Longrightarrow> \<not> is_space (last s) \<Longrightarrow> py_strip s = s"
proof -
  assume s: "s \<noteq> []" "\<not> is_space (hd s)" "\<not> is_space (last s)"
  have "dropWhile is_space s = s" using s by (cases s) auto
  moreover have "dropWhile is_space (rev s) = rev s" using s by (cases s rule: rev_cases) auto
  ultimately show ?thesis by (simp add: py_strip_def)
qed

text \<open>What \<open>str\<close> prints, and what the hexadecimal format prints behind a prefix, \<open>int(s, 0)\<close> reads back.\<close>

lemma int_base0_str: "int_base0 (py_str_int n) = Inr n"
proof -
  let ?ds = "digits_of 10 (nat \<bar>n\<bar>)"
  have ds: "?ds \<noteq> []" "c \<in> set ?ds \<Longrightarrow> \<exists>d < 16. c = digit_char d" for c
    using digits_of_chars [of 10 "nat \<bar>n\<bar>"] by force+
  then have hl: "\<exists>d < 16. hd ?ds = digit_char d" "\<exists>d < 16. last ?ds = digit_char d" by simp_all
  have unsigned: "parse_unsigned ?ds = Some \<bar>n\<bar>"
  proof (cases "n = 0")
    case True
    then show ?thesis using digit_char_ok(7) [of 0] by (simp add: digits_of.simps parse_unsigned_def)
  next
    case False
    then obtain c cs where cs: "?ds = c # cs" "c \<noteq> CHR ''0''" "c \<noteq> CHR ''_''"
      using hd_digits_of [of 10 "nat \<bar>n\<bar>"] ds(1) hl(1) digit_char_ok(2) by (cases ?ds) auto
    then have "parse_unsigned ?ds = parse_digits 10 0 False ?ds" by (simp add: parse_unsigned_def)
    with parse_digits_of [of 10 False "nat \<bar>n\<bar>"] show ?thesis by simp
  qed
  show ?thesis
  proof (cases "n < 0")
    case True
    have "py_strip (CHR ''-'' # ?ds) = CHR ''-'' # ?ds"
      by (rule py_strip_id) (use hl(2) ds(1) digit_char_ok(3) in \<open>auto simp: is_space_def\<close>)
    with True unsigned show ?thesis by (simp add: int_base0_def py_str_int_def)
  next
    case False
    have "py_strip ?ds = ?ds" by (rule py_strip_id) (use ds(1) hl digit_char_ok(3) in auto)
    moreover obtain c cs where "?ds = c # cs" "c \<noteq> CHR ''-''" "c \<noteq> CHR ''+''"
      using ds(1) hl(1) digit_char_ok(5,6) by (cases ?ds) auto
    ultimately show ?thesis using False unsigned by (simp add: int_base0_def py_str_int_def)
  qed
qed

lemma parse_digits_zeros: "parse_digits base 0 us (replicate k CHR ''0'' @ c # cs) = parse_digits base 0 us' (c # cs)"
  if "0 < base" "c \<noteq> CHR ''_''"
  using that
proof (induction k arbitrary: us)
  case (Suc k)
  have "digit_val CHR ''0'' = Some 0" by (simp add: digit_val_def)
  with Suc show ?case by simp
qed simp

lemma int_base0_hex:
  assumes "0 \<le> n"
  shows "int_base0 (''0x'' @ py_hex w n) = Inr n"
proof -
  let ?ds = "digits_of 16 (nat n)"
  have ds: "?ds \<noteq> []" "c \<in> set ?ds \<Longrightarrow> \<exists>d < 16. c = digit_char d" for c
    using digits_of_chars [of 16 "nat n"] by force+
  then have hl: "\<exists>d < 16. hd ?ds = digit_char d" "\<exists>d < 16. last ?ds = digit_char d" by simp_all
  obtain c cs where cs: "?ds = c # cs" "c \<noteq> CHR ''_''" using ds(1) hl(1) digit_char_ok(2) by (cases ?ds) auto
  have "parse_digits 16 0 False (py_hex w n) = Some n"
    using parse_digits_zeros [of 16 c False "w - length ?ds" cs False] parse_digits_of [of 16 False "nat n"] cs assms
    by (simp add: py_hex_def)
  moreover have "py_hex w n \<noteq> []" using ds(1) by (simp add: py_hex_def Let_def)
  moreover have "py_strip (''0x'' @ py_hex w n) = ''0x'' @ py_hex w n"
    by (rule py_strip_id) (use ds(1) hl(2) digit_char_ok(3) in \<open>auto simp: is_space_def py_hex_def Let_def\<close>)
  ultimately show ?thesis by (simp add: int_base0_def parse_unsigned_def)
qed

text \<open>The texts of an integer that the programs print, and what the parsers need to know of them.\<close>

definition int_text :: "string \<Rightarrow> int \<Rightarrow> bool" where
  "int_text t n \<longleftrightarrow> t = py_str_int n \<or> 0 \<le> n \<and> (\<exists>w. t = ''0x'' @ py_hex w n)"

lemma digit_char_other: "d < 16 \<Longrightarrow> of_char c \<notin> {48..57::nat} \<union> {65..70} \<Longrightarrow> digit_char d \<noteq> c"
  by (auto simp: digit_char_def split: if_splits)

lemma int_text_chars:
  assumes "int_text t n" "c \<in> set t"
  shows "c \<in> {CHR ''-'', CHR ''x'', CHR ''0''} \<or> (\<exists>d < 16. c = digit_char d)"
proof -
  have digits: "c \<in> set (digits_of 10 m) \<Longrightarrow> \<exists>d < 16. c = digit_char d" "c \<in> set (digits_of 16 m) \<Longrightarrow> \<exists>d < 16. c = digit_char d" for m
    using digits_of_chars [of 10 m] digits_of_chars [of 16 m] by force+
  from assms show ?thesis
    by (auto simp: int_text_def py_str_int_def py_hex_def Let_def dest!: digits split: if_splits)
qed

lemma int_text_facts:
  assumes "int_text t n"
  shows "int_base0 t = Inr n" "t \<noteq> []" "py_strip t = t" "CHR '','' \<notin> set t" "CHR ''='' \<notin> set t"
proof -
  show "int_base0 t = Inr n" using assms int_base0_str int_base0_hex by (auto simp: int_text_def)
  show t: "t \<noteq> []"
    using assms digits_of_chars [of 10 "nat n"] by (auto simp: int_text_def py_str_int_def split: if_splits)
  have "\<not> is_space c \<and> c \<noteq> CHR '','' \<and> c \<noteq> CHR ''=''" if c: "c \<in> set t" for c
    using int_text_chars [OF assms c] digit_char_ok(3,4) digit_char_other [of _ "CHR ''=''"] by (auto simp: is_space_def)
  then show "py_strip t = t" "CHR '','' \<notin> set t" "CHR ''='' \<notin> set t"
    using t by (auto intro: py_strip_id)
qed

lemma py_split_single: "sep \<notin> set t \<Longrightarrow> py_split sep t = [t]"
  by (induction t) auto

lemma py_split_append: "sep \<notin> set t \<Longrightarrow> py_split sep (t @ sep # s) = t # py_split sep s"
  by (induction t) auto

lemma py_split_join: "ts \<noteq> [] \<Longrightarrow> \<forall>t \<in> set ts. sep \<notin> set t \<Longrightarrow> py_split sep (py_join sep ts) = ts"
  by (induction sep ts rule: py_join.induct) (simp_all add: py_split_single py_split_append)

lemma py_partition_append: "sep \<notin> set t \<Longrightarrow> py_partition sep (t @ sep # s) = (t, s)"
  by (induction t) (auto simp: py_partition_def)

lemma length_digits_of: "2 \<le> base \<Longrightarrow> n < base ^ Suc k \<Longrightarrow> length (digits_of base n) \<le> Suc k"
proof (induction k arbitrary: n)
  case 0
  then show ?case by (subst digits_of.simps) simp
next
  case (Suc k)
  then have "n div base < base ^ Suc k" by (simp add: less_mult_imp_div_less mult.commute)
  with Suc show ?case by (subst digits_of.simps) simp
qed

lemma length_py_hex: "0 \<le> n \<Longrightarrow> n < 16 ^ Suc k \<Longrightarrow> length (py_hex (Suc k) n) = Suc k"
  using length_digits_of [of 16 "nat n" k] by (simp add: py_hex_def Let_def nat_less_iff)

lemma int_text_hd: "int_text t n \<Longrightarrow> \<not> is_space (hd t)"
  using int_text_facts(2) [of t n] int_text_chars [of t n "hd t"] digit_char_ok(3)
  by (cases t) (auto simp: is_space_def)

lemma py_strip_empty: "py_strip s = [] \<longleftrightarrow> (\<forall>c \<in> set s. is_space c)"
proof -
  have "py_strip s = [] \<longleftrightarrow> (\<forall>c \<in> set (dropWhile is_space s). is_space c)" by (simp add: py_strip_def)
  also have "\<dots> \<longleftrightarrow> (\<forall>c \<in> set s. is_space c)"
    by (metis dropWhile_eq_Nil_conv hd_dropWhile hd_in_set set_dropWhileD)
  finally show ?thesis .
qed

section \<open>Decimal integers\<close>

definition is_digit :: "char \<Rightarrow> bool" where
  "is_digit c \<longleftrightarrow> (let n = of_char c :: nat in 48 \<le> n \<and> n \<le> 57)"

text \<open>\<open>int(s)\<close>.\<close>

definition int_base10 :: "string \<Rightarrow> int result" where
  "int_base10 s =
     (let unsigned = (\<lambda>t. if t = [] \<or> hd t = CHR ''_'' then None else parse_digits 10 0 False t);
          r = (case py_strip s of
                 [] \<Rightarrow> None
               | c # cs \<Rightarrow>
                   if c = CHR ''-'' then map_option uminus (unsigned cs)
                   else if c = CHR ''+'' then unsigned cs else unsigned (c # cs))
      in case r of None \<Rightarrow> Inl ValueError | Some n \<Rightarrow> Inr n)"

lemma int_base10_str: "0 \<le> n \<Longrightarrow> int_base10 (py_str_int n) = Inr n"
proof -
  assume n: "0 \<le> n"
  let ?ds = "digits_of 10 (nat n)"
  have str: "py_str_int n = ?ds" using n by (simp add: py_str_int_def)
  have "?ds \<noteq> []" "hd ?ds \<in> set ?ds" using digits_of_chars [of 10 "nat n"] by auto
  then obtain d where d: "hd ?ds = digit_char d" "d < 10" using digits_of_chars [of 10 "nat n"] by fastforce
  obtain c cs where cs: "?ds = c # cs" using \<open>?ds \<noteq> []\<close> by (cases ?ds) auto
  have c: "c \<noteq> CHR ''_''" "c \<noteq> CHR ''-''" "c \<noteq> CHR ''+''" using d cs digit_char_ok(2,5,6) [of d] by auto
  have "int_text (py_str_int n) n" by (simp add: int_text_def)
  then have "py_strip ?ds = ?ds" using int_text_facts(3) str by metis
  moreover have "parse_digits 10 0 False ?ds = Some n" using parse_digits_of [of 10 False "nat n"] n by simp
  ultimately show ?thesis using cs c str by (simp add: int_base10_def Let_def)
qed

end
