(* ===== verification/Py_Float_Laws.thy ===== *)
theory Py_Float_Laws
  imports Py_Float
begin

text \<open>
  Facts on floats the codec laws need: the \<open>"d"\<close> format is a bijection between floats and eight
  bytes, and widening a binary32 pattern to a Python float and narrowing it again gives the pattern
  back, for every pattern but the NaNs.
\<close>

section \<open>The \<open>"d"\<close> format\<close>

lemma length_pack_d [simp]: "length (pack_d x) = 8"
  by (simp add: pack_d_def)

lemma unpack_pack_d: "unpack_d (pack_d x) = Inr x"
proof -
  have "uint x mod 256 ^ 8 = uint x"
    using uint_lt2p [of x] by (intro mod_pos_pos_trivial) simp_all
  then have "be_val (be_bytes 8 (uint x)) = uint x"
    by (simp only: be_val_bytes)
  then show ?thesis by (simp add: unpack_d_def pack_d_def)
qed

lemma pack_unpack_d:
  assumes "length bs = 8"
  shows "\<exists>x. unpack_d bs = Inr x \<and> pack_d x = bs"
proof -
  have "uint (word_of_int (be_val bs) :: 64 word) = be_val bs"
    using be_val_bounds [of bs] assms by (simp add: uint_word_of_int take_bit_int_eq_self_iff)
  then have "pack_d (word_of_int (be_val bs)) = bs"
    using be_bytes_val [of bs] assms by (simp add: pack_d_def)
  then show ?thesis using assms by (simp add: unpack_d_def)
qed

section \<open>Bit length\<close>

lemma bit_len_0 [simp]: "bit_len 0 = 0"
  by (simp add: bit_len.simps)

lemma bit_len_bounds: "0 < m \<Longrightarrow> 0 < bit_len m \<and> 2 ^ (bit_len m - 1) \<le> m \<and> m < 2 ^ bit_len m"
proof (induction m rule: bit_len.induct)
  case (1 m)
  show ?case
  proof (cases "m = 1")
    case True
    then show ?thesis by (simp add: bit_len.simps)
  next
    case False
    with 1 have IH: "0 < bit_len (m div 2)" "2 ^ (bit_len (m div 2) - 1) \<le> m div 2"
        "m div 2 < 2 ^ bit_len (m div 2)"
      by auto
    have "2 ^ bit_len (m div 2) = 2 * (2 ^ (bit_len (m div 2) - 1) :: nat)"
      using IH(1) by (cases "bit_len (m div 2)") auto
    moreover have "m = 2 * (m div 2) + m mod 2" "m mod 2 < 2" by simp_all
    ultimately have "2 ^ bit_len (m div 2) \<le> m" "m < 2 * 2 ^ bit_len (m div 2)"
      using IH(2,3) by linarith+
    with 1 show ?thesis by (simp add: bit_len.simps [of m])
  qed
qed

lemma bit_len_unique:
  assumes "2 ^ l \<le> m" "m < 2 ^ Suc l"
  shows "bit_len m = Suc l"
proof -
  have "0 < m" using assms(1) by (metis gr0I le_zero_eq power_not_zero zero_neq_numeral)
  from bit_len_bounds [OF this] have b: "2 ^ (bit_len m - 1) \<le> m" "m < 2 ^ bit_len m" "0 < bit_len m"
    by auto
  from assms(1) b(2) have "(2 :: nat) ^ l < 2 ^ bit_len m" by linarith
  moreover from assms(2) b(1) have "(2 :: nat) ^ (bit_len m - 1) < 2 ^ Suc l" by linarith
  ultimately have "l < bit_len m" "bit_len m - 1 < Suc l"
    by (simp_all only: power_strict_increasing_iff one_less_numeral_iff semiring_norm)
  then show ?thesis by linarith
qed

lemma bit_len_le: "m < 2 ^ p \<Longrightarrow> bit_len m \<le> p"
proof (rule ccontr)
  assume "m < 2 ^ p" "\<not> bit_len m \<le> p"
  then have "0 < m" "p \<le> bit_len m - 1" by (auto intro: gr0I)
  with bit_len_bounds [of m] have "(2 :: nat) ^ p \<le> m"
    by (meson le_trans one_le_numeral power_increasing)
  with \<open>m < 2 ^ p\<close> show False by simp
qed

lemma bit_len_shift: "0 < m \<Longrightarrow> bit_len (m * 2 ^ k) = bit_len m + k"
proof -
  assume "0 < m"
  from bit_len_bounds [OF this] obtain l where l: "bit_len m = Suc l" "2 ^ l \<le> m" "m < 2 ^ Suc l"
    by (metis Suc_pred')
  then have "2 ^ (l + k) \<le> m * 2 ^ k" "m * 2 ^ k < 2 ^ Suc (l + k)"
    by (simp_all add: power_add)
  then show ?thesis using l(1) by (simp add: bit_len_unique)
qed

section \<open>Exact conversions\<close>

lemma unpack_compose:
  assumes "ex < 2 ^ w" "fr < 2 ^ (p - 1)"
  shows "unpack_bits_ieee p w (compose_bits p w s ex fr) =
     (if ex = 2 ^ w - 1 then (if fr = 0 then FInf s else FNan s fr)
      else if ex = 0 then FFin s fr (emin p w)
      else FFin s (2 ^ (p - 1) + fr) (emin p w + int ex - 1))"
proof -
  let ?b = "compose_bits p w s ex fr"
  have b: "?b = (of_bool s * 2 ^ w + ex) * 2 ^ (p - 1) + fr"
    by (simp add: compose_bits_def power_add algebra_simps)
  have q: "?b div 2 ^ (p - 1) = of_bool s * 2 ^ w + ex" and r: "?b mod 2 ^ (p - 1) = fr"
    using assms(2) by (simp_all add: b)
  have "?b div 2 ^ (p - 1 + w) = (of_bool s * 2 ^ w + ex) div 2 ^ w"
    by (simp only: power_add div_mult2_eq q)
  then have "?b div 2 ^ (p - 1 + w) = of_bool s"
    using assms(1) by simp
  then have s: "odd (?b div 2 ^ (p - 1 + w)) = s" by simp
  have ex: "?b div 2 ^ (p - 1) mod 2 ^ w = ex"
    using assms(1) unfolding q by simp
  show ?thesis
    unfolding unpack_bits_ieee_def Let_def s ex r ..
qed

lemma compose_bound: "ex < 2 ^ w \<Longrightarrow> fr < 2 ^ (p - 1) \<Longrightarrow> compose_bits p w s ex fr < 2 ^ (p - 1 + w + 1)"
proof -
  assume a: "ex < 2 ^ w" "fr < 2 ^ (p - 1)"
  have "ex * 2 ^ (p - 1) + fr < (ex + 1) * 2 ^ (p - 1)" using a(2) by simp
  also have "\<dots> \<le> 2 ^ w * 2 ^ (p - 1)" using a(1) by (intro mult_right_mono) auto
  finally have "ex * 2 ^ (p - 1) + fr < 2 ^ (p - 1 + w)" by (simp add: power_add mult.commute)
  then show ?thesis by (cases s) (simp_all add: compose_bits_def)
qed

lemma compose_surj:
  assumes "b < 2 ^ (p - 1 + w + 1)"
  shows "b = compose_bits p w (odd (b div 2 ^ (p - 1 + w))) (b div 2 ^ (p - 1) mod 2 ^ w) (b mod 2 ^ (p - 1))"
proof -
  have "b div 2 ^ (p - 1 + w) < 2"
    using assms by (simp add: less_mult_imp_div_less)
  then have s: "of_bool (odd (b div 2 ^ (p - 1 + w))) = b div 2 ^ (p - 1 + w)"
    by (cases "b div 2 ^ (p - 1 + w)") auto
  have "b div 2 ^ (p - 1) = b div 2 ^ (p - 1 + w) * 2 ^ w + b div 2 ^ (p - 1) mod 2 ^ w"
    by (simp only: power_add div_mult2_eq div_mult_mod_eq)
  then have "b = (b div 2 ^ (p - 1 + w) * 2 ^ w + b div 2 ^ (p - 1) mod 2 ^ w) * 2 ^ (p - 1) + b mod 2 ^ (p - 1)"
    by (metis div_mult_mod_eq)
  then show ?thesis
    unfolding compose_bits_def s by (simp add: power_add algebra_simps)
qed

text \<open>A number that the format can represent is converted exactly, whatever its scaling.\<close>

lemma round_half_even_exact: "round_half_even (m * 2 ^ r) r = m"
  by (simp add: round_half_even_def Let_def)

lemma round_to_format_exact:
  assumes m: "0 < m" "m < 2 ^ p" and e: "emin p w \<le> e"
    and q: "q = max (emin p w) (e + int (bit_len m) - int p)"
    and k: "e' = e - int k"
  shows "round_to_format p w s (m * 2 ^ k) e' =
     (let m1 = m * 2 ^ nat (e - q); ex = (if m1 < 2 ^ (p - 1) then 0 else nat (q - emin p w) + 1)
      in if 2 ^ w - 1 \<le> ex then Inl OverflowError
         else Inr (compose_bits p w s ex (if m1 < 2 ^ (p - 1) then m1 else m1 - 2 ^ (p - 1))))"
    and "m * 2 ^ nat (e - q) < 2 ^ p" and "q \<le> e"
    and "m * 2 ^ nat (e - q) < 2 ^ (p - 1) \<Longrightarrow> q = emin p w"
proof -
  have L: "bit_len m \<le> p" "0 < bit_len m" "2 ^ (bit_len m - 1) \<le> m" "m < 2 ^ bit_len m"
    using bit_len_le [OF m(2)] bit_len_bounds [OF m(1)] by auto
  show qe: "q \<le> e" using q e L(1) by auto
  have "bit_len m + nat (e - q) \<le> p" using q qe L(1) by (auto simp: max_def split: if_splits)
  then have "(2 :: nat) ^ (bit_len m + nat (e - q)) \<le> 2 ^ p" by (intro power_increasing) auto
  then show small: "m * 2 ^ nat (e - q) < 2 ^ p"
    using L(4) by (smt (verit) less_le_trans mult_less_cancel2 power_add zero_less_numeral zero_less_power)
  show "q = emin p w" if "m * 2 ^ nat (e - q) < 2 ^ (p - 1)"
  proof (rule ccontr)
    assume "q \<noteq> emin p w"
    with q have "q = e + int (bit_len m) - int p" by (simp add: max_def split: if_splits)
    then have "bit_len m - 1 + nat (e - q) = p - 1" using L by auto
    then have "(2 :: nat) ^ (p - 1) \<le> m * 2 ^ nat (e - q)"
      using L(3) by (metis mult_le_mono1 power_add)
    with that show False by simp
  qed
  have q': "max (emin p w) (e' + int (bit_len (m * 2 ^ k)) - int p) = q"
    using m(1) by (simp add: q k bit_len_shift)
  have m1: "(if q \<le> e' then m * 2 ^ k * 2 ^ nat (e' - q) else round_half_even (m * 2 ^ k) (nat (q - e')))
      = m * 2 ^ nat (e - q)"
  proof (cases "q \<le> e'")
    case True
    then have "k + nat (e' - q) = nat (e - q)" using k by linarith
    then have "(2 :: nat) ^ nat (e - q) = 2 ^ k * 2 ^ nat (e' - q)" by (metis power_add)
    then show ?thesis using True by simp
  next
    case False
    then have "k = nat (e - q) + nat (q - e')" using k qe by linarith
    then have "m * 2 ^ k = m * 2 ^ nat (e - q) * 2 ^ nat (q - e')" by (simp add: power_add)
    then show ?thesis using False by (simp only: round_half_even_exact if_False)
  qed
  have "m * 2 ^ nat (e - q) \<noteq> 2 ^ p" using small by simp
  then show "round_to_format p w s (m * 2 ^ k) e' =
     (let m1 = m * 2 ^ nat (e - q); ex = (if m1 < 2 ^ (p - 1) then 0 else nat (q - emin p w) + 1)
      in if 2 ^ w - 1 \<le> ex then Inl OverflowError
         else Inr (compose_bits p w s ex (if m1 < 2 ^ (p - 1) then m1 else m1 - 2 ^ (p - 1))))"
    unfolding round_to_format_def q' m1 Let_def by simp
qed

section \<open>Widening and narrowing\<close>

lemma unpack_finite:
  assumes "unpack_bits_ieee p w b = FFin s m e" "b < 2 ^ (p - 1 + w + 1)" "0 < p"
  shows "m < 2 ^ p" "emin p w \<le> e" "e \<le> emin p w + (2 ^ w - 3) \<or> e = emin p w"
    "m < 2 ^ (p - 1) \<Longrightarrow> e = emin p w"
    "b = compose_bits p w s (if m < 2 ^ (p - 1) then 0 else nat (e - emin p w) + 1)
           (if m < 2 ^ (p - 1) then m else m - 2 ^ (p - 1))"
    "m < 2 ^ (p - 1) \<or> nat (e - emin p w) + 1 < 2 ^ w - 1"
proof -
  let ?ex = "b div 2 ^ (p - 1) mod 2 ^ w" and ?fr = "b mod 2 ^ (p - 1)"
  have exb: "?ex < 2 ^ w" and frb: "?fr < 2 ^ (p - 1)" by simp_all
  have pp: "(2 :: nat) ^ p = 2 * 2 ^ (p - 1)" using assms(3) by (cases p) auto
  from assms(1) have s: "s = odd (b div 2 ^ (p - 1 + w))" and ex: "?ex \<noteq> 2 ^ w - 1"
    and me: "m = (if ?ex = 0 then ?fr else 2 ^ (p - 1) + ?fr)"
      "e = (if ?ex = 0 then emin p w else emin p w + int ?ex - 1)"
    unfolding unpack_bits_ieee_def Let_def by (auto split: if_splits)
  have exb': "?ex < 2 ^ w - 1" using exb ex by linarith
  moreover have "int (2 ^ w - 1) = 2 ^ w - 1" by (simp add: of_nat_diff)
  ultimately have "int ?ex < 2 ^ w - 1" by linarith
  then show "e \<le> emin p w + (2 ^ w - 3) \<or> e = emin p w"
    using me(2) by (auto split: if_splits)
  show "m < 2 ^ p"
    unfolding me(1) pp using frb by (simp only: split: if_split) linarith
  show "emin p w \<le> e" using me(2) by (auto split: if_splits)
  show "e = emin p w" if "m < 2 ^ (p - 1)" using that me by (auto split: if_splits)
  have exm: "?ex = (if m < 2 ^ (p - 1) then 0 else nat (e - emin p w) + 1)"
    and frm: "?fr = (if m < 2 ^ (p - 1) then m else m - 2 ^ (p - 1))"
    using me frb by (auto split: if_splits)
  show "b = compose_bits p w s (if m < 2 ^ (p - 1) then 0 else nat (e - emin p w) + 1)
           (if m < 2 ^ (p - 1) then m else m - 2 ^ (p - 1))"
    using compose_surj [OF assms(2)] unfolding s exm [symmetric] frm [symmetric] .
  show "m < 2 ^ (p - 1) \<or> nat (e - emin p w) + 1 < 2 ^ w - 1"
    using exb' exm by (auto split: if_splits)
qed

text \<open>The pattern \<open>pack_f\<close> stores, as a function of the classified float.\<close>

definition narrow :: "fnum \<Rightarrow> nat result" where
  "narrow x = (case x of
       FInf s \<Rightarrow> Inr (compose_bits 24 8 s 255 0)
     | FNan s fr \<Rightarrow> Inr (compose_bits 24 8 s 255 (2 ^ 22 + fr div 2 ^ 29 mod 2 ^ 22))
     | FFin s m e \<Rightarrow> round_to_format 24 8 s m e)"

lemma pack_f_narrow: "pack_f f = bindE (narrow (classify f)) (\<lambda>b. Inr (be_bytes 4 (int b)))"
  by (simp add: pack_f_def narrow_def)

lemma emin_values: "emin 24 8 = - 149" "emin 53 11 = - 1074"
  by (simp_all add: emin_def)

lemma widen_finite:
  assumes "unpack_bits_ieee 24 8 b = FFin s m e" "b < 2 ^ 32" "0 < m"
  shows "\<exists>b' k. round_to_format 53 11 s m e = Inr b' \<and> b' < 2 ^ 64 \<and>
           unpack_bits_ieee 53 11 b' = FFin s (m * 2 ^ k) (e - int k)"
proof -
  note fin = unpack_finite [OF assms(1), unfolded emin_values]
  have m: "m < 2 ^ 24" and e: "- 149 \<le> e" "e \<le> 104"
    using fin(1-3) assms(2) by auto
  have L: "bit_len m \<le> 24" "0 < bit_len m"
    using bit_len_le [OF m] bit_len_bounds [OF assms(3)] by auto
  define q where "q = max (emin 53 11) (e + int (bit_len m) - int 53)"
  have q: "q = e + int (bit_len m) - 53" using e L by (simp add: q_def emin_values)
  have "m < 2 ^ 53" "emin 53 11 \<le> e" using m e by (simp_all add: emin_values)
  note pre = assms(3) this q_def
  have shape: "round_to_format 53 11 s m e =
      (let m1 = m * 2 ^ nat (e - q); ex = (if m1 < 2 ^ 52 then 0 else nat (q - emin 53 11) + 1)
       in if 2 ^ 11 - 1 \<le> ex then Inl OverflowError
          else Inr (compose_bits 53 11 s ex (if m1 < 2 ^ 52 then m1 else m1 - 2 ^ 52)))"
    using round_to_format_exact(1) [OF pre, of e 0 s] by (simp add: Let_def)
  have exact: "m * 2 ^ nat (e - q) < 2 ^ 53" "q \<le> e" "m * 2 ^ nat (e - q) < 2 ^ 52 \<Longrightarrow> q = emin 53 11"
    using round_to_format_exact(2-4) [OF pre, of e 0] by simp_all
  have big: "\<not> m * 2 ^ nat (e - q) < 2 ^ 52" using exact(3) q e by (auto simp: emin_values)
  define ex where "ex = nat (q - emin 53 11) + 1"
  have ex: "ex < 2 ^ 11 - 1" "0 < ex" using q e L by (simp_all add: ex_def emin_values)
  define b' where "b' = compose_bits 53 11 s ex (m * 2 ^ nat (e - q) - 2 ^ 52)"
  have fr: "m * 2 ^ nat (e - q) - 2 ^ 52 < 2 ^ 52" using exact(1) big by simp
  have "round_to_format 53 11 s m e = Inr b'"
    using shape big ex by (simp add: Let_def b'_def ex_def)
  moreover have "b' < 2 ^ 64"
    using compose_bound [of ex 11 "m * 2 ^ nat (e - q) - 2 ^ 52" 53 s] fr ex by (simp add: b'_def)
  moreover have "unpack_bits_ieee 53 11 b' = FFin s (m * 2 ^ nat (e - q)) (e - int (nat (e - q)))"
    using unpack_compose [of ex 11 "m * 2 ^ nat (e - q) - 2 ^ 52" 53 s] fr ex big exact(2) q e L
    by (simp add: b'_def ex_def emin_values)
  ultimately show ?thesis by blast
qed

lemma narrow_finite:
  assumes "unpack_bits_ieee 24 8 b = FFin s m e" "b < 2 ^ 32" "0 < m"
  shows "round_to_format 24 8 s (m * 2 ^ k) (e - int k) = Inr b"
proof -
  have b: "b < 2 ^ (24 - 1 + 8 + 1)" using assms(2) by simp
  note fin = unpack_finite [OF assms(1) b, simplified]
  define q where "q = max (emin 24 8) (e + int (bit_len m) - int 24)"
  have "q = e"
  proof (cases "m < 2 ^ 23")
    case True
    then show ?thesis
      using fin(4) bit_len_le [of m 23] by (simp add: q_def)
  next
    case False
    then have "bit_len m = 24" using bit_len_unique [of 23 m] fin(1) by simp
    then show ?thesis using fin(2) by (simp add: q_def)
  qed
  with round_to_format_exact(1) [OF assms(3) _ fin(2) q_def refl, of s k] fin(1,5,6)
  show ?thesis by (auto simp: Let_def)
qed

lemma narrow_widen:
  assumes "b < 2 ^ 32" "\<And>s fr. unpack_bits_ieee 24 8 b \<noteq> FNan s fr"
  shows "\<exists>b'. widen b = Inr b' \<and> b' < 2 ^ 64 \<and> narrow (unpack_bits_ieee 53 11 b') = Inr b"
proof (cases "unpack_bits_ieee 24 8 b")
  case (FInf s)
  then have "b = compose_bits 24 8 s 255 0"
    using compose_surj [of b 24 8] assms(1)
    by (auto simp: unpack_bits_ieee_def Let_def split: if_splits)
  with FInf show ?thesis
    using unpack_compose [of 2047 11 0 53 s] compose_bound [of 2047 11 0 53 s]
    by (simp add: widen_def narrow_def)
next
  case (FNan s fr)
  with assms(2) show ?thesis by blast
next
  case (FFin s m e)
  show ?thesis
  proof (cases "m = 0")
    case True
    have "b < 2 ^ (24 - 1 + 8 + 1)" using assms(1) by simp
    from unpack_finite(4,5) [OF FFin this] True have "b = compose_bits 24 8 s 0 0" "e = - 149"
      by (simp_all add: emin_values)
    moreover have "round_to_format 53 11 s 0 (- 149) = Inr (compose_bits 53 11 s 0 0)"
      by (simp add: round_to_format_def emin_values Let_def)
    moreover have "round_to_format 24 8 s 0 (- 1074) = Inr (compose_bits 24 8 s 0 0)"
      by (simp add: round_to_format_def emin_values Let_def round_half_even_def)
    ultimately show ?thesis
      using FFin True unpack_compose [of 0 11 0 53 s] compose_bound [of 0 11 0 53 s]
      by (simp add: widen_def narrow_def emin_values)
  next
    case False
    then show ?thesis
      using widen_finite [OF FFin assms(1)] narrow_finite [OF FFin assms(1)] FFin
      by (auto simp: widen_def narrow_def)
  qed
qed

lemma classify_word_of_nat: "b < 2 ^ 64 \<Longrightarrow> classify (word_of_nat b) = unpack_bits_ieee 53 11 b"
  by (simp add: classify_def unat_of_nat)

definition is_nan32 :: "bytes \<Rightarrow> bool" where
  "is_nan32 bs = (case unpack_bits_ieee 24 8 (nat (be_val bs)) of FNan _ _ \<Rightarrow> True | _ \<Rightarrow> False)"

lemma pack_unpack_f:
  assumes "length bs = 4" "\<not> is_nan32 bs"
  shows "\<exists>x. unpack_f bs = Inr x \<and> pack_f x = Inr bs"
proof -
  have bnd: "0 \<le> be_val bs" "be_val bs < 2 ^ 32"
    using be_val_bounds [of bs] assms(1) by simp_all
  then have "nat (be_val bs) < 2 ^ 32" by (simp add: nat_less_iff)
  moreover have "unpack_bits_ieee 24 8 (nat (be_val bs)) \<noteq> FNan s fr" for s fr
    using assms(2) by (auto simp: is_nan32_def)
  ultimately obtain b' where b': "widen (nat (be_val bs)) = Inr b'" "b' < 2 ^ 64"
      "narrow (unpack_bits_ieee 53 11 b') = Inr (nat (be_val bs))"
    using narrow_widen by blast
  then have "pack_f (word_of_nat b') = Inr (be_bytes 4 (be_val bs))"
    using bnd by (simp add: pack_f_narrow classify_word_of_nat)
  then show ?thesis
    using b'(1) assms(1) be_bytes_val [of bs] by (simp add: unpack_f_def)
qed

lemma unpack_f_total: "length bs = 4 \<Longrightarrow> \<exists>x. unpack_f bs = Inr x"
proof (cases "is_nan32 bs")
  case True
  then show "length bs = 4 \<Longrightarrow> ?thesis"
    by (auto simp: is_nan32_def unpack_f_def widen_def split: fnum.splits)
qed (use pack_unpack_f in blast)

lemma pack_f_length: "pack_f x = Inr bs \<Longrightarrow> length bs = 4"
  by (auto simp: pack_f_def)

end
