(* ===== verification/Codec_Laws.thy ===== *)
theory Codec_Laws
  imports Codec Py_Float_Laws Complex_Main
begin

text \<open>
  Laws of the register codec: the layouts are bijections between register blocks and byte
  strings, typed values survive the round trip through registers, and bit extraction picks the
  bit of the register that the word order, byte order and numbering name.
\<close>

section \<open>Windows\<close>

lemma windows_Nil [simp]: "windows k [] = []"
  by (simp add: windows.simps)

lemma windows_append: "length w = k \<Longrightarrow> 0 < k \<Longrightarrow> windows k (w @ xs) = w # windows k xs"
  by (subst windows.simps) auto

lemma windows_concat:
  "0 < k \<Longrightarrow> \<forall>w \<in> set ws. length w = k \<Longrightarrow> windows k (concat ws) = ws"
  by (induction ws) (simp_all add: windows_append)

lemma concat_windows: "0 < k \<Longrightarrow> concat (windows k xs) = xs"
proof (induction k xs rule: windows.induct)
  case (1 k xs)
  then show ?case by (cases "xs = []") (simp_all add: windows.simps [of k xs])
qed

lemma windows_length: "0 < k \<Longrightarrow> k dvd length xs \<Longrightarrow> w \<in> set (windows k xs) \<Longrightarrow> length w = k"
proof (induction k xs rule: windows.induct)
  case (1 k xs)
  show ?case
  proof (cases "xs = []")
    case False
    with 1 have "k \<le> length xs" by (simp add: dvd_imp_le)
    with 1 False show ?thesis
      by (simp add: windows.simps [of k xs]) (metis dvd_diff_nat dvd_refl length_take min.absorb2)
  qed (use 1 in simp)
qed

lemma set_windows: "w \<in> set (windows k xs) \<Longrightarrow> set w \<subseteq> set xs"
proof (induction k xs rule: windows.induct)
  case (1 k xs)
  show ?case
  proof (cases "xs = [] \<or> k = 0")
    case False
    with 1 show ?thesis
      by (auto simp: windows.simps [of k xs] dest: in_set_takeD in_set_dropD)
  qed (use 1 in \<open>auto simp: windows.simps\<close>)
qed

section \<open>Layouts\<close>

text \<open>A register value, its two bytes in the given order, and back.\<close>

abbreviation is_register :: "int \<Rightarrow> bool" where
  "is_register r \<equiv> 0 \<le> r \<and> r \<le> 0xFFFF"

definition reg_bytes :: "order \<Rightarrow> int \<Rightarrow> bytes" where
  "reg_bytes ord r = (if ord = Big then [word_of_int (r div 256), word_of_int r]
                      else [word_of_int r, word_of_int (r div 256)])"

lemma length_reg_bytes [simp]: "length (reg_bytes ord r) = 2"
  by (simp add: reg_bytes_def)

lemma int_to_bytes_register:
  "is_register r \<Longrightarrow> int_to_bytes r 2 ord False = Inr (reg_bytes ord r)"
  by (cases ord) (simp_all add: int_to_bytes_def reg_bytes_def be_bytes_2)

lemma be_val_2: "be_val [a, b] = u16 a b"
  by (simp add: be_val_def u16_def)

lemma int_from_reg_bytes: "is_register r \<Longrightarrow> int_from_bytes (reg_bytes ord r) ord False = r"
  by (cases ord) (simp_all add: int_from_bytes_def reg_bytes_def be_val_2)

lemma reg_bytes_from: "length c = 2 \<Longrightarrow> reg_bytes ord (int_from_bytes c ord False) = c"
  by (cases ord; cases c; cases "tl c")
    (auto simp: int_from_bytes_def reg_bytes_def be_val_2)

lemma int_from_2_register: "length c = 2 \<Longrightarrow> is_register (int_from_bytes c ord False)"
  by (cases ord; cases c; cases "tl c") (auto simp: int_from_bytes_def be_val_2)

text \<open>Word order, as a rearrangement of a block.\<close>

definition word_seq :: "order \<Rightarrow> 'a list \<Rightarrow> 'a list" where
  "word_seq ord xs = (if ord = Little then rev xs else xs)"

lemma word_seq_simps [simp]:
  "word_seq ord (word_seq ord xs) = xs" "length (word_seq ord xs) = length xs"
  "set (word_seq ord xs) = set xs" "map f (word_seq ord xs) = word_seq ord (map f xs)"
  by (simp_all add: word_seq_def rev_map)

lemma word_seq_nth:
  "i < length xs \<Longrightarrow> word_seq ord xs ! i = xs ! (if ord = Little then length xs - 1 - i else i)"
  by (simp add: word_seq_def rev_nth)

lemma registers_to_bytes_eq:
  "registers_to_bytes regs wo bo =
     (if \<forall>r \<in> set regs. is_register r then Inr (concat (map (reg_bytes bo) (word_seq wo regs)))
      else Inl ValueError)"
proof (cases "\<forall>r \<in> set regs. is_register r")
  case True
  then have "mapE (\<lambda>r. int_to_bytes r 2 (if bo = Big then Big else Little) False) (word_seq wo regs)
      = Inr (map (reg_bytes bo) (word_seq wo regs))"
    by (intro mapE_Inr) (cases bo; simp add: int_to_bytes_register)
  with True show ?thesis
    by (auto simp: registers_to_bytes_def word_seq_def list_ex_iff Let_def)
qed (auto simp: registers_to_bytes_def list_ex_iff)

lemma bytes_to_registers_eq:
  "bytes_to_registers raw wo bo =
     (if even (length raw) then Inr (word_seq wo (map (\<lambda>c. int_from_bytes c bo False) (windows 2 raw)))
      else Inl ValueError)"
  by (cases bo) (simp_all add: bytes_to_registers_def word_seq_def Let_def even_iff_mod_2_eq_zero)

lemma length_concat_2: "\<forall>w \<in> set ws. length w = 2 \<Longrightarrow> length (concat ws) = 2 * length ws"
  by (induction ws) simp_all

lemma bytes_to_registers_to_bytes:
  assumes "\<forall>r \<in> set regs. is_register r"
  shows "bytes_to_registers (concat (map (reg_bytes bo) (word_seq wo regs))) wo bo = Inr regs"
proof -
  have "windows 2 (concat (map (reg_bytes bo) (word_seq wo regs))) = map (reg_bytes bo) (word_seq wo regs)"
    by (rule windows_concat) simp_all
  moreover have "map (\<lambda>c. int_from_bytes c bo False) (map (reg_bytes bo) (word_seq wo regs)) = word_seq wo regs"
    unfolding map_map by (rule map_idI) (use assms in \<open>simp add: int_from_reg_bytes\<close>)
  ultimately show ?thesis
    by (simp add: bytes_to_registers_eq length_concat_2 del: word_seq_simps(4))
qed

lemma bytes_to_registers_range:
  assumes "bytes_to_registers raw wo bo = Inr regs"
  shows "\<forall>r \<in> set regs. is_register r"
proof -
  from assms have "even (length raw)" and regs: "set regs = (\<lambda>c. int_from_bytes c bo False) ` set (windows 2 raw)"
    by (auto simp: bytes_to_registers_eq split: if_splits)
  then have "length c = 2" if "c \<in> set (windows 2 raw)" for c
    using windows_length [of 2 raw c] that by simp
  then show ?thesis using regs int_from_2_register by auto
qed

lemma registers_to_bytes_to_registers:
  assumes "bytes_to_registers raw wo bo = Inr regs"
  shows "registers_to_bytes regs wo bo = Inr raw"
proof -
  from assms have ev: "even (length raw)"
    and regs: "regs = word_seq wo (map (\<lambda>c. int_from_bytes c bo False) (windows 2 raw))"
    by (auto simp: bytes_to_registers_eq split: if_splits)
  have "map (reg_bytes bo) (word_seq wo regs) = windows 2 raw"
    using ev windows_length [of 2 raw] by (simp add: regs reg_bytes_from map_idI)
  then show ?thesis
    using bytes_to_registers_range [OF assms] by (simp add: registers_to_bytes_eq concat_windows)
qed

lemma bytes_to_registers_length:
  "bytes_to_registers raw wo bo = Inr regs \<Longrightarrow> 2 * length regs = length raw"
  using registers_to_bytes_to_registers [of raw wo bo regs]
  by (auto simp: registers_to_bytes_eq length_concat_2 split: if_splits)

section \<open>Single values\<close>

lemma to_from_bytes:
  assumes "length bs = n" "0 < n"
  shows "int_to_bytes (int_from_bytes bs Big s) n Big s = Inr bs"
proof -
  have bnd: "0 \<le> be_val bs" "be_val bs < 2 ^ (8 * n)"
    using be_val_bounds [of bs] be_val_less_pow2 [of bs] assms(1) by auto
  have "be_bytes n (be_val bs - 2 ^ (8 * n)) = be_bytes n ((be_val bs - 2 ^ (8 * n)) mod 256 ^ n)"
    by (rule be_bytes_mod [symmetric])
  also have "(be_val bs - 2 ^ (8 * n)) mod 256 ^ n = be_val bs mod 256 ^ n"
    by (simp add: pow256)
  finally have wrap: "be_bytes n (be_val bs - 2 ^ (8 * n)) = bs" "be_bytes n (be_val bs) = bs"
    using be_bytes_val [of bs] assms(1) by (simp_all add: be_bytes_mod)
  have "bs \<noteq> []" using assms by auto
  then have v: "int_from_bytes bs Big s =
      (if s \<and> 2 ^ (8 * n - 1) \<le> be_val bs then be_val bs - 2 ^ (8 * n) else be_val bs)"
    by (simp add: int_from_bytes_def Let_def assms(1))
  have "be_bytes n (int_from_bytes bs Big s) = bs"
    unfolding v using wrap by simp
  moreover have "if s then - (2 ^ (8 * n - 1)) \<le> int_from_bytes bs Big s \<and> int_from_bytes bs Big s < 2 ^ (8 * n - 1)
      else 0 \<le> int_from_bytes bs Big s \<and> int_from_bytes bs Big s < 2 ^ (8 * n)"
    unfolding v using bnd pow2_half [OF assms(2)] by auto
  ultimately show ?thesis
    by (simp add: int_to_bytes_def)
qed

lemma encode_int_value_cases:
  "encode_int_value v = Inl e \<Longrightarrow> e = ValueError"
  by (cases v) (auto simp: float_is_integer_def float_to_int_def Let_def split: if_splits fnum.splits)

lemma regs_per_item_simps [simp]:
  "regs_per_item UInt16 = Inr 1" "regs_per_item Int16 = Inr 1"
  "regs_per_item UInt32 = Inr 2" "regs_per_item Int32 = Inr 2" "regs_per_item Float32 = Inr 2"
  "regs_per_item UInt64 = Inr 4" "regs_per_item Int64 = Inr 4" "regs_per_item Float64 = Inr 4"
  "regs_per_item Bit = Inl ValueError" "regs_per_item Bits = Inl ValueError"
  by (simp_all add: regs_per_item_def REGS_PER_ITEM_def)

text \<open>The integer types, with the number of registers they take and their range.\<close>

definition int_dtype :: "dtype \<Rightarrow> bool" where
  "int_dtype dt \<longleftrightarrow> dt \<in> {UInt16, Int16, UInt32, Int32, UInt64, Int64}"

definition in_int_range :: "dtype \<Rightarrow> int \<Rightarrow> bool" where
  "in_int_range dt v = (case INT_RANGES dt of None \<Rightarrow> False | Some (lo, hi) \<Rightarrow> lo \<le> v \<and> v \<le> hi)"

lemma int_dtype_ranges:
  "int_dtype dt \<Longrightarrow> \<exists>r. INT_RANGES dt = Some r" "int_dtype dt \<Longrightarrow> dt \<noteq> Float32 \<and> dt \<noteq> Float64"
  by (auto simp: int_dtype_def INT_RANGES_def)

lemma int_dtype_regs: "int_dtype dt \<Longrightarrow> \<exists>n > 0. regs_per_item dt = Inr n"
  by (auto simp: int_dtype_def)

lemma int_dtype_decode:
  "int_dtype dt \<Longrightarrow> decode_one raw dt = Inr (PInt (int_from_bytes raw Big (signed_dtype dt)))"
  by (auto simp: int_dtype_def signed_dtype_def)

text \<open>The table of ranges is the range of the two's complement representation.\<close>

lemma in_int_range_bits:
  "int_dtype dt \<Longrightarrow> regs_per_item dt = Inr n \<Longrightarrow> in_int_range dt v \<longleftrightarrow>
     (if signed_dtype dt then - (2 ^ (8 * (2 * n) - 1)) \<le> v \<and> v < 2 ^ (8 * (2 * n) - 1)
      else 0 \<le> v \<and> v < 2 ^ (8 * (2 * n)))"
  unfolding int_dtype_def
  by (elim insertE emptyE; hypsubst) (auto simp: INT_RANGES_def signed_dtype_def in_int_range_def)

lemma encode_one_int:
  assumes "int_dtype dt" "regs_per_item dt = Inr n"
  shows "encode_one v dt = bindE (encode_int_value v) (\<lambda>i.
     if in_int_range dt i then int_to_bytes i (2 * n) Big (signed_dtype dt) else Inl ValueError)"
  using int_dtype_ranges [OF assms(1)] assms(2)
  by (cases "encode_int_value v") (auto simp: encode_one_def in_int_range_def)

lemma encode_decode_int:
  assumes "int_dtype dt" "encode_int_value v = Inr i" "in_int_range dt i"
  shows "\<exists>raw. encode_one v dt = Inr raw \<and> decode_one raw dt = Inr (PInt i)"
proof -
  from int_dtype_regs [OF assms(1)] obtain n where n: "regs_per_item dt = Inr n" "0 < n" by auto
  have raw: "int_to_bytes i (2 * n) Big (signed_dtype dt) = Inr (be_bytes (2 * n) i)"
    using assms(3) in_int_range_bits [OF assms(1) n(1), of i] by (simp add: int_to_bytes_def)
  from from_to_bytes [OF raw] n(2) assms raw show ?thesis
    by (auto simp: encode_one_int [OF assms(1) n(1)] int_dtype_decode)
qed

section \<open>Blocks of values\<close>

text \<open>
  What the block operations rely on for one data type: a fixed number of bytes, a decoder that
  accepts every string of that length, and an encoder that inverts it on the \<open>faithful\<close> strings.
\<close>

locale dtype_codec =
  fixes dt :: dtype and rpi :: nat and faithful :: "bytes \<Rightarrow> bool"
  assumes rpi: "regs_per_item dt = Inr rpi" "0 < rpi"
    and encode_length: "encode_one v dt = Inr raw \<Longrightarrow> length raw = 2 * rpi"
    and decode_total: "length raw = 2 * rpi \<Longrightarrow> \<exists>v. decode_one raw dt = Inr v"
    and encode_decode: "length raw = 2 * rpi \<Longrightarrow> faithful raw \<Longrightarrow> decode_one raw dt = Inr v \<Longrightarrow>
      encode_one v dt = Inr raw"
begin

lemma encode_block_Cons:
  "encode_registers (v # vs) dt wo bo =
     bindE (encode_one v dt) (\<lambda>raw. bindE (bytes_to_registers raw wo bo) (\<lambda>regs.
       bindE (encode_registers vs dt wo bo) (\<lambda>rest. Inr (regs @ rest))))"
  by (simp add: encode_registers_def rpi bindE_assoc)

lemma decode_block_append:
  assumes "encode_one v dt = Inr raw" "bytes_to_registers raw wo bo = Inr regs"
  shows "decode_registers (regs @ rest) dt wo bo =
     bindE (decode_one raw dt) (\<lambda>u. bindE (decode_registers rest dt wo bo) (\<lambda>us. Inr (u # us)))"
proof -
  have len: "length regs = rpi"
    using bytes_to_registers_length [OF assms(2)] encode_length [OF assms(1)] by simp
  have "registers_to_bytes regs wo bo = Inr raw"
    by (rule registers_to_bytes_to_registers [OF assms(2)])
  with len rpi show ?thesis
    using decode_total [OF encode_length [OF assms(1)]]
    by (auto simp: decode_registers_def windows_append)
qed

text \<open>Decoding an encoded block decodes each value's own bytes.\<close>

lemma decode_encode_block:
  "encode_registers vs dt wo bo = Inr regs \<Longrightarrow>
   decode_registers regs dt wo bo = mapE (\<lambda>v. bindE (encode_one v dt) (\<lambda>raw. decode_one raw dt)) vs"
proof (induction vs arbitrary: regs)
  case Nil
  then show ?case by (auto simp: encode_registers_def decode_registers_def rpi)
next
  case (Cons v vs)
  then show ?case by (auto simp: encode_block_Cons decode_block_append)
qed

lemma encode_block_shape:
  "encode_registers vs dt wo bo = Inr regs \<Longrightarrow>
   length regs = rpi * length vs \<and> (\<forall>r \<in> set regs. is_register r)"
proof (induction vs arbitrary: regs)
  case Nil
  then show ?case by (auto simp: encode_registers_def rpi)
next
  case (Cons v vs)
  from Cons.prems obtain raw rs rest where h: "encode_one v dt = Inr raw"
      "bytes_to_registers raw wo bo = Inr rs" "encode_registers vs dt wo bo = Inr rest" "regs = rs @ rest"
    by (auto simp: encode_block_Cons)
  then show ?case
    using Cons.IH [OF h(3)] bytes_to_registers_length [OF h(2)] encode_length [OF h(1)]
      bytes_to_registers_range [OF h(2)] by auto
qed

lemma decode_window:
  assumes "length w = rpi" "\<forall>r \<in> set w. is_register r"
  shows "\<exists>raw v. registers_to_bytes w wo bo = Inr raw \<and> length raw = 2 * rpi \<and>
    bytes_to_registers raw wo bo = Inr w \<and> decode_one raw dt = Inr v"
proof -
  let ?raw = "concat (map (reg_bytes bo) (word_seq wo w))"
  have "length ?raw = 2 * rpi" using assms(1) by (simp add: length_concat_2 del: word_seq_simps(4))
  with decode_total [OF this] assms bytes_to_registers_to_bytes [OF assms(2)] show ?thesis
    by (auto simp: registers_to_bytes_eq)
qed

text \<open>Every block of registers of the right size decodes, and encoding gives the block back.\<close>

lemma encode_decode_block:
  assumes "rpi dvd length regs" "\<forall>r \<in> set regs. is_register r"
    and "\<And>w raw. w \<in> set (windows rpi regs) \<Longrightarrow> registers_to_bytes w wo bo = Inr raw \<Longrightarrow> faithful raw"
  shows "\<exists>vs. decode_registers regs dt wo bo = Inr vs \<and> length vs = length regs div rpi \<and>
    encode_registers vs dt wo bo = Inr regs"
proof -
  define one where "one = (\<lambda>w. bindE (registers_to_bytes w wo bo) (\<lambda>raw. decode_one raw dt))"
  have block: "\<exists>vs. mapE one ws = Inr vs \<and> length vs = length ws \<and> encode_registers vs dt wo bo = Inr (concat ws)"
    if "\<And>w. w \<in> set ws \<Longrightarrow> length w = rpi \<and> (\<forall>r \<in> set w. is_register r) \<and>
      (\<forall>raw. registers_to_bytes w wo bo = Inr raw \<longrightarrow> faithful raw)" for ws
    using that
  proof (induction ws)
    case Nil
    then show ?case by (simp add: encode_registers_def rpi)
  next
    case (Cons w ws)
    then obtain vs where vs: "mapE one ws = Inr vs" "length vs = length ws"
        "encode_registers vs dt wo bo = Inr (concat ws)" by auto
    from Cons.prems [of w] decode_window [of w wo bo] obtain raw v where
      "registers_to_bytes w wo bo = Inr raw" "length raw = 2 * rpi"
      "bytes_to_registers raw wo bo = Inr w" "decode_one raw dt = Inr v" "faithful raw" by auto
    with vs encode_decode [of raw v] show ?case by (simp add: one_def encode_block_Cons)
  qed
  obtain vs where "mapE one (windows rpi regs) = Inr vs" "length vs = length (windows rpi regs)"
      "encode_registers vs dt wo bo = Inr (concat (windows rpi regs))"
    using block [of "windows rpi regs"] windows_length [OF rpi(2) assms(1)] set_windows assms(2,3) by blast
  moreover have "rpi * length (windows rpi regs) = length regs"
    using encode_block_shape calculation concat_windows [OF rpi(2), of regs] by fastforce
  ultimately show ?thesis
    using assms(1) rpi concat_windows [OF rpi(2), of regs]
    by (auto simp: decode_registers_def one_def)
qed

lemma decode_block_error:
  assumes "decode_registers regs dt wo bo = Inl e"
  shows "e = ValueError"
proof (cases "rpi dvd length regs")
  case True
  have "bindE (registers_to_bytes w wo bo) (\<lambda>raw. decode_one raw dt) \<noteq> Inl e"
    if "w \<in> set (windows rpi regs)" "e \<noteq> ValueError" for w
  proof (cases "\<forall>r \<in> set w. is_register r")
    case True
    with decode_window [of w wo bo] windows_length [OF rpi(2) \<open>rpi dvd length regs\<close> that(1)]
    show ?thesis by auto
  qed (use that in \<open>auto simp: registers_to_bytes_eq\<close>)
  with assms True show ?thesis
    by (auto simp: decode_registers_def rpi dest!: mapE_eq_Inl)
qed (use assms in \<open>simp add: decode_registers_def rpi mod_eq_0_iff_dvd\<close>)

end

text \<open>The contract holds for each of the eight numeric data types.\<close>

lemma int_dtype_codec:
  assumes "int_dtype dt" "regs_per_item dt = Inr n"
  shows "dtype_codec dt n (\<lambda>_. True)"
proof
  show "regs_per_item dt = Inr n" "0 < n" using assms int_dtype_regs [OF assms(1)] by auto
  show "encode_one v dt = Inr raw \<Longrightarrow> length raw = 2 * n" for v raw
    by (auto simp: encode_one_int [OF assms] dest: int_to_bytes_length split: if_splits)
  show "\<exists>v. decode_one raw dt = Inr v" for raw
    by (simp add: int_dtype_decode assms(1))
  show "encode_one v dt = Inr raw" if "length raw = 2 * n" "decode_one raw dt = Inr v" for raw v
  proof -
    have t: "int_to_bytes (int_from_bytes raw Big (signed_dtype dt)) (2 * n) Big (signed_dtype dt) = Inr raw"
      using that(1) \<open>0 < n\<close> by (intro to_from_bytes) simp_all
    moreover have "in_int_range dt (int_from_bytes raw Big (signed_dtype dt))"
      unfolding in_int_range_bits [OF assms] using t by (auto simp: int_to_bytes_def split: if_splits)
    ultimately show ?thesis
      using that(2) by (auto simp: int_dtype_decode [OF assms(1)] encode_one_int [OF assms])
  qed
qed

interpretation uint16: dtype_codec UInt16 1 "\<lambda>_. True"
  by (rule int_dtype_codec) (simp_all add: int_dtype_def)

interpretation int16: dtype_codec Int16 1 "\<lambda>_. True"
  by (rule int_dtype_codec) (simp_all add: int_dtype_def)

interpretation uint32: dtype_codec UInt32 2 "\<lambda>_. True"
  by (rule int_dtype_codec) (simp_all add: int_dtype_def)

interpretation int32: dtype_codec Int32 2 "\<lambda>_. True"
  by (rule int_dtype_codec) (simp_all add: int_dtype_def)

interpretation uint64: dtype_codec UInt64 4 "\<lambda>_. True"
  by (rule int_dtype_codec) (simp_all add: int_dtype_def)

interpretation int64: dtype_codec Int64 4 "\<lambda>_. True"
  by (rule int_dtype_codec) (simp_all add: int_dtype_def)

interpretation float32: dtype_codec Float32 2 "\<lambda>raw. \<not> is_nan32 raw"
proof
  show "\<exists>v. decode_one raw Float32 = Inr v" if "length raw = 2 * 2" for raw
    using unpack_f_total [of raw] that by auto
  show "encode_one v Float32 = Inr raw"
    if "length raw = 2 * 2" "\<not> is_nan32 raw" "decode_one raw Float32 = Inr v" for raw v
    using pack_unpack_f [of raw] that by (auto simp: encode_one_def)
qed (auto simp: encode_one_def dest: pack_f_length)

interpretation float64: dtype_codec Float64 4 "\<lambda>_. True"
proof
  show "\<exists>v. decode_one raw Float64 = Inr v" if "length raw = 2 * 4" for raw
    using pack_unpack_d [of raw] that by auto
  show "encode_one v Float64 = Inr raw" if "length raw = 2 * 4" "decode_one raw Float64 = Inr v" for raw v
    using pack_unpack_d [of raw] that by (auto simp: encode_one_def)
qed (auto simp: encode_one_def)

lemma decode_encode_registers:
  "encode_registers vs dt wo bo = Inr regs \<Longrightarrow>
   decode_registers regs dt wo bo = mapE (\<lambda>v. bindE (encode_one v dt) (\<lambda>raw. decode_one raw dt)) vs"
  by (cases dt)
    (simp_all only: uint16.decode_encode_block int16.decode_encode_block uint32.decode_encode_block
      int32.decode_encode_block uint64.decode_encode_block int64.decode_encode_block
      float32.decode_encode_block float64.decode_encode_block,
     simp_all add: encode_registers_def)

lemma encode_registers_shape:
  "encode_registers vs dt wo bo = Inr regs \<Longrightarrow> regs_per_item dt = Inr n \<Longrightarrow>
   length regs = n * length vs \<and> (\<forall>r \<in> set regs. is_register r)"
  by (cases dt)
    (auto dest: uint16.encode_block_shape int16.encode_block_shape uint32.encode_block_shape
      int32.encode_block_shape uint64.encode_block_shape int64.encode_block_shape
      float32.encode_block_shape float64.encode_block_shape)

lemma decode_registers_error: "decode_registers regs dt wo bo = Inl e \<Longrightarrow> e = ValueError"
  by (cases dt)
    (auto dest: uint16.decode_block_error int16.decode_block_error uint32.decode_block_error
      int32.decode_block_error uint64.decode_block_error int64.decode_block_error
      float32.decode_block_error float64.decode_block_error, simp_all add: decode_registers_def)

lemma registers_to_int_error: "registers_to_int regs wo bo = Inl e \<Longrightarrow> e = ValueError"
  by (auto simp: registers_to_int_def registers_to_bytes_eq bindE_eq_Inl split: if_splits)

lemma extract_bit_error: "extract_bit regs i wo bo num = Inl e \<Longrightarrow> e = ValueError"
  by (auto simp: extract_bit_def resolve_pos_def bindE_eq_Inl split: if_splits
      dest: registers_to_int_error)

lemma extract_bits_error: "extract_bits regs is wo bo num = Inl e \<Longrightarrow> e = ValueError"
  by (auto simp: extract_bits_def resolve_pos_def bindE_eq_Inl split: if_splits
      dest!: mapE_eq_Inl dest: registers_to_int_error)

section \<open>Bits\<close>

lemma bit_mult_256_add:
  fixes v u :: int
  assumes "0 \<le> u" "u < 256"
  shows "bit (v * 256 + u) p = (if p < 8 then bit u p else bit v (p - 8))"
proof -
  have "take_bit 8 (v * 256 + u) = u" "drop_bit 8 (v * 256 + u) = v"
    using assms by (simp_all add: take_bit_eq_mod drop_bit_eq_div)
  then show ?thesis
    by (metis bit_drop_bit_eq bit_take_bit_iff comp_apply le_add_diff_inverse not_le)
qed

lemma bit_be_val:
  "p < 8 * length bs \<Longrightarrow> bit (be_val bs) p = bit (bs ! (length bs - 1 - p div 8)) (p mod 8)"
proof (induction bs arbitrary: p rule: rev_induct)
  case Nil
  then show ?case by simp
next
  case (snoc b bs)
  show ?case
  proof (cases "p < 8")
    case True
    then show ?thesis by (simp add: bit_mult_256_add bit_uint_iff)
  next
    case False
    then have "(p - 8) div 8 = p div 8 - 1" "(p - 8) mod 8 = p mod 8" "0 < p div 8" "p div 8 \<le> length bs"
      using snoc.prems by (simp_all add: le_div_geq le_mod_geq)
    moreover from this have "length bs - p div 8 < length bs" by linarith
    moreover have "p - 8 < 8 * length bs" using snoc.prems False by simp
    ultimately show ?thesis
      using snoc.IH [of "p - 8"] False by (simp add: bit_mult_256_add nth_append)
  qed
qed

lemma nth_concat_2:
  "\<forall>w \<in> set ws. length w = 2 \<Longrightarrow> i < length ws \<Longrightarrow> j < 2 \<Longrightarrow> concat ws ! (2 * i + j) = ws ! i ! j"
proof (induction ws arbitrary: i)
  case Nil
  then show ?case by simp
next
  case (Cons w ws)
  then show ?case by (cases i) (simp_all add: nth_append)
qed

lemma bit_reg_byte:
  assumes "is_register r" "j < 8"
  shows "bit (word_of_int r :: byte) j = bit r j" "bit (word_of_int (r div 256) :: byte) j = bit r (j + 8)"
proof -
  have "r div 256 = drop_bit 8 r" by (simp add: drop_bit_eq_div)
  then show "bit (word_of_int (r div 256) :: byte) j = bit r (j + 8)"
    using assms(2) by (simp add: bit_word_of_int_iff bit_drop_bit_eq add.commute)
  show "bit (word_of_int r :: byte) j = bit r j"
    using assms(2) by (simp add: bit_word_of_int_iff)
qed

text \<open>The register and the bit of it that a position of the assembled integer stands for.\<close>

definition bit_register :: "order \<Rightarrow> nat \<Rightarrow> nat \<Rightarrow> nat" where
  "bit_register wo n p = (if wo = Little then p div 16 else n - 1 - p div 16)"

definition bit_in_register :: "order \<Rightarrow> nat \<Rightarrow> nat" where
  "bit_in_register bo p = (if bo = Little then (p + 8) mod 16 else p mod 16)"

lemma mod_16: "(p :: nat) mod 16 = 8 * (p div 8 mod 2) + p mod 8"
  using mod_mult2_eq [of p 8 2] by simp

lemma div_8: "(p :: nat) div 8 = 2 * (p div 16) + p div 8 mod 2"
  using div_mult2_eq [of p 8 2] by simp

lemma pair_index: "(x :: nat) = 2 * y + z \<Longrightarrow> z < 2 \<Longrightarrow> y < n \<Longrightarrow> 2 * n - 1 - x = 2 * (n - 1 - y) + (1 - z)"
  by arith

lemma bit_registers_to_int:
  assumes "\<forall>r \<in> set regs. is_register r" "p < 16 * length regs"
  shows "\<exists>v. registers_to_int regs wo bo = Inr v \<and>
    bit v p = bit (regs ! bit_register wo (length regs) p) (bit_in_register bo p)"
proof -
  let ?n = "length regs" and ?ws = "map (reg_bytes bo) (word_seq wo regs)"
  let ?i = "?n - 1 - p div 16" and ?j = "1 - p div 8 mod 2"
  have i: "?i < ?n" "p div 16 < ?n" using assms(2) by auto
  have j: "?j < 2" by simp
  have len: "length (concat ?ws) = 2 * ?n" by (simp add: length_concat_2 del: word_seq_simps(4))
  have idx: "2 * ?n - 1 - p div 8 = 2 * ?i + ?j"
    by (rule pair_index [OF div_8 _ i(2)]) simp
  have "concat ?ws ! (2 * ?i + ?j) = ?ws ! ?i ! ?j"
    by (rule nth_concat_2) (use i j in auto)
  moreover have "bit (be_val (concat ?ws)) p = bit (concat ?ws ! (2 * ?n - 1 - p div 8)) (p mod 8)"
    using bit_be_val [of p "concat ?ws"] assms(2) unfolding len by simp
  ultimately have "bit (be_val (concat ?ws)) p = bit (?ws ! ?i ! ?j) (p mod 8)"
    by (simp only: idx)
  also have "?ws ! ?i = reg_bytes bo (regs ! bit_register wo ?n p)"
    using i by (auto simp: word_seq_nth bit_register_def simp del: word_seq_simps(4))
  also have "bit (reg_bytes bo (regs ! bit_register wo ?n p) ! ?j) (p mod 8)
      = bit (regs ! bit_register wo ?n p) (bit_in_register bo p)"
  proof -
    have "is_register (regs ! bit_register wo ?n p)"
      using assms(1) i by (simp add: bit_register_def)
    note b = bit_reg_byte [OF this, of "p mod 8", simplified]
    have "p mod 8 < 8" by simp
    then show ?thesis
    proof (cases "p div 8 mod 2 = 0")
      case True
      then have "p mod 16 = p mod 8" by (simp add: mod_16)
      moreover from this have "(p + 8) mod 16 = p mod 8 + 8"
        using mod_add_left_eq [of p 16 8] \<open>p mod 8 < 8\<close> by (metis add_less_cancel_right mod_less numeral_Bit0 numeral_code(2))
      ultimately show ?thesis using b True by (cases bo) (simp_all add: reg_bytes_def bit_in_register_def)
    next
      case False
      then have "p mod 16 = p mod 8 + 8" by (simp add: mod_16)
      moreover from this have "(p + 8) mod 16 = p mod 8"
        using mod_add_left_eq [of p 16 8] \<open>p mod 8 < 8\<close> by simp
      ultimately show ?thesis using b False by (cases bo) (simp_all add: reg_bytes_def bit_in_register_def)
    qed
  qed
  finally show ?thesis
    using assms(1) by (simp add: registers_to_int_def registers_to_bytes_eq int_from_bytes_unsigned)
qed

section \<open>Properties\<close>

text \<open>
  The four layouts are bijections.  For every word order and byte order, flattening a register
  block to bytes and reading the bytes back gives the block, the other way round any byte string of
  even length survives, and a value that is no register or an odd byte count is a \<open>ValueError\<close>.
\<close>

theorem register_layout_bijective:
  "bindE (registers_to_bytes regs wo bo) (\<lambda>raw. bytes_to_registers raw wo bo) =
     (if \<forall>r \<in> set regs. 0 \<le> r \<and> r \<le> 0xFFFF then Inr regs else Inl ValueError) \<and>
   bindE (bytes_to_registers raw wo bo) (\<lambda>rs. registers_to_bytes rs wo bo) =
     (if even (length raw) then Inr raw else Inl ValueError)"
proof -
  have "bindE (registers_to_bytes regs wo bo) (\<lambda>raw. bytes_to_registers raw wo bo) =
      (if \<forall>r \<in> set regs. is_register r then Inr regs else Inl ValueError)"
    by (simp add: registers_to_bytes_eq bytes_to_registers_to_bytes del: word_seq_simps(4))
  moreover have "bindE (bytes_to_registers raw wo bo) (\<lambda>rs. registers_to_bytes rs wo bo) =
      (if even (length raw) then Inr raw else Inl ValueError)"
    using registers_to_bytes_to_registers [of raw wo bo]
    by (cases "bytes_to_registers raw wo bo") (auto simp: bytes_to_registers_eq split: if_splits)
  ultimately show ?thesis by simp
qed

theorem register_layout_bijective_witness:
  "bindE (registers_to_bytes [1, 0xABCD] Little Big) (\<lambda>raw. bytes_to_registers raw Little Big) = Inr [1, 0xABCD]"
  using register_layout_bijective [of "[1, 0xABCD]" Little Big "[]"] by simp

text \<open>
  The meaning of the four layouts of a 32-bit value.  With the registers' bytes \<open>a b\<close> and
  \<open>c d\<close> in wire order, the decoded number is the big-endian number of the bytes taken in the order
  ABCD, CDAB, BADC or DCBA that the word order and the byte order select.
\<close>

theorem layout_abcd:
  "decode_registers [u16 a b, u16 c d] UInt32 wo bo =
     Inr [PInt (be_val (case (wo, bo) of
        (Big, Big) \<Rightarrow> [a, b, c, d] | (Little, Big) \<Rightarrow> [c, d, a, b]
      | (Big, Little) \<Rightarrow> [b, a, d, c] | (Little, Little) \<Rightarrow> [d, c, b, a]))]"
proof -
  have "windows 2 [u16 a b, u16 c d] = [[u16 a b, u16 c d]]"
    using windows_append [of "[u16 a b, u16 c d]" 2 "[]"] by simp
  then show ?thesis
    by (cases wo; cases bo)
      (simp_all add: decode_registers_def registers_to_bytes_eq word_seq_def reg_bytes_def
        int_from_bytes_unsigned)
qed

section \<open>Values of numbers\<close>

text \<open>
  The reference for the integers in a register block: the number that a Python value denotes, of a float the
  value that IEEE-754 gives to the fields of the binary64 pattern (none for an infinity or a NaN), and the
  numbers that a data type can hold in two's complement.
\<close>

definition float_value :: "pyfloat \<Rightarrow> rat option" where
  "float_value f =
     (let b = unat f; sign = (if odd (b div 2 ^ 63) then - 1 else 1); ex = b div 2 ^ 52 mod 2 ^ 11; fr = of_nat (b mod 2 ^ 52)
      in if ex = 2047 then None
         else if ex = 0 then Some (sign * fr / 2 ^ 1074)
         else Some (sign * (2 ^ 52 + fr) * 2 ^ ex / 2 ^ 1075))"

fun number_value :: "pyval \<Rightarrow> rat option" where
  "number_value (PInt i) = Some (of_int i)"
| "number_value (PBool b) = Some (if b then 1 else 0)"
| "number_value (PFloat f) = float_value f"

fun representable :: "dtype \<Rightarrow> int \<Rightarrow> bool" where
  "representable UInt16 i \<longleftrightarrow> 0 \<le> i \<and> i < 2 ^ 16"
| "representable Int16 i \<longleftrightarrow> - (2 ^ 15) \<le> i \<and> i < 2 ^ 15"
| "representable UInt32 i \<longleftrightarrow> 0 \<le> i \<and> i < 2 ^ 32"
| "representable Int32 i \<longleftrightarrow> - (2 ^ 31) \<le> i \<and> i < 2 ^ 31"
| "representable UInt64 i \<longleftrightarrow> 0 \<le> i \<and> i < 2 ^ 64"
| "representable Int64 i \<longleftrightarrow> - (2 ^ 63) \<le> i \<and> i < 2 ^ 63"
| "representable _ i \<longleftrightarrow> False"

lemma representable_range: "representable dt i \<longleftrightarrow> int_dtype dt \<and> in_int_range dt i"
  by (cases dt) (auto simp: int_dtype_def in_int_range_def INT_RANGES_def)

text \<open>The value of the fields, whatever the sign of the exponent.\<close>

lemma power_quotient:
  "(x :: rat) * 2 ^ n / 2 ^ k = (if int k \<le> int n then x * 2 ^ nat (int n - int k) else x / 2 ^ nat (int k - int n))"
proof (cases "k \<le> n")
  case True
  then have "(2 :: rat) ^ n = 2 ^ (n - k) * 2 ^ k" by (simp flip: power_add)
  with True show ?thesis by (simp add: nat_diff_distrib)
next
  case False
  then have "(2 :: rat) ^ k = 2 ^ (k - n) * 2 ^ n" by (simp flip: power_add)
  with False show ?thesis by (simp add: nat_diff_distrib)
qed

lemma float_value_classify:
  "float_value f = (case classify f of
     FFin s m e \<Rightarrow> Some ((if s then - 1 else 1) * (if 0 \<le> e then of_nat m * 2 ^ nat e else of_nat m / 2 ^ nat (- e))) | _ \<Rightarrow> None)"
proof -
  define ex where "ex = unat f div 2 ^ 52 mod 2 ^ 11"
  define fr where "fr = unat f mod 2 ^ 52"
  define s where "s = odd (unat f div 2 ^ 63)"
  have cls: "classify f = (if ex = 2047 then if fr = 0 then FInf s else FNan s fr
      else if ex = 0 then FFin s fr (- 1074) else FFin s (2 ^ 52 + fr) (int ex - 1075))"
    by (simp add: classify_def unpack_bits_ieee_def Let_def ex_def fr_def s_def emin_def)
  have val: "float_value f = (if ex = 2047 then None else if ex = 0 then Some ((if s then - 1 else 1) * of_nat fr / 2 ^ 1074)
      else Some ((if s then - 1 else 1) * (2 ^ 52 + of_nat fr) * 2 ^ ex / 2 ^ 1075))"
    by (simp add: float_value_def Let_def ex_def fr_def s_def)
  show ?thesis unfolding cls val power_quotient [of _ ex 1075] by simp
qed

text \<open>An integral fraction, and its value.\<close>

lemma quotient_integral:
  "of_nat m / 2 ^ k = (of_int i :: rat) \<longleftrightarrow> 2 ^ k dvd m \<and> i = int (m div 2 ^ k)"
proof
  assume "of_nat m / 2 ^ k = (of_int i :: rat)"
  then have "of_int (int m) = (of_int (i * 2 ^ k) :: rat)" by (simp add: divide_eq_eq)
  then have m: "int m = i * 2 ^ k" by (simp only: of_int_eq_iff)
  then have "int (2 ^ k) dvd int m" by simp
  then have "2 ^ k dvd m" by (simp only: int_dvd_int_iff)
  moreover have "int (m div 2 ^ k) = i" using m by (simp add: zdiv_int)
  ultimately show "2 ^ k dvd m \<and> i = int (m div 2 ^ k)" by simp
next
  assume "2 ^ k dvd m \<and> i = int (m div 2 ^ k)"
  then obtain d where "m = 2 ^ k * d" "i = int d" by auto
  then show "of_nat m / 2 ^ k = (of_int i :: rat)" by simp
qed

lemma encode_int_value_denotes: "encode_int_value v = Inr i \<longleftrightarrow> number_value v = Some (of_int i)"
proof (cases v)
  case (PFloat f)
  show ?thesis
  proof (cases "classify f")
    case (FFin s m e)
    have neg: "- x = (of_int i :: rat) \<longleftrightarrow> x = of_int (- i)" for x i by auto
    have big: "of_nat m * 2 ^ nat e = (of_int i :: rat) \<longleftrightarrow> int m * 2 ^ nat e = i" for i
    proof -
      have "of_nat m * 2 ^ nat e = (of_int (int m * 2 ^ nat e) :: rat)" by simp
      then show ?thesis by (simp only: of_int_eq_iff)
    qed
    show ?thesis using FFin PFloat
      by (cases s; cases "0 \<le> e")
        (auto simp: float_value_classify float_is_integer_def float_isnan_def float_isinf_def float_to_int_def neg big
          quotient_integral dvd_eq_mod_eq_0 simp del: of_int_minus)
  qed (use PFloat in \<open>simp_all add: float_value_classify float_is_integer_def\<close>)
qed auto

lemma int_registers_encoded:
  assumes "int_dtype dt"
  shows "bindE (encode_registers vs dt wo bo) (\<lambda>regs. decode_registers regs dt wo bo) =
     (if \<forall>v \<in> set vs. \<exists>i. encode_int_value v = Inr i \<and> in_int_range dt i
      then bindE (mapE encode_int_value vs) (\<lambda>is. Inr (map PInt is)) else Inl ValueError)"
proof -
  from int_dtype_regs [OF assms] obtain n where n: "regs_per_item dt = Inr n" "0 < n" by auto
  then have "dtype_codec dt n (\<lambda>_. True)" using assms by (intro int_dtype_codec)
  note Cons_eq = dtype_codec.encode_block_Cons [OF this]
    and append_eq = dtype_codec.decode_block_append [OF this]
  show ?thesis
  proof (induction vs)
    case Nil
    then show ?case by (simp add: encode_registers_def decode_registers_def n)
  next
    case (Cons v vs)
    show ?case
    proof (cases "\<exists>i. encode_int_value v = Inr i \<and> in_int_range dt i")
      case True
      then obtain i raw where i: "encode_int_value v = Inr i" "in_int_range dt i"
        and raw: "encode_one v dt = Inr raw" "decode_one raw dt = Inr (PInt i)"
        using encode_decode_int [OF assms] by blast
      from raw(1) have "length raw = 2 * n"
        by (auto simp: encode_one_int [OF assms n(1)] dest: int_to_bytes_length split: if_splits)
      then obtain regs where regs: "bytes_to_registers raw wo bo = Inr regs"
        by (simp add: bytes_to_registers_eq)
      have "bindE (encode_registers (v # vs) dt wo bo) (\<lambda>regs. decode_registers regs dt wo bo) =
          bindE (bindE (encode_registers vs dt wo bo) (\<lambda>regs. decode_registers regs dt wo bo))
            (\<lambda>us. Inr (PInt i # us))"
        by (simp add: Cons_eq bindE_assoc raw regs append_eq [OF raw(1) regs])
      then show ?thesis unfolding Cons.IH using i by (auto simp: bindE_assoc)
    next
      case False
      then have "encode_one v dt = Inl ValueError"
        using encode_int_value_cases [of v]
        by (cases "encode_int_value v") (auto simp: encode_one_int [OF assms n(1)])
      with False show ?thesis by (auto simp: Cons_eq)
    qed
  qed
qed

text \<open>
  C15: integers survive the trip through registers.  For each of the six integer data types and each
  layout, encoding succeeds exactly if every value denotes an integer that the type can hold: an integer, a
  bool, or a float whose IEEE-754 value is that integer.  Decoding the registers then gives those integers
  back; otherwise encoding is a \<open>ValueError\<close>, for a fraction, an infinity or a NaN as for a value out of range.
\<close>

theorem int_registers_roundtrip:
  assumes "int_dtype dt"
  shows "bindE (encode_registers vs dt wo bo) (\<lambda>regs. decode_registers regs dt wo bo) =
     (if \<forall>v \<in> set vs. \<exists>i. number_value v = Some (of_int i) \<and> representable dt i
      then Inr (map (\<lambda>v. PInt \<lfloor>the (number_value v)\<rfloor>) vs) else Inl ValueError)"
proof -
  have "mapE encode_int_value vs = Inr (map (\<lambda>v. \<lfloor>the (number_value v)\<rfloor>) vs)"
    if "\<forall>v \<in> set vs. \<exists>i. encode_int_value v = Inr i \<and> in_int_range dt i"
    using that by (intro mapE_Inr) (auto simp: encode_int_value_denotes)
  with int_registers_encoded [OF assms, of vs wo bo] assms show ?thesis
    by (simp add: encode_int_value_denotes representable_range comp_def)
qed

theorem int_registers_roundtrip_witness:
  "bindE (encode_registers [PInt (- 2), PBool True, PFloat 0x4008000000000000] Int32 Little Big)
     (\<lambda>regs. decode_registers regs Int32 Little Big) = Inr [PInt (- 2), PInt 1, PInt 3] \<and>
   bindE (encode_registers [PFloat 0x4009000000000000] Int32 Little Big)
     (\<lambda>regs. decode_registers regs Int32 Little Big) = Inl ValueError"
proof -
  have three: "float_value 0x4008000000000000 = Some 3" and frac: "float_value 0x4009000000000000 = Some (25 / 8)"
    by (simp_all add: float_value_def Let_def)
  have no: "25 / 8 \<noteq> (of_int i :: rat)" for i
    using quotient_integral [of 25 3 i] by simp
  have ok: "\<exists>i. (3 :: rat) = of_int i \<and> representable Int32 i" by (rule exI [of _ 3]) simp
  have ok': "\<exists>i. (1 :: rat) = of_int i \<and> representable Int32 i" by (rule exI [of _ 1]) simp
  have ok'': "\<exists>i. (- 2 :: rat) = of_int i \<and> representable Int32 i" by (rule exI [of _ "- 2"]) simp
  show ?thesis
    using int_registers_roundtrip [of Int32 "[PInt (- 2), PBool True, PFloat 0x4008000000000000]" Little Big]
      int_registers_roundtrip [of Int32 "[PFloat 0x4009000000000000]" Little Big] ok ok' ok'' no
    by (simp add: int_dtype_def three frac)
qed

text \<open>
  C16: decoding loses nothing.  For all eight numeric data types and every layout, a register block
  whose length is a multiple of the item size decodes to that many values, and encoding the values
  gives exactly the registers back, IEEE-754 floats included; only the payload of a 32-bit NaN may
  change.
\<close>

theorem decode_encode_lossless:
  assumes "regs_per_item dt = Inr n" "n dvd length regs" "\<forall>r \<in> set regs. 0 \<le> r \<and> r \<le> 0xFFFF"
    and "dt = Float32 \<Longrightarrow> \<forall>w \<in> set (windows 2 regs). \<forall>raw. registers_to_bytes w wo bo = Inr raw \<longrightarrow> \<not> is_nan32 raw"
  shows "\<exists>vs. decode_registers regs dt wo bo = Inr vs \<and> length vs = length regs div n \<and>
    encode_registers vs dt wo bo = Inr regs"
proof (cases "dt = Float32")
  case True
  with assms show ?thesis by (auto intro!: float32.encode_decode_block)
next
  case False
  show ?thesis
  proof (cases "dt = Float64")
    case True
    with assms show ?thesis by (auto intro!: float64.encode_decode_block)
  next
    case False
    with \<open>dt \<noteq> Float32\<close> assms(1) have "int_dtype dt" by (cases dt) (auto simp: int_dtype_def)
    from dtype_codec.encode_decode_block [OF int_dtype_codec [OF this assms(1)]] assms
    show ?thesis by simp
  qed
qed

theorem decode_encode_lossless_witness:
  "\<exists>vs. decode_registers [0x3FC0, 0] Float32 Big Big = Inr vs \<and> length vs = 1 \<and>
    encode_registers vs Float32 Big Big = Inr [0x3FC0, 0]"
proof -
  have w: "windows 2 [0x3FC0, 0 :: int] = [[0x3FC0, 0]]"
    using windows_append [of "[0x3FC0, 0 :: int]" 2 "[]"] by simp
  have r: "registers_to_bytes [0x3FC0, 0] Big Big = Inr [0x3F, 0xC0, 0, 0]"
    by (simp add: registers_to_bytes_eq word_seq_def reg_bytes_def)
  have "\<not> is_nan32 [0x3F, 0xC0, 0, 0]"
    by (simp add: is_nan32_def be_val_def unpack_bits_ieee_def Let_def)
  with decode_encode_lossless [of Float32 2 "[0x3FC0, 0]" Big Big] show ?thesis
    by (simp add: w r)
qed

text \<open>
  Bit extraction reads the right bit.  Bit \<open>i\<close> of a block of \<open>n\<close> registers is, in
  \<open>lsb_first\<close> numbering, bit \<open>i mod 16\<close> of the register that holds the word (the last one first for
  big word order), with the halves of the register exchanged for little byte order; \<open>msb_first\<close>
  counts from the other end.  An empty block, an index outside the block or a value that is no
  register is a \<open>ValueError\<close>, and \<open>extract_bits\<close> is \<open>extract_bit\<close> index by index.
\<close>

theorem extract_bit_correct:
  "extract_bit regs i wo bo num =
     (let n = length regs; p = nat (if num = LsbFirst then i else int n * 16 - 1 - i)
      in if 0 \<le> i \<and> i < 16 * int n \<and> (\<forall>r \<in> set regs. 0 \<le> r \<and> r \<le> 0xFFFF)
         then Inr (bit (regs ! bit_register wo n p) (bit_in_register bo p))
         else Inl ValueError) \<and>
   (regs \<noteq> [] \<and> (\<forall>r \<in> set regs. 0 \<le> r \<and> r \<le> 0xFFFF) \<longrightarrow>
     extract_bits regs is wo bo num = mapE (\<lambda>i. extract_bit regs i wo bo num) is)"
proof -
  let ?ok = "\<forall>r \<in> set regs. is_register r"
  let ?p = "nat (if num = LsbFirst then i else int (length regs) * 16 - 1 - i)"
  have bad: "registers_to_int regs wo bo = Inl ValueError" if "\<not> ?ok"
    using that by (simp add: registers_to_int_def registers_to_bytes_eq)
  have "extract_bit regs i wo bo num =
      (if 0 \<le> i \<and> i < 16 * int (length regs) \<and> ?ok
       then Inr (bit (regs ! bit_register wo (length regs) ?p) (bit_in_register bo ?p)) else Inl ValueError)"
  proof (cases "0 \<le> i \<and> i < 16 * int (length regs)")
    case True
    then have "?p < 16 * length regs" "length regs \<noteq> 0" by auto
    with True bit_registers_to_int [of regs ?p wo bo] bad show ?thesis
      by (cases "num = LsbFirst") (auto simp: extract_bit_def resolve_pos_def)
  qed (auto simp: extract_bit_def resolve_pos_def)
  moreover have "extract_bits regs is wo bo num = mapE (\<lambda>i. extract_bit regs i wo bo num) is"
    if "regs \<noteq> []" ?ok
    using that by (auto simp: extract_bits_def extract_bit_def registers_to_int_def registers_to_bytes_eq)
  ultimately show ?thesis by (simp add: Let_def)
qed

theorem extract_bit_correct_witness:
  "extract_bit [0x8000, 1] 31 Big Big LsbFirst = Inr True \<and>
   extract_bits [0x8000, 1] [0, 1] Big Big MsbFirst =
     mapE (\<lambda>i. extract_bit [0x8000, 1] i Big Big MsbFirst) [0, 1]"
  using extract_bit_correct [of "[0x8000, 1]" 31 Big Big LsbFirst "[]"]
    extract_bit_correct [of "[0x8000, 1]" 0 Big Big MsbFirst "[0, 1]"]
  by (simp add: bit_register_def bit_in_register_def Let_def bit_iff_odd)

end
