(* ===== verification/Planner_Reads.thy ===== *)
theory Planner_Reads
  imports Planner Pdu_Laws Codec_Laws
begin

text \<open>
  Laws of the read side of the planner: merging and splitting produce disjoint chunks within the
  limits that cover exactly the requested units with the fewest requests, and the results are
  assembled per item from exactly the chunks that cover it.
\<close>

section \<open>Merging ranges\<close>

definition span :: "(int \<times> int) list \<Rightarrow> int set" where
  "span rs = (\<Union>(s, e) \<in> set rs. {s..<e})"

lemma span_simps [simp]: "span [] = {}" "span ((s, e) # rs) = {s..<e} \<union> span rs"
  by (simp_all add: span_def)

text \<open>The merge loop, with the range under construction as an argument.\<close>

fun merge_from :: "int \<times> int \<Rightarrow> (int \<times> int) list \<Rightarrow> (int \<times> int) list" where
  "merge_from c [] = [c]"
| "merge_from (cs, ce) ((s, e) # rs) =
     (if s \<le> ce then merge_from (cs, max ce e) rs else (cs, ce) # merge_from (s, e) rs)"

lemma merge_loop_eq: "merge_loop (acc @ [c]) rs = acc @ merge_from c rs"
proof (induction c rs arbitrary: acc rule: merge_from.induct)
  case (2 cs ce s e rs)
  show ?case using 2(1) [of acc] 2(2) [of "acc @ [(cs, ce)]"] by simp
qed simp

text \<open>Ranges that are not empty, in increasing order, with a gap between any two.\<close>

definition gapped :: "(int \<times> int) list \<Rightarrow> bool" where
  "gapped rs \<longleftrightarrow> sorted_wrt (\<lambda>r r'. snd r < fst r') rs \<and> (\<forall>r \<in> set rs. fst r < snd r)"

lemma merge_from_lower:
  "sorted (map fst (c # rs)) \<Longrightarrow> r \<in> set (merge_from c rs) \<Longrightarrow> fst c \<le> fst r"
proof (induction c rs rule: merge_from.induct)
  case (2 cs ce s e rs)
  then show ?case by (fastforce split: if_splits)
qed simp

lemma merge_from_correct:
  "sorted (map fst (c # rs)) \<Longrightarrow> \<forall>r \<in> set (c # rs). fst r < snd r \<Longrightarrow>
   gapped (merge_from c rs) \<and> span (merge_from c rs) = span (c # rs)"
proof (induction c rs rule: merge_from.induct)
  case (1 c)
  then show ?case by (simp add: gapped_def)
next
  case (2 cs ce s e rs)
  show ?case
  proof (cases "s \<le> ce")
    case True
    with 2 have "gapped (merge_from (cs, max ce e) rs) \<and>
        span (merge_from (cs, max ce e) rs) = span ((cs, max ce e) # rs)"
      by auto
    moreover have "{cs..<max ce e} = {cs..<ce} \<union> {s..<e}"
      using True 2(3,4) by auto
    ultimately show ?thesis using True by auto
  next
    case False
    with 2 have "gapped (merge_from (s, e) rs) \<and> span (merge_from (s, e) rs) = span ((s, e) # rs)"
      by auto
    moreover have "ce < fst r" if "r \<in> set (merge_from (s, e) rs)" for r
      using merge_from_lower [of "(s, e)" rs r] 2(3) False that by auto
    ultimately show ?thesis using False 2(4) by (auto simp: gapped_def)
  qed
qed

lemma sorted_map_fst: "sorted (rs :: (int \<times> int) list) \<Longrightarrow> sorted (map fst rs)"
  by (induction rs) (auto simp: less_eq_prod_def)

lemma merge_ranges_Nil [simp]: "merge_ranges [] = []"
  by (simp add: merge_ranges_def)

lemma span_set_cong: "set rs = set rs' \<Longrightarrow> span rs = span rs'"
  by (simp add: span_def)

lemma merge_ranges_correct:
  assumes "\<forall>r \<in> set rs. fst r < snd r"
  shows "gapped (merge_ranges rs) \<and> span (merge_ranges rs) = span rs"
proof (cases "sort rs")
  case Nil
  then have "rs = []" by (metis length_0_conv length_sort)
  then show ?thesis by (simp add: gapped_def)
next
  case (Cons c cs)
  have "sorted (map fst (c # cs))"
    using sorted_map_fst [OF sorted_sort [of rs]] unfolding Cons .
  moreover have set: "set (c # cs) = set rs" using Cons by (metis set_sort)
  ultimately have "gapped (merge_from c cs) \<and> span (merge_from c cs) = span (c # cs)"
    using assms by (intro merge_from_correct) auto
  moreover have "merge_ranges rs = merge_from c cs"
    using merge_loop_eq [of "[]" c cs] Cons by (simp add: merge_ranges_def)
  ultimately show ?thesis using span_set_cong [OF set] by simp
qed

section \<open>Splitting ranges\<close>

definition chunk_units :: "read_chunk \<Rightarrow> int set" where
  "chunk_units c = {rc_start c..<rc_start c + rc_count c}"

definition chunk_end :: "read_chunk \<Rightarrow> int" where
  "chunk_end c = rc_start c + rc_count c"

text \<open>A list of chunks of one area, in address order and without overlap.\<close>

abbreviation in_order :: "read_chunk list \<Rightarrow> bool" where
  "in_order cs \<equiv> sorted_wrt (\<lambda>c c'. chunk_end c \<le> rc_start c') cs"

lemma split_range_chunk:
  "c \<in> set (split_range a cur e) \<Longrightarrow>
   rc_area c = a \<and> 1 \<le> rc_count c \<and> rc_count c \<le> READ_LIMITS a \<and>
   cur \<le> rc_start c \<and> chunk_end c \<le> e \<and> (rc_count c = READ_LIMITS a \<or> chunk_end c = e)"
proof (induction a cur e rule: split_range.induct)
  case (1 a cur e)
  from "1.prems" have lt: "cur < e" by (auto simp: split_range.simps [of a cur e] split: if_splits)
  let ?m = "min (cur + READ_LIMITS a) e"
  from "1.prems" lt consider "c = \<lparr>rc_area = a, rc_start = cur, rc_count = ?m - cur\<rparr>"
    | "c \<in> set (split_range a ?m e)"
    by (auto simp: split_range.simps [of a cur e] Let_def)
  then show ?case
  proof cases
    case 1
    then show ?thesis using lt READ_LIMITS_pos [of a] by (auto simp: chunk_end_def)
  next
    case 2
    then show ?thesis using "1.IH" [OF lt refl] lt READ_LIMITS_pos [of a] by auto
  qed
qed

lemma split_range_in_order: "in_order (split_range a cur e)"
proof (induction a cur e rule: split_range.induct)
  case (1 a cur e)
  then show ?case
    by (subst split_range.simps) (auto simp: Let_def chunk_end_def dest: split_range_chunk)
qed

lemma split_range_units: "(\<Union>c \<in> set (split_range a cur e). chunk_units c) = {cur..<e}"
proof (induction a cur e rule: split_range.induct)
  case (1 a cur e)
  show ?case
  proof (cases "cur < e")
    case True
    let ?m = "min (cur + READ_LIMITS a) e"
    have "{cur..<?m} \<union> {?m..<e} = {cur..<e}" using True READ_LIMITS_pos [of a] by auto
    then show ?thesis
      using 1 [OF True refl] True by (subst split_range.simps) (simp add: Let_def chunk_units_def)
  qed (simp add: split_range.simps)
qed

lemma split_ranges_in_order:
  "gapped rs \<Longrightarrow> in_order (concat (map (\<lambda>(s, e). split_range a s e) rs))"
proof (induction rs)
  case (Cons r rs)
  obtain s e where r: "r = (s, e)" by force
  have "chunk_end c \<le> rc_start c'" if c: "c \<in> set (split_range a s e)"
    and c': "c' \<in> set (concat (map (\<lambda>(s, e). split_range a s e) rs))" for c c'
  proof -
    from c' obtain s' e' where "(s', e') \<in> set rs" "c' \<in> set (split_range a s' e')" by auto
    with Cons.prems r split_range_chunk [OF c] show ?thesis
      by (force simp: gapped_def dest!: split_range_chunk)
  qed
  moreover have "gapped rs" using Cons.prems by (simp add: gapped_def)
  ultimately show ?case using Cons.IH by (simp add: r sorted_wrt_append split_range_in_order)
qed simp

text \<open>The end of a merged range is not part of any other.\<close>

lemma gapped_end:
  assumes "gapped rs" "(s, e) \<in> set rs"
  shows "e \<notin> span rs"
proof
  assume "e \<in> span rs"
  then obtain s' e' where r': "(s', e') \<in> set rs" "s' \<le> e" "e < e'" by (auto simp: span_def)
  have "(s, e) = (s', e') \<or> e < s' \<or> e' < s"
    using assms r'(1) unfolding gapped_def
    by (metis (no_types, lifting) fst_conv in_set_conv_nth linorder_neqE_nat snd_conv sorted_wrt_nth_less)
  moreover have "s < e" using assms by (auto simp: gapped_def)
  ultimately show False using r' by auto
qed

section \<open>The plan, area by area\<close>

definition item_range :: "read_item \<Rightarrow> int \<times> int" where
  "item_range it = (item_start it, item_start it + item_count it)"

definition area_ranges :: "area \<Rightarrow> read_item list \<Rightarrow> (int \<times> int) list" where
  "area_ranges a items = map item_range (filter (\<lambda>it. item_area it = a) items)"

text \<open>The units of an area that the items ask for.\<close>

definition item_units :: "read_item \<Rightarrow> int set" where
  "item_units it = {item_start it..<item_start it + item_count it}"

definition requested :: "area \<Rightarrow> read_item list \<Rightarrow> int set" where
  "requested a items = (\<Union>it \<in> {it \<in> set items. item_area it = a}. item_units it)"

lemma span_area_ranges: "span (area_ranges a items) = requested a items"
  by (auto simp: span_def area_ranges_def requested_def item_range_def item_units_def)

lemma keys_setdefault_append:
  "fst ` set (setdefault_append k v m) = insert k (fst ` set m)"
  by (induction k v m rule: setdefault_append.induct) (simp_all add: insert_commute)

lemma distinct_setdefault_append:
  "distinct (map fst m) \<Longrightarrow> distinct (map fst (setdefault_append k v m))"
proof (induction m)
  case (Cons p m)
  have "fst ` set (setdefault_append k v m) = insert k (fst ` set m)"
    by (rule keys_setdefault_append)
  with Cons show ?case by (cases p) (auto simp flip: set_map)
qed simp

lemma map_of_setdefault_append:
  "map_of (setdefault_append k v m) k' =
     (if k' = k then Some ((case map_of m k of None \<Rightarrow> [] | Some vs \<Rightarrow> vs) @ [v]) else map_of m k')"
  by (induction m) auto

lemma group_by_area_correct:
  "distinct (map fst (group_by_area items)) \<and>
   map_of (group_by_area items) a =
     (if area_ranges a items = [] then None else Some (area_ranges a items))"
proof (induction items rule: rev_induct)
  case Nil
  then show ?case by (simp add: group_by_area_def area_ranges_def)
next
  case (snoc it items)
  have "group_by_area (items @ [it]) = setdefault_append (item_area it) (item_range it) (group_by_area items)"
    by (simp add: group_by_area_def item_range_def)
  with snoc show ?case
    by (auto simp: distinct_setdefault_append map_of_setdefault_append area_ranges_def)
qed

definition area_chunks :: "area \<Rightarrow> read_item list \<Rightarrow> read_chunk list" where
  "area_chunks a items = concat (map (\<lambda>(s, e). split_range a s e) (merge_ranges (area_ranges a items)))"

lemma filter_area_split:
  "filter (\<lambda>c. rc_area c = a) (concat (map (\<lambda>(s, e). split_range b s e) rs)) =
     (if a = b then concat (map (\<lambda>(s, e). split_range b s e) rs) else [])"
proof -
  have "rc_area c = b" if "c \<in> set (concat (map (\<lambda>(s, e). split_range b s e) rs))" for c
    using that split_range_chunk by fastforce
  then show ?thesis by (auto simp: filter_id_conv filter_empty_conv)
qed

lemma filter_area_concat:
  "distinct (map fst g) \<Longrightarrow>
   filter (\<lambda>c. rc_area c = a)
     (concat (map (\<lambda>(area, rs). concat (map (\<lambda>(s, e). split_range area s e) (merge_ranges rs))) g)) =
   (case map_of g a of None \<Rightarrow> []
    | Some rs \<Rightarrow> concat (map (\<lambda>(s, e). split_range a s e) (merge_ranges rs)))"
proof (induction g)
  case (Cons p g)
  obtain b rs where p: "p = (b, rs)" by force
  show ?case
  proof (cases "a = b")
    case True
    then have "map_of g a = None" using Cons.prems p by (simp add: map_of_eq_None_iff)
    with True Cons p show ?thesis by (simp add: filter_area_split)
  qed (use Cons p in \<open>simp add: filter_area_split\<close>)
qed simp

lemma plan_area: "filter (\<lambda>c. rc_area c = a) (plan_read_chunks items) = area_chunks a items"
  using group_by_area_correct [of items a]
  by (auto simp: plan_read_chunks_def filter_area_concat area_chunks_def)

lemma plan_chunk_area: "c \<in> set (plan_read_chunks items) \<longleftrightarrow> c \<in> set (area_chunks (rc_area c) items)"
  using plan_area [of "rc_area c" items, symmetric] by simp

abbreviation positive_items :: "read_item list \<Rightarrow> bool" where
  "positive_items items \<equiv> \<forall>it \<in> set items. 0 < item_count it"

lemma area_ranges_nonempty: "positive_items items \<Longrightarrow> \<forall>r \<in> set (area_ranges a items). fst r < snd r"
  by (auto simp: area_ranges_def item_range_def)

lemma area_chunks_facts:
  assumes "positive_items items"
  shows "in_order (area_chunks a items)"
    and "(\<Union>c \<in> set (area_chunks a items). chunk_units c) = requested a items"
    and "c \<in> set (area_chunks a items) \<Longrightarrow>
      rc_area c = a \<and> 1 \<le> rc_count c \<and> rc_count c \<le> READ_LIMITS a \<and>
      (rc_count c = READ_LIMITS a \<or> chunk_end c \<notin> requested a items)"
proof -
  let ?m = "merge_ranges (area_ranges a items)"
  have g: "gapped ?m" and u: "span ?m = requested a items"
    using merge_ranges_correct [OF area_ranges_nonempty [OF assms]] by (simp_all add: span_area_ranges)
  show "in_order (area_chunks a items)"
    unfolding area_chunks_def by (rule split_ranges_in_order [OF g])
  have "(\<Union>c \<in> set (area_chunks a items). chunk_units c) =
      (\<Union>(s, e) \<in> set ?m. \<Union>c \<in> set (split_range a s e). chunk_units c)"
    by (auto simp: area_chunks_def)
  also have "\<dots> = span ?m" by (simp only: split_range_units span_def)
  finally show "(\<Union>c \<in> set (area_chunks a items). chunk_units c) = requested a items" by (simp add: u)
  assume "c \<in> set (area_chunks a items)"
  then obtain s e where "(s, e) \<in> set ?m" "c \<in> set (split_range a s e)"
    by (auto simp: area_chunks_def)
  with gapped_end [OF g this(1)] split_range_chunk [OF this(2)]
  show "rc_area c = a \<and> 1 \<le> rc_count c \<and> rc_count c \<le> READ_LIMITS a \<and>
      (rc_count c = READ_LIMITS a \<or> chunk_end c \<notin> requested a items)"
    unfolding u by auto
qed

lemma sorted_wrt_by_class:
  "(\<And>a. sorted_wrt P (filter (\<lambda>x. f x = a) xs)) \<Longrightarrow> sorted_wrt (\<lambda>x y. f x = f y \<longrightarrow> P x y) xs"
proof (induction xs)
  case (Cons x xs)
  have "sorted_wrt P (filter (\<lambda>x. f x = a) xs)" for a
    using Cons.prems [of a] by (auto split: if_splits)
  with Cons.IH Cons.prems [of "f x"] show ?case by auto
qed simp

section \<open>Assembling an item from its chunks\<close>

definition unit_list :: "read_chunk \<Rightarrow> int list" where
  "unit_list c = [rc_start c..chunk_end c - 1]"

lemma set_unit_list [simp]: "set (unit_list c) = chunk_units c"
  by (auto simp: unit_list_def chunk_units_def chunk_end_def)

lemma length_unit_list [simp]: "length (unit_list c) = nat (rc_count c)"
  by (simp add: unit_list_def chunk_end_def)

lemma in_order_bounds:
  assumes "in_order cs" "\<forall>c \<in> set cs. 1 \<le> rc_count c" "c \<in> set cs"
  shows "rc_start (hd cs) \<le> rc_start c" "chunk_end c \<le> chunk_end (last cs)"
  using assms
proof (induction cs)
  case (Cons d cs)
  case 1
  then show ?case by (force simp: chunk_end_def)
next
  case (Cons d cs)
  case 2
  show ?case
  proof (cases "cs = []")
    case False
    then have "last cs \<in> set cs" by simp
    with 2 False have "chunk_end d \<le> rc_start (last cs)" "1 \<le> rc_count (last cs)" by auto
    then have "chunk_end d \<le> chunk_end (last cs)" by (simp add: chunk_end_def)
    with Cons(2) 2 False show ?thesis by auto
  qed (use 2 in simp)
qed simp_all

lemma in_order_flat:
  "in_order cs \<Longrightarrow> \<forall>c \<in> set cs. 1 \<le> rc_count c \<Longrightarrow>
   sorted_wrt (<) (concat (map unit_list cs)) \<and> set (concat (map unit_list cs)) = (\<Union>c \<in> set cs. chunk_units c)"
proof (induction cs)
  case (Cons c cs)
  have "x < y" if "x \<in> chunk_units c" "d \<in> set cs" "y \<in> chunk_units d" for x y d
    using that Cons.prems(1) by (fastforce simp: chunk_units_def chunk_end_def)
  moreover have "sorted_wrt (<) (unit_list c)" by (simp add: unit_list_def)
  ultimately show ?case using Cons by (auto simp: sorted_wrt_append)
qed simp

lemma strict_sorted_interval:
  fixes xs :: "int list"
  assumes "sorted_wrt (<) xs" "set xs = {b..<t}"
  shows "xs = [b..t - 1]"
proof -
  have "sorted_wrt (<) [b..t - 1]" "set [b..t - 1] = {b..<t}" by auto
  with assms show ?thesis by (metis strict_sorted_equal)
qed

lemma covering_interval:
  assumes ord: "in_order cs" and pos: "\<forall>c \<in> set cs. 1 \<le> rc_count c"
    and area: "\<forall>c \<in> set cs. rc_area c = item_area it"
    and it: "0 < item_count it" "item_units it \<subseteq> (\<Union>c \<in> set cs. chunk_units c)"
    and cov: "cov = filter (covers it) cs"
  shows "cov \<noteq> []" "concat (map unit_list cov) = [rc_start (hd cov)..chunk_end (last cov) - 1]"
    "rc_start (hd cov) \<le> item_start it" "item_start it + item_count it \<le> chunk_end (last cov)"
proof -
  let ?s = "item_start it" and ?e = "item_start it + item_count it"
  let ?U = "\<Union>c \<in> set cov. chunk_units c"
  have sub: "item_units it \<subseteq> ?U"
  proof
    fix u assume u: "u \<in> item_units it"
    with it(2) obtain c where c: "c \<in> set cs" "u \<in> chunk_units c" by auto
    with u area have "covers it c" by (auto simp: covers_def chunk_units_def item_units_def)
    with c show "u \<in> ?U" by (auto simp: cov)
  qed
  have "?s \<in> item_units it" "?e - 1 \<in> item_units it" using it(1) by (auto simp: item_units_def)
  with sub have ends: "?s \<in> ?U" "?e - 1 \<in> ?U" by blast+
  then show ne: "cov \<noteq> []" by auto
  have ord': "in_order cov" and pos': "\<forall>c \<in> set cov. 1 \<le> rc_count c"
    using ord pos by (simp_all add: cov sorted_wrt_filter)
  note bounds = in_order_bounds [OF ord' pos']
  show b: "rc_start (hd cov) \<le> ?s"
    using ends(1) bounds(1) by (fastforce simp: chunk_units_def)
  show t: "?e \<le> chunk_end (last cov)"
    using ends(2) bounds(2) by (fastforce simp: chunk_units_def chunk_end_def)
  have "?U = {rc_start (hd cov)..<chunk_end (last cov)}"
  proof
    show "?U \<subseteq> {rc_start (hd cov)..<chunk_end (last cov)}"
      using bounds by (fastforce simp: chunk_units_def chunk_end_def)
    show "{rc_start (hd cov)..<chunk_end (last cov)} \<subseteq> ?U"
    proof
      fix x assume x: "x \<in> {rc_start (hd cov)..<chunk_end (last cov)}"
      have "covers it (hd cov)" "covers it (last cov)"
        using ne hd_in_set [OF ne] last_in_set [OF ne] by (auto simp: cov)
      with x consider "x \<in> item_units it" | "x \<in> chunk_units (hd cov)" | "x \<in> chunk_units (last cov)"
        by (fastforce simp: covers_def item_units_def chunk_units_def chunk_end_def)
      then show "x \<in> ?U" using sub ne by cases auto
    qed
  qed
  with in_order_flat [OF ord' pos'] show "concat (map unit_list cov) = [rc_start (hd cov)..chunk_end (last cov) - 1]"
    by (intro strict_sorted_interval) auto
qed

lemma slice_interval:
  assumes "b \<le> s" "0 \<le> n" "s + n \<le> t"
  shows "py_slice (map f [b..t - 1]) (s - b) (s - b + n) = map f [s..s + n - 1]"
proof -
  have "py_slice (map f [b..t - 1]) (s - b) (s - b + n) = take (nat n) (drop (nat (s - b)) (map f [b..t - 1]))"
    using assms by (subst py_slice_nat) (simp_all add: nat_diff_distrib' nat_add_distrib)
  also have "\<dots> = map f [s..s + n - 1]"
    using assms by (intro nth_equalityI) (simp_all add: nth_upto algebra_simps)
  finally show ?thesis .
qed

lemma sort_key_sorted: "sorted (map f xs) \<Longrightarrow> sort_key f xs = xs"
  by (induction xs) (simp_all add: insort_is_Cons)

lemma covering_results:
  assumes "map cr_chunk crs = plan_read_chunks items" "positive_items items"
  shows "sort_key (\<lambda>cr. rc_start (cr_chunk cr)) (filter (\<lambda>cr. covers it (cr_chunk cr)) crs) =
      filter (\<lambda>cr. covers it (cr_chunk cr)) crs" (is "sort_key _ ?cov = _")
    and "map cr_chunk (filter (\<lambda>cr. covers it (cr_chunk cr)) crs) =
      filter (covers it) (area_chunks (item_area it) items)"
proof -
  have "map cr_chunk ?cov = filter (covers it) (plan_read_chunks items)"
    by (simp add: assms(1) [symmetric] filter_map comp_def)
  also have "\<dots> = filter (covers it) (filter (\<lambda>c. rc_area c = item_area it) (plan_read_chunks items))"
    by (auto simp: covers_def intro!: filter_cong)
  finally show m: "map cr_chunk ?cov = filter (covers it) (area_chunks (item_area it) items)"
    by (simp only: plan_area)
  have "sorted_wrt (\<lambda>c c'. rc_start c \<le> rc_start c') (filter (covers it) (area_chunks (item_area it) items))"
    by (rule sorted_wrt_filter, rule sorted_wrt_mono_rel [OF _ area_chunks_facts(1) [OF assms(2)]])
      (use area_chunks_facts(3) [OF assms(2)] in \<open>force simp: chunk_end_def\<close>)
  then have "sorted (map rc_start (map cr_chunk ?cov))"
    unfolding m by (simp add: sorted_wrt_map)
  then show "sort_key (\<lambda>cr. rc_start (cr_chunk cr)) ?cov = ?cov"
    by (intro sort_key_sorted) (simp add: comp_def)
qed

text \<open>What an item reads from a memory: the specification of a successful read.\<close>

definition item_value :: "(int \<Rightarrow> pyval) \<Rightarrow> read_item \<Rightarrow> read_result result" where
  "item_value mem it =
     (let vs = map mem [item_start it..item_start it + item_count it - 1]
      in case reg_fields it of
           None \<Rightarrow> Inr \<lparr>rr_item = it, rr_values = vs, rr_ok = True, rr_error = None\<rparr>
         | Some r \<Rightarrow> decode_register_item it r vs)"

lemma item_units_requested: "it \<in> set items \<Longrightarrow> item_units it \<subseteq> requested (item_area it) items"
  by (auto simp: requested_def)

lemma decode_read_item_success:
  assumes crs: "map cr_chunk crs = plan_read_chunks items" and pos: "positive_items items"
    and it: "it \<in> set items"
    and ok: "\<And>cr. cr \<in> set crs \<Longrightarrow> covers it (cr_chunk cr) \<Longrightarrow>
      cr_error cr = None \<and> cr_values cr = Some (map mem (unit_list (cr_chunk cr)))"
  shows "decode_read_item it crs = item_value mem it"
proof -
  let ?cov = "filter (\<lambda>cr. covers it (cr_chunk cr)) crs"
  let ?cs = "area_chunks (item_area it) items"
  note facts = area_chunks_facts [OF pos, where a = "item_area it"]
  have cnt: "0 < item_count it" using pos it by blast
  have sub: "item_units it \<subseteq> (\<Union>c \<in> set ?cs. chunk_units c)"
    unfolding facts(2) by (rule item_units_requested [OF it])
  have chunks: "filter (covers it) ?cs = map cr_chunk ?cov"
    using covering_results(2) [OF crs pos, of it] by simp
  note iv = covering_interval [OF facts(1) _ _ cnt sub chunks [symmetric]]
  have ne: "?cov \<noteq> []"
    and flat: "concat (map unit_list (map cr_chunk ?cov)) =
        [rc_start (cr_chunk (hd ?cov))..chunk_end (last (map cr_chunk ?cov)) - 1]"
    and lo: "rc_start (cr_chunk (hd ?cov)) \<le> item_start it"
    and hi: "item_start it + item_count it \<le> chunk_end (last (map cr_chunk ?cov))"
    using iv facts(3) by (auto simp: hd_map)
  have parts: "mapE (\<lambda>cr. case cr_values cr of None \<Rightarrow> Inl AssertionError | Some vs \<Rightarrow> Inr vs) ?cov =
      Inr (map (\<lambda>cr. map mem (unit_list (cr_chunk cr))) ?cov)"
    by (rule mapE_Inr) (use ok in auto)
  have "concat (map (\<lambda>cr. map mem (unit_list (cr_chunk cr))) ?cov) =
      map mem [rc_start (cr_chunk (hd ?cov))..chunk_end (last (map cr_chunk ?cov)) - 1]"
    unfolding flat [symmetric] by (simp add: map_concat comp_def)
  then have slice: "py_slice (concat (map (\<lambda>cr. map mem (unit_list (cr_chunk cr))) ?cov))
      (item_start it - rc_start (cr_chunk (hd ?cov)))
      (item_start it - rc_start (cr_chunk (hd ?cov)) + item_count it) =
      map mem [item_start it..item_start it + item_count it - 1]"
    using slice_interval [OF lo _ hi, of mem] cnt by simp
  have "find (\<lambda>cr. cr_error cr \<noteq> None) ?cov = None"
    using ok by (auto simp: find_None_iff)
  then show ?thesis
    using ne unfolding decode_read_item_def covering_results(1) [OF crs pos] Let_def item_value_def
    by (simp only: if_False option.case parts bindE_simps slice)
qed

lemma decode_read_item_failure:
  assumes crs: "map cr_chunk crs = plan_read_chunks items" and pos: "positive_items items"
    and bad: "cr \<in> set crs" "covers it (cr_chunk cr)" "cr_error cr \<noteq> None"
  shows "\<exists>cr \<in> set crs. covers it (cr_chunk cr) \<and> cr_error cr \<noteq> None \<and> decode_read_item it crs =
    Inr \<lparr>rr_item = it, rr_values = [], rr_ok = False, rr_error = cr_error cr\<rparr>"
proof -
  let ?cov = "filter (\<lambda>cr. covers it (cr_chunk cr)) crs"
  have "?cov \<noteq> []" using bad by (auto simp: filter_empty_conv)
  moreover have "find (\<lambda>cr. cr_error cr \<noteq> None) ?cov \<noteq> None"
    using bad by (auto simp: find_None_iff)
  then obtain cr' where f: "find (\<lambda>cr. cr_error cr \<noteq> None) ?cov = Some cr'" by auto
  then have "cr' \<in> set ?cov" "cr_error cr' \<noteq> None"
    unfolding find_Some_iff by (metis nth_mem)+
  moreover have "decode_read_item it crs =
      Inr \<lparr>rr_item = it, rr_values = [], rr_ok = False, rr_error = cr_error cr'\<rparr>"
    using \<open>?cov \<noteq> []\<close>
    unfolding decode_read_item_def covering_results(1) [OF crs pos] Let_def
    by (simp only: if_False f option.case)
  ultimately show ?thesis by auto
qed

section \<open>Executing chunks\<close>

text \<open>Request encoder and response decoder of an area.\<close>

primrec area_request :: "area \<Rightarrow> int \<Rightarrow> int \<Rightarrow> bytes result" where
  "area_request HOLDING_REGISTER = encode_read_holding_registers"
| "area_request INPUT_REGISTER = encode_read_input_registers"
| "area_request COIL = encode_read_coils"
| "area_request DISCRETE_INPUT = encode_read_discrete_inputs"

primrec area_values :: "area \<Rightarrow> bytes \<Rightarrow> int \<Rightarrow> pyval list result" where
  "area_values HOLDING_REGISTER p n = bindE (decode_read_holding_registers p n) (\<lambda>vs. Inr (map PInt vs))"
| "area_values INPUT_REGISTER p n = bindE (decode_read_input_registers p n) (\<lambda>vs. Inr (map PInt vs))"
| "area_values COIL p n = bindE (decode_read_coils p n) (\<lambda>vs. Inr (map PBool vs))"
| "area_values DISCRETE_INPUT p n = bindE (decode_read_discrete_inputs p n) (\<lambda>vs. Inr (map PBool vs))"

lemma read_chunk_values_eq:
  "read_chunk_values c ex = bindE (area_request (rc_area c) (rc_start c) (rc_count c)) (\<lambda>req.
     bindE (ex req) (\<lambda>resp. area_values (rc_area c) resp (rc_count c)))"
  by (cases "rc_area c") (simp_all add: read_chunk_values_def)

lemma area_request_iff:
  "(\<exists>req. area_request a s n = Inr req) \<longleftrightarrow> 0 \<le> s \<and> s \<le> 0xFFFF \<and> 1 \<le> n \<and> n \<le> READ_LIMITS a"
  "area_request a s n = Inl e \<Longrightarrow> e = ValueError"
  by (cases a; simp add: holding_req.enc_req input_req.enc_req coils_req.enc_req discrete_req.enc_req
      ADDRESS_MAX_def split: if_splits)+

lemma area_values_error: "area_values a p n = Inl e \<Longrightarrow> is_modbus_error e"
  by (cases a) (auto simp: bindE_eq_Inl dest: holding_resp.dec_error input_resp.dec_error
      coils_resp.dec_error discrete_resp.dec_error)

lemma area_values_length: "area_values a p n = Inr vs \<Longrightarrow> length vs = nat n"
  by (cases a) (auto dest: holding_resp.dec_values input_resp.dec_values
      coils_resp.dec_values discrete_resp.dec_values)

abbreviation no_float :: "pyval list \<Rightarrow> bool" where
  "no_float vs \<equiv> \<forall>x. PFloat x \<notin> set vs"

lemma area_values_no_float: "area_values a p n = Inr vs \<Longrightarrow> no_float vs"
  by (cases a) auto

lemma gather_Inr: "gather completion tasks = Inr rs \<longleftrightarrow> mapE id tasks = Inr rs"
proof (cases "find (\<lambda>i. i < length tasks \<and> is_raised (tasks ! i)) completion")
  case (Some i)
  then have i: "i < length tasks" "is_raised (tasks ! i)"
    by (auto simp: find_Some_iff)
  then obtain e where "tasks ! i = Inl e" by (cases "tasks ! i") auto
  with i(1) Some mapE_eq_Inr_nth [of id tasks rs i] show ?thesis by (auto simp: gather_def)
qed (simp add: gather_def)

lemma mapE_map: "mapE f (map g xs) = mapE (\<lambda>x. f (g x)) xs"
  by (induction xs) simp_all

text \<open>The requests that a read can send.\<close>

definition sent_by_read :: "bytes \<Rightarrow> bool" where
  "sent_by_read req \<longleftrightarrow> (\<exists>a s n. area_request a s n = Inr req)"

lemma sent_by_readI: "area_request a s n = Inr req \<Longrightarrow> sent_by_read req"
  by (auto simp: sent_by_read_def)

lemma read_chunk_values_in_range:
  assumes "0 \<le> rc_start c" "rc_start c \<le> 0xFFFF" "1 \<le> rc_count c" "rc_count c \<le> READ_LIMITS (rc_area c)"
    and "\<And>req e. sent_by_read req \<Longrightarrow> ex req = Inl e \<Longrightarrow> is_modbus_error e"
  shows "read_chunk_values c ex = Inl e \<Longrightarrow> is_modbus_error e"
  using area_request_iff(1) [of "rc_area c" "rc_start c" "rc_count c"] assms
  by (auto simp: read_chunk_values_eq bindE_eq_Inl dest: area_values_error sent_by_readI)

lemma read_chunk_values_Inr:
  "read_chunk_values c ex = Inr vs \<Longrightarrow> length vs = nat (rc_count c) \<and> no_float vs"
  by (auto simp: read_chunk_values_eq dest: area_values_length area_values_no_float)

text \<open>A chunk result tells what the executor's answer was.\<close>

lemma execute_read_chunk_Inr:
  "execute_read_chunk c ex = Inr cr \<longleftrightarrow>
     cr_chunk cr = c \<and>
     (case read_chunk_values c ex of
        Inr vs \<Rightarrow> cr_values cr = Some vs \<and> cr_error cr = None
      | Inl e \<Rightarrow> is_modbus_error e \<and> cr_values cr = None \<and> cr_error cr = Some e)"
  by (auto simp: execute_read_chunk_def split: sum.splits)

lemma set_py_slice: "set (py_slice xs i j) \<subseteq> set xs"
  unfolding py_slice_def Let_def by (meson order_trans set_drop_subset set_take_subset)

lemma mapE_as_register: "no_float vs \<Longrightarrow> \<exists>regs. mapE as_register vs = Inr regs"
proof (induction vs)
  case (Cons v vs)
  then show ?case by (cases v) auto
qed simp

lemma decode_register_item_total:
  assumes "validate_read_item it = Inr ()" "reg_fields it = Some r" "no_float vs"
  shows "\<exists>res. decode_register_item it r vs = Inr res"
proof -
  obtain regs where "mapE as_register vs = Inr regs" using mapE_as_register [OF assms(3)] by blast
  moreover have "ri_dtype r = Bit \<Longrightarrow> \<exists>i. ri_bit_index r = Some i"
      "ri_dtype r = Bits \<Longrightarrow> \<exists>is. ri_bit_indices r = Some is"
    using assms(1,2) by (auto simp: validate_read_item_def split: if_splits)
  ultimately have "e = ValueError" if "decoded_values r vs = Inl e" for e
    using that by (auto simp: decoded_values_def bindE_eq_Inl split: if_splits
        dest: decode_registers_error extract_bit_error extract_bits_error)
  then show ?thesis by (auto simp: decode_register_item_def split: sum.splits)
qed

lemma decode_read_item_total:
  assumes crs: "map cr_chunk crs = plan_read_chunks items" and pos: "positive_items items"
    and it: "validate_read_item it = Inr ()"
    and wf: "\<And>cr. cr \<in> set crs \<Longrightarrow> cr_error cr = None \<Longrightarrow> \<exists>vs. cr_values cr = Some vs \<and> no_float vs"
  shows "\<exists>res. decode_read_item it crs = Inr res"
proof (cases "\<exists>cr \<in> set crs. covers it (cr_chunk cr) \<and> cr_error cr \<noteq> None")
  case True
  then show ?thesis using decode_read_item_failure [OF crs pos, of _ it] by blast
next
  case False
  let ?cov = "filter (\<lambda>cr. covers it (cr_chunk cr)) crs"
  have vals: "\<exists>vs. cr_values cr = Some vs \<and> no_float vs" if "cr \<in> set ?cov" for cr
    using that False wf by auto
  have parts: "mapE (\<lambda>cr. case cr_values cr of None \<Rightarrow> Inl AssertionError | Some vs \<Rightarrow> Inr vs) ?cov =
      Inr (map (\<lambda>cr. the (cr_values cr)) ?cov)"
    by (rule mapE_Inr) (use vals in fastforce)
  have nf: "no_float (py_slice (concat (map (\<lambda>cr. the (cr_values cr)) ?cov)) i j)" for i j
    using vals set_py_slice by fastforce
  have "find (\<lambda>cr. cr_error cr \<noteq> None) ?cov = None"
    using False by (auto simp: find_None_iff)
  then show ?thesis
    unfolding decode_read_item_def covering_results(1) [OF crs pos] Let_def
    using decode_register_item_total [OF it _ nf] parts
    by (auto split: option.split)
qed

lemma validated_positive: "validate_read_item it = Inr () \<Longrightarrow> 0 < item_count it"
  by (auto simp: validate_read_item_def split: if_splits)

text \<open>Items whose units have addresses.\<close>

abbreviation addressable :: "read_item \<Rightarrow> bool" where
  "addressable it \<equiv> 0 \<le> item_start it \<and> item_start it + item_count it \<le> 0x10000"

lemma planned_chunk_in_range:
  assumes "positive_items items" "\<forall>it \<in> set items. addressable it" "c \<in> set (plan_read_chunks items)"
  shows "0 \<le> rc_start c \<and> rc_start c \<le> 0xFFFF \<and> 1 \<le> rc_count c \<and> rc_count c \<le> READ_LIMITS (rc_area c)"
proof -
  from assms(3) have c: "c \<in> set (area_chunks (rc_area c) items)" by (simp only: plan_chunk_area)
  note f = area_chunks_facts(2,3) [OF assms(1), where a = "rc_area c"]
  from f(2) [OF c] have "rc_start c \<in> chunk_units c" by (simp add: chunk_units_def)
  with c f(1) have "rc_start c \<in> requested (rc_area c) items" by blast
  with assms(2) f(2) [OF c] show ?thesis by (fastforce simp: requested_def item_units_def)
qed

definition chunk_run :: "(nat \<Rightarrow> pdu_executor) \<Rightarrow> read_chunk list \<Rightarrow> read_chunk_result list \<Rightarrow> bool" where
  "chunk_run execute chunks crs \<longleftrightarrow> map cr_chunk crs = chunks \<and>
     (\<forall>i < length chunks. execute_read_chunk (chunks ! i) (execute i) = Inr (crs ! i))"

lemma chunk_run_cases:
  assumes "chunk_run execute chunks crs" "cr \<in> set crs"
  shows "\<exists>i < length chunks. cr_chunk cr = chunks ! i \<and>
     (case read_chunk_values (chunks ! i) (execute i) of
        Inr vs \<Rightarrow> cr_values cr = Some vs \<and> cr_error cr = None
      | Inl e \<Rightarrow> cr_error cr = Some e)"
proof -
  from assms have "length crs = length chunks" by (auto simp: chunk_run_def)
  with assms(2) obtain i where i: "i < length chunks" "cr = crs ! i" by (metis in_set_conv_nth)
  with assms(1) have "execute_read_chunk (chunks ! i) (execute i) = Inr cr" by (simp add: chunk_run_def)
  with i show ?thesis by (intro exI [of _ i]) (auto simp: execute_read_chunk_Inr split: sum.splits)
qed

text \<open>A batch of valid, addressable items runs to the end, each chunk with its own outcome.\<close>

lemma reads_run:
  assumes valid: "\<forall>it \<in> set items. validate_read_item it = Inr ()"
    and addr: "\<forall>it \<in> set items. addressable it"
    and ex: "\<And>i req e. sent_by_read req \<Longrightarrow> execute i req = Inl e \<Longrightarrow> is_modbus_error e"
  defines "chunks \<equiv> plan_read_chunks items"
  shows "\<exists>crs rs. chunk_run execute chunks crs \<and>
    plan_and_execute_reads items execute completion = Inr rs \<and> length rs = length items \<and>
    (\<forall>j < length items. decode_read_item (items ! j) crs = Inr (rs ! j))"
proof -
  have pos: "positive_items items" using valid validated_positive by blast
  define run where "run = (\<lambda>(i, c). execute_read_chunk c (execute i))"
  define crs where "crs = map (\<lambda>i. case run (i, chunks ! i) of Inr cr \<Rightarrow> cr) [0..<length chunks]"
  have one: "run (i, chunks ! i) = Inr (crs ! i)" if "i < length chunks" for i
  proof -
    have "chunks ! i \<in> set (plan_read_chunks items)" using that by (simp add: chunks_def)
    from planned_chunk_in_range [OF pos addr this] ex
    have "is_modbus_error e" if "read_chunk_values (chunks ! i) (execute i) = Inl e" for e
      using read_chunk_values_in_range [of "chunks ! i" "execute i" e] that by blast
    then have "\<exists>cr. run (i, chunks ! i) = Inr cr"
      by (auto simp: run_def execute_read_chunk_def split: sum.splits)
    with that show ?thesis by (auto simp: crs_def)
  qed
  have len: "length crs = length chunks" by (simp add: crs_def)
  have "mapE run (enumerate 0 chunks) = Inr (map (\<lambda>(i, c). crs ! i) (enumerate 0 chunks))"
    by (rule mapE_Inr) (auto simp: in_set_enumerate_eq one)
  also have "map (\<lambda>(i, c). crs ! i) (enumerate 0 chunks) = crs"
    using len by (intro nth_equalityI) (simp_all add: nth_enumerate_eq)
  finally have g: "gather completion (map run (enumerate 0 chunks)) = Inr crs"
    by (simp add: gather_Inr mapE_map)
  have cr: "cr_chunk (crs ! i) = chunks ! i" if "i < length chunks" for i
    using one [OF that] by (auto simp: run_def execute_read_chunk_Inr)
  have map: "map cr_chunk crs = chunks"
    using len cr by (intro nth_equalityI) simp_all
  have wf: "\<exists>vs. cr_values cr = Some vs \<and> no_float vs" if cr: "cr \<in> set crs" "cr_error cr = None" for cr
  proof -
    from cr(1) len obtain i where i: "i < length chunks" "cr = crs ! i" by (metis in_set_conv_nth)
    from one [OF i(1)] cr(2) i(2) show ?thesis
      by (auto simp: run_def execute_read_chunk_Inr split: sum.splits dest: read_chunk_values_Inr)
  qed
  have tot: "\<exists>res. decode_read_item it crs = Inr res" if "it \<in> set items" for it
    using decode_read_item_total [OF map [unfolded chunks_def] pos _ wf] valid that by blast
  define rs where "rs = map (\<lambda>it. case decode_read_item it crs of Inr res \<Rightarrow> res) items"
  have dec: "mapE (\<lambda>it. decode_read_item it crs) items = Inr rs"
    unfolding rs_def by (rule mapE_Inr) (use tot in force)
  have "mapE validate_read_item items = Inr (map (\<lambda>_. ()) items)"
    using valid by (intro mapE_Inr) auto
  then have "plan_and_execute_reads items execute completion = Inr rs"
    using dec g by (auto simp: plan_and_execute_reads_def Let_def run_def chunks_def)
  then show ?thesis
    using map one mapE_eq_Inr_length [OF dec] mapE_eq_Inr_nth [OF dec]
    by (auto simp: run_def chunk_run_def)
qed

lemma gather_Inl: "gather completion tasks = Inl e \<Longrightarrow> \<exists>t \<in> set tasks. t = Inl e"
  by (auto simp: gather_def find_Some_iff bindE_eq_Inl split: option.splits dest!: mapE_eq_Inl)
    (metis nth_mem)

lemma chunk_run_success:
  assumes run: "chunk_run execute (plan_read_chunks items) crs" and "positive_items items" "it \<in> set items"
    and o: "\<And>i. i < length (plan_read_chunks items) \<Longrightarrow> covers it (plan_read_chunks items ! i) \<Longrightarrow>
      read_chunk_values (plan_read_chunks items ! i) (execute i) = Inr (map mem (unit_list (plan_read_chunks items ! i)))"
  shows "decode_read_item it crs = item_value mem it"
proof (rule decode_read_item_success [OF _ assms(2,3)])
  fix cr assume "cr \<in> set crs" "covers it (cr_chunk cr)"
  with chunk_run_cases [OF run] o
  show "cr_error cr = None \<and> cr_values cr = Some (map mem (unit_list (cr_chunk cr)))"
    by fastforce
qed (use run in \<open>simp add: chunk_run_def\<close>)

lemma chunk_run_failure:
  assumes run: "chunk_run execute (plan_read_chunks items) crs" and "positive_items items"
    and i: "i < length (plan_read_chunks items)" "covers it (plan_read_chunks items ! i)"
      "read_chunk_values (plan_read_chunks items ! i) (execute i) = Inl e"
  shows "\<exists>i < length (plan_read_chunks items). covers it (plan_read_chunks items ! i) \<and>
    (\<exists>e. read_chunk_values (plan_read_chunks items ! i) (execute i) = Inl e \<and> decode_read_item it crs =
      Inr \<lparr>rr_item = it, rr_values = [], rr_ok = False, rr_error = Some e\<rparr>)"
proof -
  have "crs ! i \<in> set crs" "covers it (cr_chunk (crs ! i))" "cr_error (crs ! i) \<noteq> None"
    using run i by (auto simp: chunk_run_def execute_read_chunk_Inr dest: arg_cong [of _ _ length])
  from decode_read_item_failure [OF _ assms(2) this] run obtain cr where "cr \<in> set crs"
    "covers it (cr_chunk cr)" "cr_error cr \<noteq> None"
    "decode_read_item it crs = Inr \<lparr>rr_item = it, rr_values = [], rr_ok = False, rr_error = cr_error cr\<rparr>"
    by (auto simp: chunk_run_def)
  with chunk_run_cases [OF run, of cr] show ?thesis by (fastforce split: sum.splits)
qed

text \<open>
  The first units of two planned chunks of an area never fit one request: between them lies either a
  unit nobody asked for or a full request.
\<close>

lemma chunk_starts_apart:
  assumes pos: "positive_items items" and lim: "rc_count q \<le> READ_LIMITS a"
    and sub: "chunk_units q \<subseteq> requested a items"
    and ij: "i < j" "j < length (area_chunks a items)"
  shows "\<not> (rc_start (area_chunks a items ! i) \<in> chunk_units q \<and> rc_start (area_chunks a items ! j) \<in> chunk_units q)"
proof
  let ?c = "area_chunks a items ! i" and ?d = "area_chunks a items ! j"
  assume q: "rc_start ?c \<in> chunk_units q \<and> rc_start ?d \<in> chunk_units q"
  note facts = area_chunks_facts [OF pos, where a = a]
  have ord: "chunk_end ?c \<le> rc_start ?d"
    using sorted_wrt_nth_less [OF facts(1) ij] .
  from facts(3) [of ?c] ij have c: "1 \<le> rc_count ?c"
    "rc_count ?c = READ_LIMITS a \<or> chunk_end ?c \<notin> requested a items" by auto
  have "chunk_end ?c \<in> chunk_units q"
    using ord q c(1) by (auto simp: chunk_units_def chunk_end_def)
  with sub c(2) have "rc_count ?c = READ_LIMITS a" by blast
  with ord q lim show False by (force simp: chunk_units_def chunk_end_def)
qed

lemma chunk_start_requested:
  "positive_items items \<Longrightarrow> c \<in> set (area_chunks a items) \<Longrightarrow> rc_start c \<in> requested a items"
  using area_chunks_facts(2,3) [of items, where a = a] by (fastforce simp: chunk_units_def)

section \<open>Properties\<close>

text \<open>
  C17: the read plan is exact.  For items with positive counts, every planned request stays within the
  limit of its function code, requests of the same area never overlap, and together they read exactly
  the registers or bits that the items ask for: nothing is missed and nothing else is read.
\<close>

theorem read_plan_exact:
  assumes "\<forall>it \<in> set items. 0 < item_count it"
  shows "(\<forall>c \<in> set (plan_read_chunks items). 1 \<le> rc_count c \<and> rc_count c \<le> READ_LIMITS (rc_area c)) \<and>
    sorted_wrt (\<lambda>c c'. rc_area c = rc_area c' \<longrightarrow> chunk_units c \<inter> chunk_units c' = {}) (plan_read_chunks items) \<and>
    (\<forall>a. (\<Union>c \<in> {c \<in> set (plan_read_chunks items). rc_area c = a}. chunk_units c) = requested a items)"
proof (intro conjI ballI allI)
  fix c assume "c \<in> set (plan_read_chunks items)"
  then show "1 \<le> rc_count c" "rc_count c \<le> READ_LIMITS (rc_area c)"
    using area_chunks_facts(3) [OF assms] plan_chunk_area by blast+
next
  have "sorted_wrt (\<lambda>c c'. rc_area c = rc_area c' \<longrightarrow> chunk_end c \<le> rc_start c') (plan_read_chunks items)"
    by (rule sorted_wrt_by_class) (simp only: plan_area area_chunks_facts(1) [OF assms])
  then show "sorted_wrt (\<lambda>c c'. rc_area c = rc_area c' \<longrightarrow> chunk_units c \<inter> chunk_units c' = {}) (plan_read_chunks items)"
    by (rule sorted_wrt_mono_rel [rotated]) (auto simp: chunk_units_def chunk_end_def)
next
  fix a
  have "{c \<in> set (plan_read_chunks items). rc_area c = a} = set (area_chunks a items)"
    by (metis plan_area set_filter)
  then show "(\<Union>c \<in> {c \<in> set (plan_read_chunks items). rc_area c = a}. chunk_units c) = requested a items"
    using area_chunks_facts(2) [OF assms] by simp
qed

theorem read_plan_exact_witness:
  "(\<Union>c \<in> {c \<in> set (plan_read_chunks [Coil 0 3000, Coil 2990 20]). rc_area c = COIL}. chunk_units c) =
     requested COIL [Coil 0 3000, Coil 2990 20]"
  using read_plan_exact [of "[Coil 0 3000, Coil 2990 20]"] by simp

text \<open>
  C18: the read plan is minimal.  No list of requests that respects the limit of an area and reads all
  the requested units of it, and only those, is shorter than the planner's.
\<close>

theorem read_plan_minimal:
  assumes "\<forall>it \<in> set items. 0 < item_count it"
    and "\<forall>c \<in> set reqs. rc_count c \<le> READ_LIMITS a"
    and "(\<Union>c \<in> set reqs. chunk_units c) = requested a items"
  shows "length (filter (\<lambda>c. rc_area c = a) (plan_read_chunks items)) \<le> length reqs"
proof -
  let ?cs = "area_chunks a items"
  define pick where "pick i = (SOME k. k < length reqs \<and> rc_start (?cs ! i) \<in> chunk_units (reqs ! k))" for i
  have pick: "pick i < length reqs \<and> rc_start (?cs ! i) \<in> chunk_units (reqs ! pick i)" if "i < length ?cs" for i
  proof -
    have "rc_start (?cs ! i) \<in> requested a items"
      using chunk_start_requested [OF assms(1)] nth_mem [OF that] by blast
    then obtain q where q: "q \<in> set reqs" "rc_start (?cs ! i) \<in> chunk_units q"
      unfolding assms(3) [symmetric] by blast
    then have "\<exists>k. k < length reqs \<and> rc_start (?cs ! i) \<in> chunk_units (reqs ! k)"
      by (metis in_set_conv_nth)
    from someI_ex [OF this] show ?thesis unfolding pick_def .
  qed
  have apart: "pick i \<noteq> pick j" if "i < j" "j < length ?cs" for i j
  proof
    assume eq: "pick i = pick j"
    have "reqs ! pick i \<in> set reqs" using pick [of i] that by simp
    then have "rc_count (reqs ! pick i) \<le> READ_LIMITS a" "chunk_units (reqs ! pick i) \<subseteq> requested a items"
      using assms(2,3) by blast+
    moreover have "i < length ?cs" using that by simp
    ultimately show False
      using chunk_starts_apart [OF assms(1) _ _ that] pick [of i] pick [OF that(2)] unfolding eq by blast
  qed
  have "inj_on pick {..<length ?cs}"
    by (rule inj_onI) (metis apart lessThan_iff linorder_neqE_nat)
  then have "length ?cs \<le> length reqs"
    using card_inj_on_le [of pick "{..<length ?cs}" "{..<length reqs}"] pick by auto
  then show ?thesis by (simp only: plan_area)
qed

theorem read_plan_minimal_witness:
  "length (filter (\<lambda>c. rc_area c = COIL) (plan_read_chunks [Coil 3 2, Coil 5 1])) \<le> 1"
proof -
  have "requested COIL [Coil 3 2, Coil 5 1] = {3..<6}"
  proof -
    have "{it \<in> set [Coil 3 2, Coil 5 1]. item_area it = COIL} = {Coil 3 2, Coil 5 1}" by auto
    then have "requested COIL [Coil 3 2, Coil 5 1] = item_units (Coil 3 2) \<union> item_units (Coil 5 1)"
      unfolding requested_def by simp
    also have "\<dots> = {3..<6}" by (simp add: item_units_def ivl_disj_un_two)
    finally show ?thesis .
  qed
  then show ?thesis
    using read_plan_minimal [of "[Coil 3 2, Coil 5 1]" "[\<lparr>rc_area = COIL, rc_start = 3, rc_count = 3\<rparr>]" COIL]
    by (simp add: chunk_units_def MAX_READ_COILS_def)
qed

text \<open>
  C19: each item's result depends on its own requests only.  Let a batch be valid and addressable, and
  let the executor answer every request with bytes or with a Modbus error, in any order.  Then the
  batch returns one result per item.  If the requests that cover an item succeed and hold the contents
  of a memory, the result is the item's typed value in that memory, whatever happens to the other
  requests; if one of them fails, the item is reported as failed with the error of such a request.
\<close>

theorem read_results_per_item:
  assumes "\<forall>it \<in> set items. validate_read_item it = Inr ()"
    and "\<forall>it \<in> set items. 0 \<le> item_start it \<and> item_start it + item_count it \<le> 0x10000"
    and "\<And>i req e. execute i req = Inl e \<Longrightarrow> is_modbus_error e"
  defines "outcome \<equiv> \<lambda>i. read_chunk_values (plan_read_chunks items ! i) (execute i)"
    and "covering \<equiv> \<lambda>it. {i. i < length (plan_read_chunks items) \<and> covers it (plan_read_chunks items ! i)}"
  shows "\<exists>rs. plan_and_execute_reads items execute completion = Inr rs \<and> length rs = length items \<and>
    (\<forall>j < length items.
      (\<forall>mem. (\<forall>i \<in> covering (items ! j). outcome i = Inr (map mem (unit_list (plan_read_chunks items ! i)))) \<longrightarrow>
        item_value mem (items ! j) = Inr (rs ! j)) \<and>
      ((\<exists>i \<in> covering (items ! j). \<exists>e. outcome i = Inl e) \<longrightarrow>
        (\<exists>i \<in> covering (items ! j). \<exists>e. outcome i = Inl e \<and>
          rs ! j = \<lparr>rr_item = items ! j, rr_values = [], rr_ok = False, rr_error = Some e\<rparr>)))"
proof -
  from reads_run [OF assms(1,2), of execute completion] assms(3) obtain crs rs where
    run: "chunk_run execute (plan_read_chunks items) crs"
    and rs: "plan_and_execute_reads items execute completion = Inr rs" "length rs = length items"
    and dec: "\<And>j. j < length items \<Longrightarrow> decode_read_item (items ! j) crs = Inr (rs ! j)" by blast
  have pos: "positive_items items" using assms(1) validated_positive by blast
  have "item_value mem (items ! j) = Inr (rs ! j)"
    if "j < length items" "\<forall>i \<in> covering (items ! j). outcome i = Inr (map mem (unit_list (plan_read_chunks items ! i)))" for j mem
    using chunk_run_success [OF run pos, of "items ! j" mem] dec that
    by (auto simp: covering_def outcome_def)
  moreover have "\<exists>i \<in> covering (items ! j). \<exists>e. outcome i = Inl e \<and>
      rs ! j = \<lparr>rr_item = items ! j, rr_values = [], rr_ok = False, rr_error = Some e\<rparr>"
    if "j < length items" "\<exists>i \<in> covering (items ! j). \<exists>e. outcome i = Inl e" for j
    using chunk_run_failure [OF run pos, of _ "items ! j"] dec that
    by (fastforce simp: covering_def outcome_def)
  ultimately show ?thesis using rs by blast
qed

lemma plan_one_coil: "plan_read_chunks [Coil 0 1] = [\<lparr>rc_area = COIL, rc_start = 0, rc_count = 1\<rparr>]"
  by (simp add: plan_read_chunks_def group_by_area_def merge_ranges_def split_range.simps Let_def
      MAX_READ_COILS_def)

theorem read_results_per_item_witness:
  "\<exists>rs. plan_and_execute_reads [Coil 0 1] (\<lambda>_ _. Inr [1, 1, 1]) [] = Inr rs \<and>
     item_value (\<lambda>_. PBool True) (Coil 0 1) = Inr (rs ! 0)"
proof -
  let ?chunk = "\<lparr>rc_area = COIL, rc_start = 0, rc_count = 1\<rparr>"
  have "decode_read_coils [1, 1, 1] 1 = Inr [True]" by code_simp
  then have "read_chunk_values ?chunk (\<lambda>_. Inr [1, 1, 1]) = Inr [PBool True]"
    by (simp add: read_chunk_values_eq coils_req.enc_req ADDRESS_MAX_def MAX_READ_COILS_def)
  moreover have "unit_list ?chunk = [0]" by (simp add: unit_list_def chunk_end_def)
  ultimately show ?thesis
    using read_results_per_item [of "[Coil 0 1]" "\<lambda>_ _. Inr [1, 1, 1]" "[]"]
    by (auto simp: plan_one_coil validate_read_item_def)
qed

text \<open>
  An address beyond 0xFFFF aborts the whole batch.  If one of the planned requests starts outside
  the address space, the call raises \<open>ValueError\<close> and no item gets a result, even when every request
  on the wire succeeds: the failure is not recorded per item.
\<close>

theorem bad_address_aborts_batch:
  assumes "\<forall>it \<in> set items. validate_read_item it = Inr ()"
    and "c \<in> set (plan_read_chunks items)" "rc_start c < 0 \<or> 0xFFFF < rc_start c"
    and "\<And>i req e. execute i req = Inl e \<Longrightarrow> is_modbus_error e"
  shows "plan_and_execute_reads items execute completion = Inl ValueError"
proof -
  let ?chunks = "plan_read_chunks items"
  let ?tasks = "map (\<lambda>(i, c). execute_read_chunk c (execute i)) (enumerate 0 ?chunks)"
  have only: "e = ValueError" if "execute_read_chunk c (execute i) = Inl e" for c i e
    using that assms(4) area_request_iff(2) area_values_error
    by (auto simp: execute_read_chunk_def read_chunk_values_eq bindE_eq_Inl split: sum.splits if_splits)
  from assms(2) obtain k where k: "k < length ?chunks" "c = ?chunks ! k" by (metis in_set_conv_nth)
  have "area_request (rc_area c) (rc_start c) (rc_count c) = Inl ValueError"
    using area_request_iff [of "rc_area c" "rc_start c" "rc_count c"] assms(3)
    by (cases "area_request (rc_area c) (rc_start c) (rc_count c)") auto
  then have "?tasks ! k = Inl ValueError"
    using k by (simp add: nth_enumerate_eq execute_read_chunk_def read_chunk_values_eq)
  then have "mapE id ?tasks \<noteq> Inr rs" for rs
    using mapE_eq_Inr_nth [of id ?tasks rs k] k(1) by auto
  then obtain e where e: "gather completion ?tasks = Inl e"
    using gather_Inr [of completion ?tasks] by (cases "gather completion ?tasks") auto
  with gather_Inl [OF e] only have "e = ValueError" by auto
  moreover have "mapE validate_read_item items = Inr (map (\<lambda>_. ()) items)"
    using assms(1) by (intro mapE_Inr) auto
  moreover have "items \<noteq> []" using assms(2) by (auto simp: plan_read_chunks_def group_by_area_def)
  ultimately show ?thesis using e by (simp add: plan_and_execute_reads_def Let_def)
qed

theorem bad_address_aborts_batch_witness:
  "plan_and_execute_reads [Coil 0 1, Coil 70000 1] (\<lambda>_ _. Inr [1, 1, 1]) [] = Inl ValueError"
proof -
  have "plan_read_chunks [Coil 0 1, Coil 70000 1] =
      [\<lparr>rc_area = COIL, rc_start = 0, rc_count = 1\<rparr>, \<lparr>rc_area = COIL, rc_start = 70000, rc_count = 1\<rparr>]"
    by (simp add: plan_read_chunks_def group_by_area_def merge_ranges_def split_range.simps Let_def
        MAX_READ_COILS_def less_eq_prod_def)
  then have "\<lparr>rc_area = COIL, rc_start = 70000, rc_count = 1\<rparr> \<in> set (plan_read_chunks [Coil 0 1, Coil 70000 1])"
    by simp
  moreover have "\<forall>it \<in> set [Coil 0 1, Coil 70000 1]. validate_read_item it = Inr ()"
    by (simp add: validate_read_item_def)
  ultimately show ?thesis
    using bad_address_aborts_batch [where c = "\<lparr>rc_area = COIL, rc_start = 70000, rc_count = 1\<rparr>"
        and execute = "\<lambda>_ _. Inr [1, 1, 1]"] by fastforce
qed

end
