(* ===== verification/Planner_Writes.thy ===== *)
theory Planner_Writes
  imports Planner_Reads
begin

text \<open>
  Laws of the write side of the planner: a write item is cut into contiguous chunks within the limits
  that carry exactly its values, and each item's result reports the first of its own chunks to fail.
\<close>

section \<open>Splitting\<close>

text \<open>Values with the addresses they are written to.\<close>

primrec addressed :: "int \<Rightarrow> 'a list \<Rightarrow> (int \<times> 'a) list" where
  "addressed a [] = []"
| "addressed a (v # vs) = (a, v) # addressed (a + 1) vs"

lemma addressed_append: "addressed a (vs @ ws) = addressed a vs @ addressed (a + int (length vs)) ws"
  by (induction vs arbitrary: a) (simp_all add: algebra_simps)

lemma addressed_split:
  "n \<le> length vs \<Longrightarrow> addressed a (take n vs) @ addressed (a + int n) (drop n vs) = addressed a vs"
  using addressed_append [of a "take n vs" "drop n vs"] by simp

lemma split_values_addressed:
  assumes "0 < limit" "\<And>addr part. cells (mk addr part) = addressed addr part"
  shows "concat (map cells (split_values limit mk addr vs)) = addressed addr vs"
proof (induction vs arbitrary: addr rule: length_induct)
  case (1 vs)
  show ?case
  proof (cases "vs = []")
    case False
    define n where "n = min limit (length vs)"
    have n: "0 < n" "n \<le> length vs" using False assms(1) by (simp_all add: n_def)
    have "split_values limit mk addr vs =
        mk addr (take n vs) # split_values limit mk (addr + int n) (drop n vs)"
      using False assms(1) by (subst split_values.simps) (simp add: n_def Let_def)
    moreover have "length (drop n vs) < length vs" using n by simp
    ultimately show ?thesis
      using "1.IH" assms(2) addressed_split [OF n(2), of addr] by simp
  qed (simp add: split_values.simps)
qed

lemma split_values_part:
  assumes "0 < limit" "c \<in> set (split_values limit mk addr vs)"
  shows "\<exists>a part. c = mk a part \<and> 1 \<le> length part \<and> length part \<le> limit \<and>
    addr \<le> a \<and> a + int (length part) \<le> addr + int (length vs) \<and> set part \<subseteq> set vs"
  using assms(2)
proof (induction vs arbitrary: addr rule: length_induct)
  case (1 vs)
  show ?case
  proof (cases "vs = []")
    case False
    define n where "n = min limit (length vs)"
    have n: "0 < n" "n \<le> length vs" "n \<le> limit" using False assms(1) by (simp_all add: n_def)
    have "split_values limit mk addr vs =
        mk addr (take n vs) # split_values limit mk (addr + int n) (drop n vs)"
      using False assms(1) by (subst split_values.simps) (simp add: n_def Let_def)
    with "1.prems" consider "c = mk addr (take n vs)"
      | "c \<in> set (split_values limit mk (addr + int n) (drop n vs))" by auto
    then show ?thesis
    proof cases
      case 1
      then show ?thesis using n set_take_subset [of n vs]
        by (intro exI [of _ addr] exI [of _ "take n vs"]) auto
    next
      case 2
      have "length (drop n vs) < length vs" using n by simp
      with "1.IH" 2 obtain a part where "c = mk a part" "1 \<le> length part" "length part \<le> limit"
        "addr + int n \<le> a" "a + int (length part) \<le> addr + int n + int (length (drop n vs))"
        "set part \<subseteq> set (drop n vs)" by blast
      then show ?thesis using n set_drop_subset [of n vs]
        by (intro exI [of _ a] exI [of _ part]) auto
    qed
  qed (use "1.prems" in \<open>simp add: split_values.simps\<close>)
qed

section \<open>The plan\<close>

definition register_cells :: "write_chunk \<Rightarrow> (int \<times> int) list" where
  "register_cells c = addressed (wc_start c) (case wc_register_values c of None \<Rightarrow> [] | Some vs \<Rightarrow> vs)"

definition coil_cells :: "write_chunk \<Rightarrow> (int \<times> bool) list" where
  "coil_cells c = addressed (wc_start c) (case wc_coil_values c of None \<Rightarrow> [] | Some vs \<Rightarrow> vs)"

text \<open>A chunk that one write request can carry.\<close>

definition wf_write_chunk :: "write_chunk \<Rightarrow> bool" where
  "wf_write_chunk c \<longleftrightarrow>
     (wc_area c = HOLDING_REGISTER \<and> (\<exists>vs. wc_register_values c = Some vs \<and>
        1 \<le> length vs \<and> length vs \<le> 123 \<and> list_all is_reg vs)) \<or>
     (wc_area c = COIL \<and> (\<exists>vs. wc_coil_values c = Some vs \<and> 1 \<le> length vs \<and> length vs \<le> 1968))"

lemma plan_write_item_chunk:
  assumes "plan_write_item idx it = Inr cs" "c \<in> set cs"
  shows "wc_item_idx c = idx \<and> wf_write_chunk c"
proof (cases it)
  case (WriteHolding w)
  with assms(1) obtain regs where
    regs: "encode_registers (wh_values w) (wh_dtype w) (wh_word_order w) (wh_byte_order w) = Inr regs"
    and cs: "cs = split_values 123 (register_chunk idx) (wh_start w) regs"
    by (auto simp: MAX_WRITE_REGISTERS_def)
  then obtain n where "regs_per_item (wh_dtype w) = Inr n" by (auto simp: encode_registers_def)
  then have "list_all is_reg regs" using encode_registers_shape [OF regs] by (auto simp: list_all_iff)
  moreover obtain a part where "c = register_chunk idx a part" "1 \<le> length part" "length part \<le> 123"
      "set part \<subseteq> set regs"
    using split_values_part [of 123 c "register_chunk idx" "wh_start w" regs] assms(2) cs by auto
  ultimately show ?thesis by (auto simp: register_chunk_def wf_write_chunk_def list_all_iff)
next
  case (WriteCoils s vs)
  with assms(1) have "cs = split_values 1968 (coil_chunk idx) s vs"
    by (auto simp: MAX_WRITE_COILS_def)
  then obtain a part where "c = coil_chunk idx a part" "1 \<le> length part" "length part \<le> 1968"
    using split_values_part [of 1968 c "coil_chunk idx" s vs] assms(2) by auto
  then show ?thesis by (auto simp: coil_chunk_def wf_write_chunk_def)
qed

lemma concat_filter_index:
  assumes "length css = n" "\<And>k c. k < n \<Longrightarrow> c \<in> set (css ! k) \<Longrightarrow> f c = off + k" "j < n"
  shows "filter (\<lambda>c. f c = off + j) (concat css) = css ! j"
  using assms
proof (induction css arbitrary: n off j)
  case (Cons cs css)
  then obtain m where m: "n = Suc m" "length css = m" by (cases n) auto
  have hd: "f c = off" if "c \<in> set cs" for c using Cons.prems(2) [of 0 c] m that by simp
  have tl: "f c = Suc off + k" if "k < m" "c \<in> set (css ! k)" for k c
    using Cons.prems(2) [of "Suc k" c] m that by simp
  show ?case
  proof (cases j)
    case 0
    have "f c \<noteq> off" if c: "c \<in> set (concat css)" for c
    proof -
      from c obtain cs' where cs': "cs' \<in> set css" "c \<in> set cs'" by auto
      then obtain k where "k < m" "css ! k = cs'" using m(2) by (metis in_set_conv_nth)
      then show ?thesis using tl [of k c] cs'(2) by simp
    qed
    then show ?thesis using 0 hd by (simp add: filter_id_conv filter_empty_conv)
  next
    case (Suc i)
    then have "filter (\<lambda>c. f c = Suc off + i) (concat css) = css ! i"
      using Cons.IH [OF m(2), of "Suc off" i] tl Cons.prems(3) m(1) by blast
    moreover have "filter (\<lambda>c. f c = off + j) cs = []"
      using hd Suc by (auto simp: filter_empty_conv)
    ultimately show ?thesis using Suc by simp
  qed
qed simp

lemma plan_writes_item:
  assumes "plan_writes items = Inr chunks" "j < length items"
  shows "plan_write_item j (items ! j) = Inr (filter (\<lambda>c. wc_item_idx c = j) chunks)"
proof -
  from assms(1) obtain css where m: "mapE (\<lambda>(idx, item). plan_write_item idx item) (enumerate 0 items) = Inr css"
    and c: "chunks = concat css" by (auto simp: plan_writes_def)
  have len: "length css = length items" using mapE_eq_Inr_length [OF m] by simp
  have nth: "plan_write_item k (items ! k) = Inr (css ! k)" if "k < length items" for k
    using mapE_eq_Inr_nth [OF m, of k] that by (simp add: nth_enumerate_eq)
  have "filter (\<lambda>c. wc_item_idx c = 0 + j) (concat css) = css ! j"
  proof (rule concat_filter_index [OF len _ assms(2)])
    show "wc_item_idx c = 0 + k" if "k < length items" "c \<in> set (css ! k)" for k c
      using plan_write_item_chunk [OF nth [OF that(1)] that(2)] by simp
  qed
  then show ?thesis using nth [OF assms(2)] c by simp
qed

lemma plan_writes_chunk:
  assumes "plan_writes items = Inr chunks" "c \<in> set chunks"
  shows "wc_item_idx c < length items \<and> wf_write_chunk c"
proof -
  from assms obtain css where m: "mapE (\<lambda>(idx, item). plan_write_item idx item) (enumerate 0 items) = Inr css"
    and c: "c \<in> set (concat css)" by (auto simp: plan_writes_def)
  then obtain cs where "cs \<in> set css" "c \<in> set cs" by auto
  then obtain k where k: "k < length css" "c \<in> set (css ! k)" by (metis in_set_conv_nth)
  then have "k < length items" using mapE_eq_Inr_length [OF m] by simp
  with mapE_eq_Inr_nth [OF m, of k] k(2) plan_write_item_chunk show ?thesis
    by (auto simp: nth_enumerate_eq)
qed

section \<open>Results\<close>

lemma apply_errors_nth:
  assumes "j < length results" "\<And>cr. cr \<in> set crs \<Longrightarrow> wc_item_idx (wcr_chunk cr) < length results"
  shows "length (apply_errors items crs results) = length results \<and>
    apply_errors items crs results ! j =
     (if \<not> wr_ok (results ! j) then results ! j
      else case find (\<lambda>cr. wc_item_idx (wcr_chunk cr) = j \<and> wcr_error cr \<noteq> None) crs of
          None \<Rightarrow> results ! j
        | Some cr \<Rightarrow> \<lparr>wr_item = items ! j, wr_ok = False, wr_error = wcr_error cr\<rparr>)"
  using assms
proof (induction items crs results rule: apply_errors.induct)
  case (2 items cr crs results)
  show ?case
  proof (cases "wcr_error cr")
    case None
    then show ?thesis using 2 by simp
  next
    case (Some e)
    define idx where "idx = wc_item_idx (wcr_chunk cr)"
    define r' where "r' = (if wr_ok (results ! idx)
        then results[idx := \<lparr>wr_item = items ! idx, wr_ok = False, wr_error = Some e\<rparr>] else results)"
    have len: "length r' = length results" by (simp add: r'_def)
    have idx: "idx < length results" using 2(4) by (simp add: idx_def)
    have "length (apply_errors items crs r') = length r' \<and> apply_errors items crs r' ! j =
        (if \<not> wr_ok (r' ! j) then r' ! j
         else case find (\<lambda>cr. wc_item_idx (wcr_chunk cr) = j \<and> wcr_error cr \<noteq> None) crs of
             None \<Rightarrow> r' ! j
           | Some cr \<Rightarrow> \<lparr>wr_item = items ! j, wr_ok = False, wr_error = wcr_error cr\<rparr>)"
      using 2(2) [OF Some idx_def] 2(3,4) len unfolding r'_def by simp
    moreover have "apply_errors items (cr # crs) results = apply_errors items crs r'"
      by (simp add: Some r'_def idx_def Let_def)
    ultimately show ?thesis
      using Some idx 2(3) len
      by (cases "idx = j"; cases "wr_ok (results ! idx)") (simp_all add: r'_def split: option.split flip: idx_def)
  qed
qed simp

lemma write_exchange_error:
  assumes wf: "wf_write_chunk c" and addr: "is_reg (wc_start c)"
    and ex: "\<And>req e. ex req = Inl e \<Longrightarrow> is_modbus_error e"
    and err: "write_chunk_exchange c ex = Inl e"
  shows "is_modbus_error e"
proof -
  have via: "is_modbus_error e" if "bindE enc (\<lambda>req. bindE (ex req) (\<lambda>resp. bindE (dec resp) (\<lambda>_. Inr ()))) = Inl e"
    "\<exists>req. enc = Inr req" "\<And>resp e. dec resp = Inl e \<Longrightarrow> is_modbus_error e" for enc :: "bytes result" and dec :: "bytes \<Rightarrow> 'b result"
    using that ex by (auto simp: bindE_eq_Inl)
  from wf consider vs where "wc_area c = HOLDING_REGISTER" "wc_register_values c = Some vs"
      "1 \<le> length vs" "length vs \<le> 123" "list_all is_reg vs"
    | vs where "wc_area c = COIL" "wc_coil_values c = Some vs" "1 \<le> length vs" "length vs \<le> 1968"
    by (auto simp: wf_write_chunk_def)
  then show ?thesis
  proof cases
    case (1 vs)
    then have "is_reg (vs ! 0)" by (cases vs) auto
    with 1 addr err single_register.wreq_ok [of "wc_start c" "vs ! 0"] multiple_registers.wreq_ok [of "wc_start c" vs]
    show ?thesis
      by (cases "length vs = 1")
        (auto simp: write_chunk_exchange_def intro: via single_register.wresp_error multiple_registers.wresp_error)
  next
    case (2 vs)
    with addr err single_coil.wreq_ok [of "wc_start c" "vs ! 0"] multiple_coils.wreq_ok [of "wc_start c" vs]
    show ?thesis
      by (cases "length vs = 1")
        (auto simp: write_chunk_exchange_def intro: via single_coil.wresp_error multiple_coils.wresp_error)
  qed
qed

section \<open>Properties\<close>

text \<open>An item with values, all of which the data type can represent.\<close>

fun writable :: "write_item \<Rightarrow> bool" where
  "writable (WriteHolding w) \<longleftrightarrow> wh_values w \<noteq> [] \<and>
     (\<exists>regs. encode_registers (wh_values w) (wh_dtype w) (wh_word_order w) (wh_byte_order w) = Inr regs)"
| "writable (WriteCoils s vs) \<longleftrightarrow> vs \<noteq> []"

lemma plan_write_item_writable: "(\<exists>cs. plan_write_item idx it = Inr cs) \<longleftrightarrow> writable it"
  by (cases it) auto

lemma plan_write_item_cells:
  assumes "plan_write_item idx it = Inr cs"
  shows "case it of
     WriteHolding w \<Rightarrow> encode_registers (wh_values w) (wh_dtype w) (wh_word_order w) (wh_byte_order w) =
         Inr (map snd (concat (map register_cells cs))) \<and>
       concat (map register_cells cs) = addressed (wh_start w) (map snd (concat (map register_cells cs)))
   | WriteCoils s vs \<Rightarrow> concat (map coil_cells cs) = addressed s vs"
proof (cases it)
  case (WriteHolding w)
  with assms obtain regs where
    regs: "encode_registers (wh_values w) (wh_dtype w) (wh_word_order w) (wh_byte_order w) = Inr regs"
    and cs: "cs = split_values 123 (register_chunk idx) (wh_start w) regs"
    by (auto simp: MAX_WRITE_REGISTERS_def)
  have "concat (map register_cells cs) = addressed (wh_start w) regs"
    unfolding cs by (rule split_values_addressed) (simp_all add: register_cells_def register_chunk_def)
  moreover have "map snd (addressed a vs) = vs" for a and vs :: "int list"
    by (induction vs arbitrary: a) simp_all
  ultimately show ?thesis using regs WriteHolding by simp
next
  case (WriteCoils s vs)
  with assms have cs: "cs = split_values 1968 (coil_chunk idx) s vs"
    by (auto simp: MAX_WRITE_COILS_def)
  have "concat (map coil_cells cs) = addressed s vs"
    unfolding cs by (rule split_values_addressed) (simp_all add: coil_cells_def coil_chunk_def)
  then show ?thesis using WriteCoils by simp
qed

text \<open>
  C20: the write plan is exact.  Planning fails exactly if an item is empty or has a value its data type
  cannot represent.  Otherwise every chunk fits one write request and belongs to an item, and the chunks
  of an item, in order, carry exactly the item's registers or coils to consecutive addresses from the
  item's start, none twice and none to another address.
\<close>

theorem write_plan_exact:
  "case plan_writes items of
     Inl e \<Rightarrow> \<exists>it \<in> set items. \<not> writable it
   | Inr chunks \<Rightarrow> (\<forall>it \<in> set items. writable it) \<and>
       (\<forall>c \<in> set chunks. wc_item_idx c < length items \<and> wf_write_chunk c) \<and>
       (\<forall>j < length items. let cs = filter (\<lambda>c. wc_item_idx c = j) chunks in
          case items ! j of
            WriteHolding w \<Rightarrow> encode_registers (wh_values w) (wh_dtype w) (wh_word_order w) (wh_byte_order w) =
                Inr (map snd (concat (map register_cells cs))) \<and>
              concat (map register_cells cs) = addressed (wh_start w) (map snd (concat (map register_cells cs)))
          | WriteCoils s vs \<Rightarrow> concat (map coil_cells cs) = addressed s vs)"
proof (cases "plan_writes items")
  case (Inl e)
  then obtain idx it where "(idx, it) \<in> set (enumerate 0 items)" "plan_write_item idx it = Inl e"
    by (auto simp: plan_writes_def bindE_eq_Inl dest!: mapE_eq_Inl)
  then have "it \<in> set items" "\<not> writable it"
    using plan_write_item_writable [of idx it] by (auto simp: in_set_enumerate_eq)
  with Inl show ?thesis by auto
next
  case (Inr chunks)
  have "writable it" if "it \<in> set items" for it
    using that plan_writes_item [OF Inr] plan_write_item_writable by (metis in_set_conv_nth)
  with Inr plan_writes_chunk [OF Inr] plan_write_item_cells [OF plan_writes_item [OF Inr]]
  show ?thesis by (simp add: Let_def)
qed

theorem write_plan_exact_witness:
  "\<exists>chunks. plan_writes [WriteCoils 7 [True, False]] = Inr chunks \<and>
     concat (map coil_cells (filter (\<lambda>c. wc_item_idx c = 0) chunks)) = [(7, True), (8, False)]"
proof -
  have "\<exists>chunks. plan_writes [WriteCoils 7 [True, False]] = Inr chunks"
    by (simp add: plan_writes_def)
  with write_plan_exact [of "[WriteCoils 7 [True, False]]"] show ?thesis
    by (auto simp: Let_def)
qed

text \<open>The result of a write chunk, and the run of a whole plan.\<close>

definition chunk_ack :: "write_chunk \<Rightarrow> pdu_executor \<Rightarrow> write_chunk_result" where
  "chunk_ack c ex = \<lparr>wcr_chunk = c,
     wcr_error = (case write_chunk_exchange c ex of Inl e \<Rightarrow> Some e | Inr _ \<Rightarrow> None)\<rparr>"

lemma writes_run:
  assumes "plan_writes items = Inr chunks"
    and "\<forall>c \<in> set chunks. 0 \<le> wc_start c \<and> wc_start c \<le> 0xFFFF"
    and "\<And>i req e. execute i req = Inl e \<Longrightarrow> is_modbus_error e"
  shows "plan_and_execute_writes items execute completion =
    Inr (apply_errors items (map (\<lambda>i. chunk_ack (chunks ! i) (execute i)) [0..<length chunks])
      (map (\<lambda>item. \<lparr>wr_item = item, wr_ok = True, wr_error = None\<rparr>) items))"
proof (cases "items = []")
  case True
  then show ?thesis using assms(1) by (simp add: plan_and_execute_writes_def plan_writes_def)
next
  case False
  let ?run = "\<lambda>(i, c). execute_write_chunk c (execute i)"
  have "execute_write_chunk (chunks ! i) (execute i) = Inr (chunk_ack (chunks ! i) (execute i))"
    if "i < length chunks" for i
    using write_exchange_error [of "chunks ! i" "execute i"] plan_writes_chunk [OF assms(1)] assms(2,3) that
    by (auto simp: execute_write_chunk_def chunk_ack_def split: sum.splits)
  then have "mapE ?run (enumerate 0 chunks) = Inr (map (\<lambda>(i, c). chunk_ack (chunks ! i) (execute i)) (enumerate 0 chunks))"
    by (intro mapE_Inr) (auto simp: in_set_enumerate_eq)
  also have "map (\<lambda>(i, c). chunk_ack (chunks ! i) (execute i)) (enumerate 0 chunks) =
      map (\<lambda>i. chunk_ack (chunks ! i) (execute i)) [0..<length chunks]"
    by (intro nth_equalityI) (simp_all add: nth_enumerate_eq)
  finally have "gather completion (map ?run (enumerate 0 chunks)) =
      Inr (map (\<lambda>i. chunk_ack (chunks ! i) (execute i)) [0..<length chunks])"
    by (simp add: gather_Inr mapE_map)
  then show ?thesis using False assms(1) by (simp add: plan_and_execute_writes_def Let_def)
qed

lemma find_map_option: "find P (map f xs) = map_option f (find (\<lambda>x. P (f x)) xs)"
  by (induction xs) simp_all

lemma chunk_ack_simps [simp]:
  "wcr_chunk (chunk_ack c ex) = c"
  "wcr_error (chunk_ack c ex) = (case write_chunk_exchange c ex of Inl e \<Rightarrow> Some e | Inr _ \<Rightarrow> None)"
  by (simp_all add: chunk_ack_def)

lemma is_raised_iff: "is_raised r \<longleftrightarrow> (\<exists>e. r = Inl e)"
  by (cases r) simp_all

text \<open>
  C21: write results are reported per item.  Let the plan's chunks have addresses and the executor
  answer with bytes or a Modbus error.  Then the call returns one result per item, and an item is ok
  exactly if all its own requests were acknowledged; otherwise it carries the error of the first of its
  requests that failed, and later successes do not hide it.
\<close>

theorem write_results_per_item:
  assumes "plan_writes items = Inr chunks"
    and "\<forall>c \<in> set chunks. 0 \<le> wc_start c \<and> wc_start c \<le> 0xFFFF"
    and "\<And>i req e. execute i req = Inl e \<Longrightarrow> is_modbus_error e"
  defines "failed \<equiv> \<lambda>j i. wc_item_idx (chunks ! i) = j \<and> is_raised (write_chunk_exchange (chunks ! i) (execute i))"
  shows "\<exists>rs. plan_and_execute_writes items execute completion = Inr rs \<and> length rs = length items \<and>
    (\<forall>j < length items. case find (failed j) [0..<length chunks] of
        None \<Rightarrow> rs ! j = \<lparr>wr_item = items ! j, wr_ok = True, wr_error = None\<rparr>
      | Some i \<Rightarrow> \<exists>e. write_chunk_exchange (chunks ! i) (execute i) = Inl e \<and>
          rs ! j = \<lparr>wr_item = items ! j, wr_ok = False, wr_error = Some e\<rparr>)"
proof -
  define ack where "ack i = chunk_ack (chunks ! i) (execute i)" for i
  let ?init = "map (\<lambda>item. \<lparr>wr_item = item, wr_ok = True, wr_error = None\<rparr>) items"
  define rs where "rs = apply_errors items (map ack [0..<length chunks]) ?init"
  have run: "plan_and_execute_writes items execute completion = Inr rs"
    using writes_run [OF assms(1-3)] by (simp add: rs_def ack_def [abs_def])
  have idx: "wc_item_idx (wcr_chunk x) < length ?init" if "x \<in> set (map ack [0..<length chunks])" for x
    using that plan_writes_chunk [OF assms(1)] by (auto simp: ack_def)
  have len: "length rs = length items"
    using apply_errors_nth [of 0 ?init "map ack [0..<length chunks]" items] idx assms(1)
    by (cases items) (auto simp: rs_def plan_writes_def)
  have "(\<lambda>i. wc_item_idx (wcr_chunk (ack i)) = j \<and> wcr_error (ack i) \<noteq> None) = failed j" for j
    by (auto simp: ack_def failed_def is_raised_iff fun_eq_iff split: sum.splits)
  then have res: "rs ! j = (case find (failed j) [0..<length chunks] of
      None \<Rightarrow> \<lparr>wr_item = items ! j, wr_ok = True, wr_error = None\<rparr>
    | Some i \<Rightarrow> \<lparr>wr_item = items ! j, wr_ok = False, wr_error = wcr_error (ack i)\<rparr>)" if "j < length items" for j
    using apply_errors_nth [of j ?init "map ack [0..<length chunks]" items, OF _ idx] that
    by (simp add: rs_def find_map_option split: option.splits)
  have "case find (failed j) [0..<length chunks] of
        None \<Rightarrow> rs ! j = \<lparr>wr_item = items ! j, wr_ok = True, wr_error = None\<rparr>
      | Some i \<Rightarrow> \<exists>e. write_chunk_exchange (chunks ! i) (execute i) = Inl e \<and>
          rs ! j = \<lparr>wr_item = items ! j, wr_ok = False, wr_error = Some e\<rparr>" if "j < length items" for j
  proof (cases "find (failed j) [0..<length chunks]")
    case (Some i)
    then have "failed j i" by (metis find_Some_iff)
    then obtain e where "write_chunk_exchange (chunks ! i) (execute i) = Inl e"
      by (auto simp: failed_def is_raised_iff)
    with Some res [OF that] show ?thesis by (simp add: ack_def)
  qed (use res [OF that] in simp)
  with run len show ?thesis by blast
qed

theorem write_results_per_item_witness:
  "\<exists>rs. plan_and_execute_writes [WriteCoils 7 [True]] (\<lambda>_ _. Inl ModbusTimeoutError) [] = Inr rs \<and>
     rs ! 0 = \<lparr>wr_item = WriteCoils 7 [True], wr_ok = False, wr_error = Some ModbusTimeoutError\<rparr>"
proof -
  have p: "plan_writes [WriteCoils 7 [True]] = Inr [coil_chunk 0 7 [True]]"
    by (simp add: plan_writes_def split_values.simps MAX_WRITE_COILS_def Let_def)
  have "write_chunk_exchange (coil_chunk 0 7 [True]) (\<lambda>_. Inl ModbusTimeoutError) = Inl ModbusTimeoutError"
    using single_coil.wreq_ok [of 7 True] by (auto simp: write_chunk_exchange_def coil_chunk_def)
  then show ?thesis
    using write_results_per_item [OF p, of "\<lambda>_ _. Inl ModbusTimeoutError" "[]"]
    by (auto simp: coil_chunk_def)
qed

end
