(* ===== verification/Host_Store.thy ===== *)
theory Host_Store
  imports Server_Laws Planner_Writes
begin

text \<open>
  The contract of a host store behind the server's callbacks, and what it gives the client: a read
  request that the client encodes is answered with the store's cells, a write request changes
  exactly the cells it names.
\<close>

text \<open>A cell that a response can carry: a register, or a bit.\<close>

fun cell_ok :: "area \<Rightarrow> pyval \<Rightarrow> bool" where
  "cell_ok HOLDING_REGISTER v = (\<exists>i. v = PInt i \<and> is_reg i)"
| "cell_ok INPUT_REGISTER v = (\<exists>i. v = PInt i \<and> is_reg i)"
| "cell_ok COIL v = (\<exists>b. v = PBool b)"
| "cell_ok DISCRETE_INPUT v = (\<exists>b. v = PBool b)"

lemma py_bool_cells: "list_all (\<lambda>v. \<exists>b. v = PBool b) vs \<Longrightarrow> map PBool (map py_bool vs) = vs"
  by (induction vs) auto

lemma to_int_list_cells:
  assumes "list_all (\<lambda>v. \<exists>i. v = PInt i \<and> is_reg i) vs"
  shows "\<exists>is. to_int_list vs (int (length vs)) = Inr is \<and> map PInt is = vs \<and> list_all is_reg is"
proof -
  have "\<exists>is. mapE (\<lambda>v. bindE (py_int v) (\<lambda>iv. if \<not> (0 \<le> iv \<and> iv \<le> 0xFFFF) then Inl slave_device_failure else Inr iv)) vs
      = Inr is \<and> map PInt is = vs \<and> list_all is_reg is"
    using assms
  proof (induction vs)
    case (Cons v vs)
    then obtain i "is" where "v = PInt i" "is_reg i" "map PInt is = vs" "list_all is_reg is"
      "mapE (\<lambda>v. bindE (py_int v) (\<lambda>iv. if \<not> (0 \<le> iv \<and> iv \<le> 0xFFFF) then Inl slave_device_failure else Inr iv)) vs = Inr is"
      by auto
    then show ?case by (intro exI [of _ "i # is"]) auto
  qed simp
  then show ?thesis by (simp add: to_int_list_def)
qed

text \<open>The answer to a read request, given what the callback returned.\<close>

primrec area_response :: "area \<Rightarrow> pyval list \<Rightarrow> int \<Rightarrow> bytes result" where
  "area_response COIL vs n = bindE (to_bool_list vs n) encode_response_read_coils"
| "area_response DISCRETE_INPUT vs n = bindE (to_bool_list vs n) encode_response_read_discrete_inputs"
| "area_response HOLDING_REGISTER vs n = bindE (to_int_list vs n) encode_response_read_holding_registers"
| "area_response INPUT_REGISTER vs n = bindE (to_int_list vs n) encode_response_read_input_registers"

lemma area_response_cells:
  assumes "list_all (cell_ok a) vs" "int (length vs) \<le> READ_LIMITS a"
  shows "\<exists>resp. area_response a vs (int (length vs)) = Inr resp \<and> area_values a resp (int (length vs)) = Inr vs"
proof -
  have bits: "\<exists>resp. enc (map py_bool vs) = Inr resp \<and> bindE (dec resp (int (length vs))) (\<lambda>bs. Inr (map PBool bs)) = Inr vs"
    if "read_response fc 2040 (\<lambda>_. True) enc dec" "list_all (\<lambda>v. \<exists>b. v = PBool b) vs" "length vs \<le> 2040" for fc enc dec
    using read_response.resp_ok [OF that(1), of "map py_bool vs"] that(3) py_bool_cells [OF that(2)]
    by (auto simp: list_all_iff)
  have regs: "\<exists>resp. bindE (to_int_list vs (int (length vs))) enc = Inr resp \<and>
      bindE (dec resp (int (length vs))) (\<lambda>is. Inr (map PInt is)) = Inr vs"
    if "read_response fc 127 is_reg enc dec" "list_all (\<lambda>v. \<exists>i. v = PInt i \<and> is_reg i) vs" "length vs \<le> 127" for fc enc dec
  proof -
    from to_int_list_cells [OF that(2)] obtain "is" where i: "to_int_list vs (int (length vs)) = Inr is"
      "map PInt is = vs" "list_all is_reg is" by blast
    then have "length is = length vs" by (metis length_map)
    with i read_response.resp_ok [OF that(1), of "is"] that(3) show ?thesis by auto
  qed
  show ?thesis
  proof (cases a)
    case COIL
    with assms bits [OF coils_resp.read_response_axioms] show ?thesis
      by (simp add: to_bool_list_def pymod_const list_all_iff)
  next
    case DISCRETE_INPUT
    with assms bits [OF discrete_resp.read_response_axioms] show ?thesis
      by (simp add: to_bool_list_def pymod_const list_all_iff)
  next
    case HOLDING_REGISTER
    with assms regs [OF holding_resp.read_response_axioms] show ?thesis
      by (simp add: pymod_const list_all_iff)
  next
    case INPUT_REGISTER
    with assms regs [OF input_resp.read_response_axioms] show ?thesis
      by (simp add: pymod_const list_all_iff)
  qed
qed

text \<open>Dispatching a read request that a client encoded.\<close>

lemma dispatch_read_request:
  assumes req: "area_request a s n = Inr req" and unit: "srv_unit_id srv \<in> {None, Some uid}"
    and cb: "srv_on_read srv a s n st = (r, st')"
  shows "dispatch srv uid req st =
    (case bindE r (\<lambda>vs. area_response a vs n) of
       Inr resp \<Rightarrow> Inr resp
     | Inl e \<Rightarrow> encode_exception_response (uint (req ! 0)) (exception_code e), st')"
proof -
  have "length req = 5 \<and> handle srv (uint (req ! 0)) req st = (bindE r (\<lambda>vs. area_response a vs n), st')"
  proof (cases a)
    case COIL
    with req coils_req.request_head [of s n req] coils_req.request_decoded [of s n req] cb show ?thesis
      by (cases r) (simp_all add: handle_def bindS_def call_read_def pureS_def)
  next
    case DISCRETE_INPUT
    with req discrete_req.request_head [of s n req] discrete_req.request_decoded [of s n req] cb show ?thesis
      by (cases r) (simp_all add: handle_def bindS_def call_read_def pureS_def pymod_const)
  next
    case HOLDING_REGISTER
    with req holding_req.request_head [of s n req] holding_req.request_decoded [of s n req] cb show ?thesis
      by (cases r) (simp_all add: handle_def bindS_def call_read_def pureS_def pymod_const)
  next
    case INPUT_REGISTER
    with req input_req.request_head [of s n req] input_req.request_decoded [of s n req] cb show ?thesis
      by (cases r) (simp_all add: handle_def bindS_def call_read_def pureS_def pymod_const)
  qed
  with unit show ?thesis by (auto simp: dispatch_def Let_def split: sum.split)
qed

text \<open>An exception response is raised by the client's decoder.\<close>

lemma raise_exception_encoded:
  assumes "0 \<le> fc" "fc < 128" "encode_exception_response fc code = Inr p"
  shows "raise_exception p fc = Inl (ResponseError (case EXCEPTION_BY_CODE code of None \<Rightarrow> SlaveDeviceFailure | Some c \<Rightarrow> c) code)"
proof -
  have "uint (word_of_int fc + 128 :: byte) = fc + 128"
    using uint_word_of_int_byte [of "fc + 128"] assms by simp
  then have "uint (word_of_int (fc OR 128) :: byte) = fc OR 128" "fc OR 128 \<noteq> fc"
    using assms exception_bit_or [of fc] by auto
  with assms show ?thesis
    by (auto simp: encode_exception_response_eq raise_exception_def detect_exception_def EXCEPTION_BIT_def
        mk_response_def split: if_splits)
qed

abbreviation illegal_data_address :: py_exn where
  "illegal_data_address \<equiv> mk_response IllegalDataAddress None"

lemma area_values_illegal_address:
  assumes "area_request a s n = Inr req" "encode_exception_response (uint (req ! 0)) (class_code IllegalDataAddress) = Inr resp"
  shows "area_values a resp n = Inl illegal_data_address"
proof -
  have ill: "ResponseError (case EXCEPTION_BY_CODE 2 of None \<Rightarrow> SlaveDeviceFailure | Some c \<Rightarrow> c) 2 = illegal_data_address"
    by (simp add: EXCEPTION_BY_CODE_def mk_response_def)
  show ?thesis
  proof (cases a)
    case COIL
    with assms coils_req.request_head [of s n req] have "raise_exception resp FC_READ_COILS = Inl illegal_data_address"
      using raise_exception_encoded [of FC_READ_COILS 2 resp] ill by (simp add: pymod_const)
    with COIL show ?thesis by (simp add: decode_read_coils_def decode_bit_response_def)
  next
    case DISCRETE_INPUT
    with assms discrete_req.request_head [of s n req] have "raise_exception resp FC_READ_DISCRETE_INPUTS = Inl illegal_data_address"
      using raise_exception_encoded [of FC_READ_DISCRETE_INPUTS 2 resp] ill by (simp add: pymod_const)
    with DISCRETE_INPUT show ?thesis by (simp add: decode_read_discrete_inputs_def decode_bit_response_def)
  next
    case HOLDING_REGISTER
    with assms holding_req.request_head [of s n req] have "raise_exception resp FC_READ_HOLDING_REGISTERS = Inl illegal_data_address"
      using raise_exception_encoded [of FC_READ_HOLDING_REGISTERS 2 resp] ill by (simp add: pymod_const)
    with HOLDING_REGISTER show ?thesis by (simp add: decode_read_holding_registers_def decode_register_response_def)
  next
    case INPUT_REGISTER
    with assms input_req.request_head [of s n req] have "raise_exception resp FC_READ_INPUT_REGISTERS = Inl illegal_data_address"
      using raise_exception_encoded [of FC_READ_INPUT_REGISTERS 2 resp] ill by (simp add: pymod_const)
    with INPUT_REGISTER show ?thesis by (simp add: decode_read_input_registers_def decode_register_response_def)
  qed
qed

section \<open>Write requests\<close>

text \<open>The cells a write chunk carries, as the server hands them to the host.\<close>

definition chunk_values :: "write_chunk \<Rightarrow> pyval list" where
  "chunk_values c =
     (case wc_area c of
        COIL \<Rightarrow> map PBool (case wc_coil_values c of None \<Rightarrow> [] | Some vs \<Rightarrow> vs)
      | _ \<Rightarrow> map PInt (case wc_register_values c of None \<Rightarrow> [] | Some vs \<Rightarrow> vs))"

text \<open>The request that the exchange of a chunk sends.\<close>

definition write_request :: "write_chunk \<Rightarrow> bytes result" where
  "write_request c =
     (case wc_area c of
        HOLDING_REGISTER \<Rightarrow>
          (case wc_register_values c of
             None \<Rightarrow> Inl AssertionError
           | Some vs \<Rightarrow> if length vs = 1 then encode_write_single_register (wc_start c) (vs ! 0)
                        else encode_write_multiple_registers (wc_start c) vs)
      | COIL \<Rightarrow>
          (case wc_coil_values c of
             None \<Rightarrow> Inl AssertionError
           | Some vs \<Rightarrow> if length vs = 1 then encode_write_single_coil (wc_start c) (vs ! 0)
                        else encode_write_multiple_coils (wc_start c) vs)
      | _ \<Rightarrow> Inl AssertionError)"

lemma write_chunk_exchange_request:
  "write_chunk_exchange c ex = bindE (write_request c) (\<lambda>req. bindE (ex req) (\<lambda>r. write_chunk_exchange c (\<lambda>_. Inr r)))"
proof -
  have via: "bindE enc (\<lambda>req. bindE (ex req) dec) = bindE enc (\<lambda>req. bindE (ex req) (\<lambda>r. bindE enc (\<lambda>_. dec r)))"
    for enc :: "bytes result" and dec :: "bytes \<Rightarrow> unit result"
    by (cases enc) simp_all
  show ?thesis
    unfolding write_chunk_exchange_def write_request_def
    by (auto intro: via split: area.split option.split)
qed

text \<open>
  A write request of a well-formed chunk reaches the callback with exactly the cells of the chunk, and
  the answer to it makes the exchange succeed.
\<close>

lemma exI2: "P x y \<Longrightarrow> \<exists>x y. P x y"
  by blast

lemma dispatch_write_chunk:
  assumes wf: "wf_write_chunk c" and addr: "is_reg (wc_start c)"
    and srv: "srv_on_write srv = Some w" "srv_unit_id srv \<in> {None, Some uid}"
    and cb: "w (wc_area c) (wc_start c) (chunk_values c) st = (Inr (), st')"
  shows "\<exists>req resp. write_request c = Inr req \<and> dispatch srv uid req st = (Inr resp, st') \<and>
    write_chunk_exchange c (\<lambda>_. Inr resp) = Inr ()"
proof -
  have unit: "\<not> (srv_unit_id srv \<noteq> None \<and> srv_unit_id srv \<noteq> Some uid)" using srv(2) by auto
  note run = handle_def dispatch_def Let_def bindS_def pureS_def call_write_def write_chunk_exchange_def write_request_def pymod_const
  from wf consider
      vs where "wc_area c = HOLDING_REGISTER" "wc_register_values c = Some vs" "length vs = 1" "list_all is_reg vs"
    | vs where "wc_area c = HOLDING_REGISTER" "wc_register_values c = Some vs" "length vs \<noteq> 1" "1 \<le> length vs"
        "length vs \<le> 123" "list_all is_reg vs"
    | vs where "wc_area c = COIL" "wc_coil_values c = Some vs" "length vs = 1"
    | vs where "wc_area c = COIL" "wc_coil_values c = Some vs" "length vs \<noteq> 1" "1 \<le> length vs" "length vs \<le> 1968"
    by (auto simp: wf_write_chunk_def)
  then show ?thesis
  proof cases
    case 1
    then obtain v where v: "vs = [v]" "is_reg v" by (cases vs) auto
    from single_register.wreq_ok [of "wc_start c" v] addr v obtain req where
      req: "encode_write_single_register (wc_start c) v = Inr (word_of_int FC_WRITE_SINGLE_REGISTER # req)"
        "decode_request_write_single_register (word_of_int FC_WRITE_SINGLE_REGISTER # req) = Inr (wc_start c, v)" by auto
    from single_register.wresp_ok [of "wc_start c" v] addr v obtain resp where
      "encode_response_write_single_register (wc_start c) v = Inr resp" "decode_write_single_register resp = Inr (wc_start c, v)" by auto
    with req 1 v srv unit cb show ?thesis
      by (intro exI2 [where x = "word_of_int FC_WRITE_SINGLE_REGISTER # req" and y = resp]) (auto simp: run chunk_values_def)
  next
    case 2
    from multiple_registers.wreq_ok [of "wc_start c" vs] addr 2 obtain req where
      req: "encode_write_multiple_registers (wc_start c) vs = Inr (word_of_int FC_WRITE_MULTIPLE_REGISTERS # req)"
        "decode_request_write_multiple_registers (word_of_int FC_WRITE_MULTIPLE_REGISTERS # req) = Inr (wc_start c, vs)" by auto
    from multiple_registers.wresp_ok [of "wc_start c" vs] addr 2 obtain resp where
      "encode_response_write_multiple_registers (wc_start c) (int (length vs)) = Inr resp"
      "decode_write_multiple_registers resp = Inr (wc_start c, int (length vs))" by auto
    with req 2 srv unit cb show ?thesis
      by (intro exI2 [where x = "word_of_int FC_WRITE_MULTIPLE_REGISTERS # req" and y = resp]) (auto simp: run chunk_values_def)
  next
    case 3
    then obtain v where v: "vs = [v]" by (cases vs) auto
    from single_coil.wreq_ok [of "wc_start c" v] addr obtain req where
      req: "encode_write_single_coil (wc_start c) v = Inr (word_of_int FC_WRITE_SINGLE_COIL # req)"
        "decode_request_write_single_coil (word_of_int FC_WRITE_SINGLE_COIL # req) = Inr (wc_start c, v)" by auto
    from single_coil.wresp_ok [of "wc_start c" v] addr obtain resp where
      "encode_response_write_single_coil (wc_start c) v = Inr resp" "decode_write_single_coil resp = Inr (wc_start c, v)" by auto
    with req 3 v srv unit cb show ?thesis
      by (intro exI2 [where x = "word_of_int FC_WRITE_SINGLE_COIL # req" and y = resp]) (auto simp: run chunk_values_def)
  next
    case 4
    from multiple_coils.wreq_ok [of "wc_start c" vs] addr 4 obtain req where
      req: "encode_write_multiple_coils (wc_start c) vs = Inr (word_of_int FC_WRITE_MULTIPLE_COILS # req)"
        "decode_request_write_multiple_coils (word_of_int FC_WRITE_MULTIPLE_COILS # req) = Inr (wc_start c, vs)" by auto
    from multiple_coils.wresp_ok [of "wc_start c" vs] addr 4 obtain resp where
      "encode_response_write_multiple_coils (wc_start c) (int (length vs)) = Inr resp"
      "decode_write_multiple_coils resp = Inr (wc_start c, int (length vs))" by auto
    with req 4 srv unit cb show ?thesis
      by (intro exI2 [where x = "word_of_int FC_WRITE_MULTIPLE_COILS # req" and y = resp]) (auto simp: run chunk_values_def)
  qed
qed

text \<open>A server without a write callback refuses the request of every well-formed chunk.\<close>

lemma illegal_function_raised:
  assumes "fc \<in> {5, 6, 15, 16}"
  shows "raise_exception [word_of_int (fc OR 128), 1] fc = Inl (mk_response IllegalFunction None)"
  using assms raise_exception_encoded [of fc 1 "[word_of_int (fc OR 128), 1]"]
  by (auto simp: encode_exception_response_eq EXCEPTION_BY_CODE_def mk_response_def)

lemma dispatch_write_refused:
  assumes wf: "wf_write_chunk c" and addr: "is_reg (wc_start c)"
    and srv: "srv_on_write srv = None" "srv_unit_id srv \<in> {None, Some uid}"
  shows "\<exists>req resp. write_request c = Inr req \<and> dispatch srv uid req st = (Inr resp, st) \<and>
    write_chunk_exchange c (\<lambda>_. Inr resp) = Inl (mk_response IllegalFunction None)"
proof -
  have refused: "dispatch srv uid (word_of_int fc # body) st = (Inr [word_of_int (fc OR 128), 1], st)"
    if "fc \<in> {5, 6, 15, 16}" for fc body
    using srv that by (auto simp: dispatch_def handle_def pureS_def encode_exception_response_eq pymod_const)
  note run = write_chunk_exchange_def write_request_def
  from wf consider
      vs where "wc_area c = HOLDING_REGISTER" "wc_register_values c = Some vs" "length vs = 1" "list_all is_reg vs"
    | vs where "wc_area c = HOLDING_REGISTER" "wc_register_values c = Some vs" "length vs \<noteq> 1" "1 \<le> length vs"
        "length vs \<le> 123" "list_all is_reg vs"
    | vs where "wc_area c = COIL" "wc_coil_values c = Some vs" "length vs = 1"
    | vs where "wc_area c = COIL" "wc_coil_values c = Some vs" "length vs \<noteq> 1" "1 \<le> length vs" "length vs \<le> 1968"
    by (auto simp: wf_write_chunk_def)
  then show ?thesis
  proof cases
    case 1
    then obtain v where v: "vs = [v]" "is_reg v" by (cases vs) auto
    with single_register.wreq_ok [of "wc_start c" v] addr obtain body where
      "encode_write_single_register (wc_start c) v = Inr (word_of_int 6 # body)" by (auto simp: pymod_const)
    with 1 v refused [of 6 body] illegal_function_raised [of 6] show ?thesis
      by (simp add: run decode_write_single_register_def pymod_const)
  next
    case 2
    with multiple_registers.wreq_ok [of "wc_start c" vs] addr obtain body where
      "encode_write_multiple_registers (wc_start c) vs = Inr (word_of_int 16 # body)" by (auto simp: pymod_const)
    with 2 refused [of 16 body] illegal_function_raised [of 16] show ?thesis
      by (simp add: run decode_write_multiple_registers_def pymod_const)
  next
    case 3
    then obtain v where v: "vs = [v]" by (cases vs) auto
    with single_coil.wreq_ok [of "wc_start c" v] addr obtain body where
      "encode_write_single_coil (wc_start c) v = Inr (word_of_int 5 # body)" by (auto simp: pymod_const)
    with 3 v refused [of 5 body] illegal_function_raised [of 5] show ?thesis
      by (simp add: run decode_write_single_coil_def pymod_const)
  next
    case 4
    with multiple_coils.wreq_ok [of "wc_start c" vs] addr obtain body where
      "encode_write_multiple_coils (wc_start c) vs = Inr (word_of_int 15 # body)" by (auto simp: pymod_const)
    with 4 refused [of 15 body] illegal_function_raised [of 15] show ?thesis
      by (simp add: run decode_write_multiple_coils_def pymod_const)
  qed
qed

text \<open>A chunk, and a list of chunks in order, exchanged directly with the server.\<close>

definition serve_chunk :: "'s server \<Rightarrow> int \<Rightarrow> write_chunk \<Rightarrow> ('s, unit) effect" where
  "serve_chunk srv uid c st =
     (case write_request c of
        Inl e \<Rightarrow> (Inl e, st)
      | Inr req \<Rightarrow> let (r, st') = dispatch srv uid req st in (bindE r (\<lambda>resp. write_chunk_exchange c (\<lambda>_. Inr resp)), st'))"

primrec serve_chunks :: "'s server \<Rightarrow> int \<Rightarrow> write_chunk list \<Rightarrow> 's \<Rightarrow> unit result list \<times> 's" where
  "serve_chunks srv uid [] st = ([], st)"
| "serve_chunks srv uid (c # cs) st =
     (let (r, st1) = serve_chunk srv uid c st; (rs, st2) = serve_chunks srv uid cs st1 in (r # rs, st2))"

text \<open>The cells that the chunks of one write set, in order, are those of one large write.\<close>

definition set_cells :: "area \<Rightarrow> int \<Rightarrow> write_chunk \<Rightarrow> pyval option \<Rightarrow> pyval option" where
  "set_cells b x c old =
     (if b = wc_area c \<and> wc_start c \<le> x \<and> x < wc_start c + int (length (chunk_values c))
      then Some (chunk_values c ! nat (x - wc_start c)) else old)"

lemma split_values_set_cells:
  assumes "0 < limit"
    and mk: "\<And>addr part. wc_area (mk addr part) = a \<and> wc_start (mk addr part) = addr \<and> chunk_values (mk addr part) = map f part"
  shows "foldl (\<lambda>old c. set_cells b x c old) old (split_values limit mk addr vs) =
    (if b = a \<and> addr \<le> x \<and> x < addr + int (length vs) then Some (f (vs ! nat (x - addr))) else old)"
proof (induction vs arbitrary: addr old rule: length_induct)
  case (1 vs)
  show ?case
  proof (cases "vs = []")
    case False
    define n where "n = min limit (length vs)"
    have n: "0 < n" "n \<le> length vs" using False assms(1) by (simp_all add: n_def)
    have step: "split_values limit mk addr vs =
        mk addr (take n vs) # split_values limit mk (addr + int n) (drop n vs)"
      using False assms(1) by (subst split_values.simps) (simp add: n_def Let_def)
    have first: "set_cells b x (mk addr (take n vs)) old =
        (if b = a \<and> addr \<le> x \<and> x < addr + int n then Some (f (vs ! nat (x - addr))) else old)"
      using mk [of addr "take n vs"] n by (auto simp: set_cells_def)
    have rest: "foldl (\<lambda>old c. set_cells b x c old) old' (split_values limit mk (addr + int n) (drop n vs)) =
        (if b = a \<and> addr + int n \<le> x \<and> x < addr + int (length vs) then Some (f (vs ! nat (x - addr))) else old')" for old'
    proof -
      have "length (drop n vs) < length vs" using n by simp
      from "1.IH" [rule_format, OF this, of old' "addr + int n"]
      have "foldl (\<lambda>old c. set_cells b x c old) old' (split_values limit mk (addr + int n) (drop n vs)) =
        (if b = a \<and> addr + int n \<le> x \<and> x < addr + int n + int (length (drop n vs))
         then Some (f (drop n vs ! nat (x - (addr + int n)))) else old')" .
      moreover have "drop n vs ! nat (x - (addr + int n)) = vs ! nat (x - addr)" if "addr + int n \<le> x"
      proof -
        have "nat (x - addr) = n + nat (x - (addr + int n))" using that by simp
        then show ?thesis using n by simp
      qed
      ultimately show ?thesis using n by (auto simp: of_nat_diff)
    qed
    show ?thesis unfolding step using first rest n by auto
  qed (auto simp: split_values.simps)
qed

lemma writes_refused:
  assumes "srv_on_write srv = None" "srv_unit_id srv \<in> {None, Some uid}" "\<forall>c \<in> set cs. wf_write_chunk c \<and> is_reg (wc_start c)"
  shows "serve_chunks srv uid cs st = (map (\<lambda>_. Inl (mk_response IllegalFunction None)) cs, st)"
  using assms(3)
proof (induction cs)
  case (Cons c cs)
  with dispatch_write_refused [OF _ _ assms(1,2), of c st] show ?case by (auto simp: serve_chunk_def)
qed simp

section \<open>The contract of a store\<close>

text \<open>
  The callbacks of a host that keeps a memory of cells: a read gives the cells or, if one of them is not
  there, \<open>IllegalDataAddress\<close>, and changes nothing; a write of coils or holding registers sets exactly the
  cells it names.
\<close>

locale host_store =
  fixes on_read :: "area \<Rightarrow> int \<Rightarrow> int \<Rightarrow> ('s, pyval list) effect"
    and on_write :: "area \<Rightarrow> int \<Rightarrow> pyval list \<Rightarrow> ('s, unit) effect"
    and peek :: "'s \<Rightarrow> area \<Rightarrow> int \<Rightarrow> pyval option"
  assumes read_mapped: "\<forall>x \<in> {s..<s + n}. peek st a x \<noteq> None \<Longrightarrow>
      on_read a s n st = (Inr (map (\<lambda>x. the (peek st a x)) [s..s + n - 1]), st)"
    and read_unmapped: "\<exists>x \<in> {s..<s + n}. peek st a x = None \<Longrightarrow> on_read a s n st = (Inl illegal_data_address, st)"
    and write_cells: "a \<in> {COIL, HOLDING_REGISTER} \<Longrightarrow> \<exists>st'. on_write a s vs st = (Inr (), st') \<and>
      (\<forall>b x. peek st' b x = (if b = a \<and> s \<le> x \<and> x < s + int (length vs) then Some (vs ! nat (x - s)) else peek st b x))"
begin

text \<open>A memory whose cells responses can carry.\<close>

definition typed :: "'s \<Rightarrow> bool" where
  "typed st \<longleftrightarrow> (\<forall>a x v. peek st a x = Some v \<longrightarrow> cell_ok a v)"

lemma read_served:
  assumes srv: "srv_on_read srv = on_read" "srv_unit_id srv \<in> {None, Some uid}" and req: "area_request a s n = Inr req"
    and "typed st" "\<forall>x \<in> {s..<s + n}. peek st a x \<noteq> None"
  shows "\<exists>resp. dispatch srv uid req st = (Inr resp, st) \<and>
    area_values a resp n = Inr (map (\<lambda>x. the (peek st a x)) [s..s + n - 1])"
proof -
  let ?vs = "map (\<lambda>x. the (peek st a x)) [s..s + n - 1]"
  have n: "1 \<le> n" "n \<le> READ_LIMITS a" using req area_request_iff(1) [of a s n] by auto
  then have len: "int (length ?vs) = n" by simp
  have "cell_ok a (the (peek st a x))" if "x \<in> set [s..s + n - 1]" for x
    using assms(4) bspec [OF assms(5), of x] that by (auto simp: typed_def)
  then have "list_all (cell_ok a) ?vs" by (auto simp: list_all_iff)
  with area_response_cells [of a ?vs] n len obtain resp where
    "area_response a ?vs n = Inr resp" "area_values a resp n = Inr ?vs" by auto
  with dispatch_read_request [OF req srv(2), of st "Inr ?vs" st] read_mapped [OF assms(5)] srv(1) show ?thesis by simp
qed

lemma read_refused:
  assumes srv: "srv_on_read srv = on_read" "srv_unit_id srv \<in> {None, Some uid}" and req: "area_request a s n = Inr req"
    and un: "\<exists>x \<in> {s..<s + n}. peek st a x = None"
  shows "\<exists>resp. dispatch srv uid req st = (Inr resp, st) \<and> area_values a resp n = Inl illegal_data_address"
proof -
  have "exception_code illegal_data_address = class_code IllegalDataAddress" by (simp add: mk_response_def)
  moreover obtain resp where resp: "encode_exception_response (uint (req ! 0)) (class_code IllegalDataAddress) = Inr resp"
    by (simp add: encode_exception_response_eq)
  ultimately have "dispatch srv uid req st = (Inr resp, st)"
    using dispatch_read_request [OF req srv(2), of st "Inl illegal_data_address" st] read_unmapped [OF un] srv(1) by simp
  with area_values_illegal_address [OF req resp] show ?thesis by blast
qed

text \<open>Either way the store is unchanged, and the client gets the cells or the error.\<close>

lemma read_outcome:
  assumes "srv_on_read srv = on_read" "srv_unit_id srv \<in> {None, Some uid}" "area_request a s n = Inr req" "typed st"
  shows "\<exists>resp. dispatch srv uid req st = (Inr resp, st) \<and> area_values a resp n =
    (if \<forall>x \<in> {s..<s + n}. peek st a x \<noteq> None then Inr (map (\<lambda>x. the (peek st a x)) [s..s + n - 1])
     else Inl illegal_data_address)"
  using read_served [OF assms(1-4)] read_refused [OF assms(1-3)] by (cases "\<forall>x \<in> {s..<s + n}. peek st a x \<noteq> None") auto

lemma write_served:
  assumes "srv_on_write srv = Some on_write" "srv_unit_id srv \<in> {None, Some uid}" "wf_write_chunk c" "is_reg (wc_start c)"
  shows "\<exists>st'. serve_chunk srv uid c st = (Inr (), st') \<and> (\<forall>b x. peek st' b x = set_cells b x c (peek st b x))"
proof -
  have "wc_area c \<in> {COIL, HOLDING_REGISTER}" using assms(3) by (auto simp: wf_write_chunk_def)
  from write_cells [OF this, of "wc_start c" "chunk_values c" st] obtain st' where
    st': "on_write (wc_area c) (wc_start c) (chunk_values c) st = (Inr (), st')"
      "\<forall>b x. peek st' b x = (if b = wc_area c \<and> wc_start c \<le> x \<and> x < wc_start c + int (length (chunk_values c))
        then Some (chunk_values c ! nat (x - wc_start c)) else peek st b x)" by blast
  from dispatch_write_chunk [OF assms(3,4,1,2) st'(1)] obtain req resp where
    "write_request c = Inr req" "dispatch srv uid req st = (Inr resp, st')" "write_chunk_exchange c (\<lambda>_. Inr resp) = Inr ()"
    by blast
  with st'(2) show ?thesis by (simp add: serve_chunk_def set_cells_def)
qed

text \<open>A list of chunks served in order: all are acknowledged, and the memory is that of the cells in order.\<close>

lemma writes_served:
  assumes "srv_on_write srv = Some on_write" "srv_unit_id srv \<in> {None, Some uid}"
    and "\<forall>c \<in> set cs. wf_write_chunk c \<and> is_reg (wc_start c)"
  shows "\<exists>st'. serve_chunks srv uid cs st = (map (\<lambda>_. Inr ()) cs, st') \<and>
    (\<forall>b x. peek st' b x = foldl (\<lambda>old c. set_cells b x c old) (peek st b x) cs)"
  using assms(3)
proof (induction cs arbitrary: st)
  case (Cons c cs)
  from write_served [OF assms(1,2), of c st] Cons.prems obtain st1 where
    st1: "serve_chunk srv uid c st = (Inr (), st1)" "\<forall>b x. peek st1 b x = set_cells b x c (peek st b x)" by auto
  from Cons.IH [of st1] Cons.prems obtain st2 where
    "serve_chunks srv uid cs st1 = (map (\<lambda>_. Inr ()) cs, st2)"
    "\<forall>b x. peek st2 b x = foldl (\<lambda>old c. set_cells b x c old) (peek st1 b x) cs" by auto
  with st1 show ?case by simp
qed simp

end

end
