(* ===== verification/Retry.thy ===== *)
theory Retry
  imports Errors Complex_Main
begin

text \<open>
  The retry policy of \<open>src/pymod/retry.py\<close>.  Times are rational numbers: the rounding of Python's
  floats is left out, their overflow is not.  A float power whose value would round to an infinity
  raises \<open>OverflowError\<close>; a product that overflows is an infinity, which is above every cap, as the
  exact product is.
\<close>

section \<open>Policy\<close>

definition FLOAT_OVERFLOW :: rat where
  "FLOAT_OVERFLOW = 2 ^ 1024 - 2 ^ 970"

definition float_pow :: "rat \<Rightarrow> nat \<Rightarrow> rat result" where
  "float_pow x n = (if \<bar>x ^ n\<bar> \<ge> FLOAT_OVERFLOW then Inl OverflowError else Inr (x ^ n))"

record retry_policy =
  max_attempts :: int
  backoff_initial_s :: rat
  backoff_factor :: rat
  backoff_cap_s :: rat
  retry_on :: "exn_class list"

text \<open>The field defaults, which are also \<open>_DEFAULT_RETRY\<close> of the client.\<close>

definition default_retry :: retry_policy where
  "default_retry = \<lparr>max_attempts = 2, backoff_initial_s = 5 / 100, backoff_factor = 2, backoff_cap_s = 1,
     retry_on = [C_ModbusTimeoutError, C_ModbusConnectionError]\<rparr>"

definition delay_for :: "retry_policy \<Rightarrow> int \<Rightarrow> rat result" where
  "delay_for policy attempt =
     (if attempt \<le> 0 then Inr 0
      else bindE (float_pow (backoff_factor policy) (nat (attempt - 1))) (\<lambda>p.
        Inr (min (backoff_initial_s policy * p) (backoff_cap_s policy))))"

text \<open>\<open>except policy.retry_on\<close>: the exception is an instance of one of the classes.\<close>

definition retries :: "retry_policy \<Rightarrow> py_exn \<Rightarrow> bool" where
  "retries policy e = (\<exists>c \<in> set (retry_on policy). isinstance_exn e c)"

section \<open>Laws\<close>

lemma float_pow_eq:
  "float_pow x n = Inr y \<longleftrightarrow> \<bar>x ^ n\<bar> < FLOAT_OVERFLOW \<and> y = x ^ n"
  "float_pow x n = Inl e \<longleftrightarrow> FLOAT_OVERFLOW \<le> \<bar>x ^ n\<bar> \<and> e = OverflowError"
  by (auto simp: float_pow_def)

lemma delay_for_pos:
  "1 \<le> attempt \<Longrightarrow> delay_for policy attempt = Inr d \<longleftrightarrow>
     \<bar>backoff_factor policy ^ nat (attempt - 1)\<bar> < FLOAT_OVERFLOW \<and>
     d = min (backoff_initial_s policy * backoff_factor policy ^ nat (attempt - 1)) (backoff_cap_s policy)"
  by (auto simp: delay_for_def bindE_eq_Inr float_pow_eq)

lemma delay_for_error:
  "delay_for policy attempt = Inl e \<longleftrightarrow>
     1 \<le> attempt \<and> FLOAT_OVERFLOW \<le> \<bar>backoff_factor policy ^ nat (attempt - 1)\<bar> \<and> e = OverflowError"
  by (auto simp: delay_for_def bindE_eq_Inl float_pow_eq)

lemma delay_for_nonpos [simp]: "attempt \<le> 0 \<Longrightarrow> delay_for policy attempt = Inr 0"
  by (simp add: delay_for_def)

lemma delay_for_range:
  assumes "delay_for policy attempt = Inr d" "0 \<le> backoff_initial_s policy" "0 \<le> backoff_factor policy"
    "0 \<le> backoff_cap_s policy"
  shows "0 \<le> d \<and> d \<le> backoff_cap_s policy"
  using assms by (cases "attempt \<le> 0") (auto simp: delay_for_pos not_le)

lemma delay_for_mono:
  assumes "delay_for policy i = Inr d" "delay_for policy j = Inr d'" "i \<le> j"
    and "0 \<le> backoff_initial_s policy" "1 \<le> backoff_factor policy" "0 \<le> backoff_cap_s policy"
  shows "d \<le> d'"
proof (cases "i \<le> 0")
  case True
  with assms delay_for_range [OF assms(2)] show ?thesis by simp
next
  case False
  with assms have "backoff_factor policy ^ nat (i - 1) \<le> backoff_factor policy ^ nat (j - 1)"
    by (intro power_increasing) auto
  from mult_left_mono [OF this assms(4)] False assms show ?thesis by (auto simp: delay_for_pos)
qed

lemma default_delay_overflow: "delay_for default_retry attempt = Inl OverflowError \<longleftrightarrow> 1025 \<le> attempt"
proof -
  have ge: "FLOAT_OVERFLOW \<le> 2 ^ n \<longleftrightarrow> 1024 \<le> n" for n
  proof
    assume "1024 \<le> n"
    then have "(2::rat) ^ 1024 \<le> 2 ^ n" by (intro power_increasing) auto
    moreover have "FLOAT_OVERFLOW \<le> 2 ^ 1024" by (simp add: FLOAT_OVERFLOW_def)
    ultimately show "FLOAT_OVERFLOW \<le> 2 ^ n" by linarith
  next
    assume le: "FLOAT_OVERFLOW \<le> 2 ^ n"
    show "1024 \<le> n"
    proof (rule ccontr)
      assume "\<not> 1024 \<le> n"
      then have "(2::rat) ^ n \<le> 2 ^ 1023" by (intro power_increasing) auto
      moreover have "(2::rat) ^ 1023 < FLOAT_OVERFLOW" by (simp add: FLOAT_OVERFLOW_def)
      ultimately show False using le by linarith
    qed
  qed
  show ?thesis by (auto simp: delay_for_error default_retry_def ge nat_le_eq_zle)
qed

section \<open>Properties\<close>

text \<open>
  Bounds of the backoff.  For every policy with non-negative times and factor, the delay before a
  retry lies between 0 and the cap; with a factor of at least 1 the delays never decrease; below the
  cap the delay is the initial delay times the power of the factor.  The only error is
  \<open>OverflowError\<close>, when the power leaves the range of floats before the cap is applied.
\<close>

theorem backoff_bounds:
  assumes "0 \<le> backoff_initial_s policy" "0 \<le> backoff_factor policy" "0 \<le> backoff_cap_s policy"
  shows "(case delay_for policy attempt of
       Inr d \<Rightarrow> 0 \<le> d \<and> d \<le> backoff_cap_s policy \<and>
         (1 \<le> attempt \<longrightarrow> d = min (backoff_initial_s policy * backoff_factor policy ^ nat (attempt - 1)) (backoff_cap_s policy)) \<and>
         (1 \<le> backoff_factor policy \<longrightarrow>
           (\<forall>later \<ge> attempt. case delay_for policy later of Inr d' \<Rightarrow> d \<le> d' | Inl e \<Rightarrow> e = OverflowError))
     | Inl e \<Rightarrow> e = OverflowError \<and> FLOAT_OVERFLOW \<le> backoff_factor policy ^ nat (attempt - 1))"
proof (cases "delay_for policy attempt")
  case (Inl e)
  with delay_for_error [of policy attempt e] assms show ?thesis by simp
next
  case (Inr d)
  have "case delay_for policy later of Inr d' \<Rightarrow> d \<le> d' | Inl e \<Rightarrow> e = OverflowError"
    if "1 \<le> backoff_factor policy" "attempt \<le> later" for later
    using delay_for_mono [OF Inr _ that(2) assms(1) that(1) assms(3)] delay_for_error [of policy later]
    by (auto split: sum.split)
  with Inr delay_for_range [OF Inr assms] delay_for_pos [of attempt policy d] show ?thesis by simp
qed

theorem backoff_bounds_witness:
  "case delay_for default_retry 3 of Inr d \<Rightarrow> 0 \<le> d \<and> d \<le> 1 | Inl e \<Rightarrow> e = OverflowError"
  using backoff_bounds [of default_retry 3] by (auto simp: default_retry_def split: sum.splits)

end
