(* ===== verification/Client.thy ===== *)
theory Client
  imports Retry Effects Planner
begin

text \<open>
  The clients of \<open>src/pymod/client.py\<close> over the transport interface of \<open>src/pymod/transport/base.py\<close>.
  A transport is a record of effects on the world it lives in (its own state, the network, the
  devices, the clock); sleeping is an effect on the same world.  The tasks of a batch run
  concurrently, so a batch is given the world each of its tasks meets.
\<close>

section \<open>Transports and clients\<close>

record 'w transport =
  tr_connect :: "('w, unit) effect"
  tr_close :: "('w, unit) effect"
  tr_is_connected :: "'w \<Rightarrow> bool"
  tr_send_and_receive :: "bytes \<Rightarrow> int \<Rightarrow> rat \<Rightarrow> ('w, bytes) effect"

definition DEFAULT_TIMEOUT_S :: rat where
  "DEFAULT_TIMEOUT_S = 5 / 10"

record 'w client =
  cl_transport :: "'w transport"
  cl_unit_id :: int
  cl_timeout_s :: rat
  cl_retry :: retry_policy

definition make_client :: "'w transport \<Rightarrow> int \<Rightarrow> rat \<Rightarrow> retry_policy option \<Rightarrow> 'w client" where
  "make_client transport unit_id timeout_s retry =
     \<lparr>cl_transport = transport, cl_unit_id = unit_id, cl_timeout_s = timeout_s,
      cl_retry = (case retry of Some r \<Rightarrow> r | None \<Rightarrow> default_retry)\<rparr>"

text \<open>Per-call overrides of the defaults: \<open>x if x is not None else self._default\<close>.\<close>

primrec or_default :: "'a option \<Rightarrow> 'a \<Rightarrow> 'a" where
  "or_default None d = d"
| "or_default (Some x) d = x"

definition connect :: "'w client \<Rightarrow> ('w, unit) effect" where
  "connect cl = tr_connect (cl_transport cl)"

definition close :: "'w client \<Rightarrow> ('w, unit) effect" where
  "close cl = tr_close (cl_transport cl)"

definition client_is_connected :: "'w client \<Rightarrow> 'w \<Rightarrow> bool" where
  "client_is_connected cl = tr_is_connected (cl_transport cl)"

section \<open>Execution with retries\<close>

text \<open>The wait before an attempt: \<open>delay_for\<close> may raise, outside the \<open>try\<close>.\<close>

definition wait_before :: "(rat \<Rightarrow> 'w \<Rightarrow> 'w) \<Rightarrow> retry_policy \<Rightarrow> int \<Rightarrow> ('w, unit) effect" where
  "wait_before sleep policy attempt w =
     (if attempt > 1 then
        (case delay_for policy (attempt - 1) of Inl e \<Rightarrow> (Inl e, w) | Inr d \<Rightarrow> (Inr (), sleep d w))
      else (Inr (), w))"

text \<open>The \<open>for\<close> loop of \<open>execute\<close> over the attempts that are left, with \<open>last_exc\<close>.\<close>

primrec attempt_loop ::
  "(rat \<Rightarrow> 'w \<Rightarrow> 'w) \<Rightarrow> retry_policy \<Rightarrow> ('w, bytes) effect \<Rightarrow> py_exn option \<Rightarrow> int list \<Rightarrow> ('w, bytes) effect" where
  "attempt_loop sleep policy send last_exc [] w =
     (case last_exc of None \<Rightarrow> (Inl AssertionError, w) | Some e \<Rightarrow> (Inl e, w))"
| "attempt_loop sleep policy send last_exc (attempt # rest) w =
     (case wait_before sleep policy attempt w of
        (Inl e, w') \<Rightarrow> (Inl e, w')
      | (Inr _, w') \<Rightarrow>
          (case send w' of
             (Inr response, w'') \<Rightarrow> (Inr response, w'')
           | (Inl e, w'') \<Rightarrow>
               if retries policy e then
                 if attempt < max_attempts policy then attempt_loop sleep policy send (Some e) rest w''
                 else (Inl e, w'')
               else (Inl e, w'')))"

definition execute ::
  "(rat \<Rightarrow> 'w \<Rightarrow> 'w) \<Rightarrow> 'w client \<Rightarrow> bytes \<Rightarrow> int option \<Rightarrow> rat option \<Rightarrow> retry_policy option \<Rightarrow> ('w, bytes) effect" where
  "execute sleep cl pdu unit_id timeout_s retry =
     (let effective_unit_id = or_default unit_id (cl_unit_id cl);
          effective_timeout = or_default timeout_s (cl_timeout_s cl);
          policy = or_default retry (cl_retry cl)
      in attempt_loop sleep policy
           (tr_send_and_receive (cl_transport cl) pdu effective_unit_id effective_timeout)
           None [1 .. max_attempts policy])"

section \<open>Batches\<close>

definition make_pdu_executor ::
  "(rat \<Rightarrow> 'w \<Rightarrow> 'w) \<Rightarrow> 'w client \<Rightarrow> int option \<Rightarrow> rat option \<Rightarrow> retry_policy option \<Rightarrow> bytes \<Rightarrow> ('w, bytes) effect" where
  "make_pdu_executor sleep cl unit_id timeout_s retry =
     (let eu = or_default unit_id (cl_unit_id cl);
          et = or_default timeout_s (cl_timeout_s cl);
          er = or_default retry (cl_retry cl)
      in (\<lambda>pdu. execute sleep cl pdu (Some eu) (Some et) (Some er)))"

text \<open>
  \<open>read\<close> and \<open>write\<close>: \<open>worlds i\<close> is the world that the \<open>i\<close>-th request of the batch meets, \<open>completion\<close> the
  order in which the requests complete.
\<close>

definition client_read ::
  "(rat \<Rightarrow> 'w \<Rightarrow> 'w) \<Rightarrow> 'w client \<Rightarrow> read_item list \<Rightarrow> int option \<Rightarrow> rat option \<Rightarrow> retry_policy option \<Rightarrow>
   (nat \<Rightarrow> 'w) \<Rightarrow> nat list \<Rightarrow> read_result list result" where
  "client_read sleep cl items unit_id timeout_s retry worlds completion =
     (let executor = make_pdu_executor sleep cl unit_id timeout_s retry
      in plan_and_execute_reads items (\<lambda>i pdu. fst (executor pdu (worlds i))) completion)"

definition client_write ::
  "(rat \<Rightarrow> 'w \<Rightarrow> 'w) \<Rightarrow> 'w client \<Rightarrow> write_item list \<Rightarrow> int option \<Rightarrow> rat option \<Rightarrow> retry_policy option \<Rightarrow>
   (nat \<Rightarrow> 'w) \<Rightarrow> nat list \<Rightarrow> write_result list result" where
  "client_write sleep cl items unit_id timeout_s retry worlds completion =
     (let executor = make_pdu_executor sleep cl unit_id timeout_s retry
      in plan_and_execute_writes items (\<lambda>i pdu. fst (executor pdu (worlds i))) completion)"

section \<open>The synchronous facade\<close>

text \<open>
  \<open>Client\<close> runs each call on the event loop of a background thread and blocks for its result.  The loop
  is part of the world; once its thread has ended the loop is closed, and handing it a coroutine
  raises \<open>RuntimeError\<close>.
\<close>

record 'w sync_world =
  bl_alive :: bool
  sw_world :: 'w

definition run_coroutine :: "('w, 'a) effect \<Rightarrow> ('w sync_world, 'a) effect" where
  "run_coroutine coro s =
     (if bl_alive s then let (r, w) = coro (sw_world s) in (r, s\<lparr>sw_world := w\<rparr>)
      else (Inl RuntimeError, s))"

definition loop_stop :: "'w sync_world \<Rightarrow> 'w sync_world" where
  "loop_stop s = (if \<not> bl_alive s then s else s\<lparr>bl_alive := False\<rparr>)"

definition sync_connect :: "'w client \<Rightarrow> ('w sync_world, unit) effect" where
  "sync_connect cl = run_coroutine (connect cl)"

definition sync_close :: "'w client \<Rightarrow> ('w sync_world, unit) effect" where
  "sync_close cl s =
     (if bl_alive s then (Inr (), loop_stop (snd (ignoreS (run_coroutine (close cl)) s)))
      else (Inr (), s))"

definition sync_execute ::
  "(rat \<Rightarrow> 'w \<Rightarrow> 'w) \<Rightarrow> 'w client \<Rightarrow> bytes \<Rightarrow> int option \<Rightarrow> rat option \<Rightarrow> retry_policy option \<Rightarrow>
   ('w sync_world, bytes) effect" where
  "sync_execute sleep cl pdu unit_id timeout_s retry =
     run_coroutine (execute sleep cl pdu unit_id timeout_s retry)"

text \<open>The batches of the facade; the worlds of the tasks as before, and \<open>after\<close> the world when all have ended.\<close>

definition sync_read ::
  "(rat \<Rightarrow> 'w \<Rightarrow> 'w) \<Rightarrow> 'w client \<Rightarrow> read_item list \<Rightarrow> int option \<Rightarrow> rat option \<Rightarrow> retry_policy option \<Rightarrow>
   (nat \<Rightarrow> 'w) \<Rightarrow> nat list \<Rightarrow> 'w \<Rightarrow> ('w sync_world, read_result list) effect" where
  "sync_read sleep cl items unit_id timeout_s retry worlds completion after =
     run_coroutine (\<lambda>_. (client_read sleep cl items unit_id timeout_s retry worlds completion, after))"

definition sync_write ::
  "(rat \<Rightarrow> 'w \<Rightarrow> 'w) \<Rightarrow> 'w client \<Rightarrow> write_item list \<Rightarrow> int option \<Rightarrow> rat option \<Rightarrow> retry_policy option \<Rightarrow>
   (nat \<Rightarrow> 'w) \<Rightarrow> nat list \<Rightarrow> 'w \<Rightarrow> ('w sync_world, write_result list) effect" where
  "sync_write sleep cl items unit_id timeout_s retry worlds completion after =
     run_coroutine (\<lambda>_. (client_write sleep cl items unit_id timeout_s retry worlds completion, after))"

end
