(* ===== verification/Client_Laws.thy ===== *)
theory Client_Laws
  imports Client
begin

text \<open>Laws of the clients: which attempts \<open>execute\<close> makes, how long it takes, and the closed facade.\<close>

section \<open>Attempts\<close>

text \<open>An outcome after which \<open>execute\<close> tries again, as long as attempts are left.\<close>

fun retryable :: "retry_policy \<Rightarrow> 'a result \<Rightarrow> bool" where
  "retryable policy (Inl e) = retries policy e"
| "retryable policy (Inr x) = False"

definition delay :: "retry_policy \<Rightarrow> nat \<Rightarrow> rat" where
  "delay policy n = (case delay_for policy (int n) of Inr d \<Rightarrow> d | Inl e \<Rightarrow> 0)"

text \<open>
  The reference: the world before each attempt (counted from 0) when every earlier attempt failed and
  the wait that the policy asks for followed it.
\<close>

primrec before_attempt ::
  "(rat \<Rightarrow> 'w \<Rightarrow> 'w) \<Rightarrow> retry_policy \<Rightarrow> ('w, bytes) effect \<Rightarrow> 'w \<Rightarrow> nat \<Rightarrow> 'w" where
  "before_attempt sleep policy send w 0 = w"
| "before_attempt sleep policy send w (Suc n) =
     sleep (delay policy (Suc n)) (snd (send (before_attempt sleep policy send w n)))"

text \<open>The waits of the policy are all floats.\<close>

definition finite_delays :: "retry_policy \<Rightarrow> bool" where
  "finite_delays policy \<longleftrightarrow>
     (\<forall>n. 1 \<le> n \<and> int n < max_attempts policy \<longrightarrow> \<bar>backoff_factor policy ^ (n - 1)\<bar> < FLOAT_OVERFLOW)"

lemma finite_delaysD:
  "finite_delays policy \<Longrightarrow> 1 \<le> n \<Longrightarrow> int n < max_attempts policy \<Longrightarrow> delay_for policy (int n) = Inr (delay policy n)"
  by (cases "delay_for policy (int n)") (auto simp: delay_def finite_delays_def delay_for_error nat_diff_distrib not_less [symmetric])

lemma upto_from: "int k < m \<Longrightarrow> [int k + 1 .. m] = (int k + 1) # [int (Suc k) + 1 .. m]"
  by (subst upto.simps) (simp add: add.commute)

lemma attempt_loop_from:
  fixes sleep :: "rat \<Rightarrow> 'w \<Rightarrow> 'w" and send :: "('w, bytes) effect" and w0 :: 'w and policy :: retry_policy
  defines "before \<equiv> before_attempt sleep policy send w0"
  assumes "finite_delays policy" "int k < max_attempts policy"
    and "wait_before sleep policy (int k + 1) u = (Inr (), before k)"
  shows "\<exists>n \<ge> k. int n < max_attempts policy \<and>
    (\<forall>j. k \<le> j \<and> j < n \<longrightarrow> retryable policy (fst (send (before j)))) \<and>
    (int n + 1 = max_attempts policy \<or> \<not> retryable policy (fst (send (before n)))) \<and>
    attempt_loop sleep policy send last_exc [int k + 1 .. max_attempts policy] u = send (before n)"
  using assms(3,4)
proof (induction "nat (max_attempts policy) - k" arbitrary: k last_exc u)
  case 0
  then show ?case by simp
next
  case (Suc m)
  show ?case
  proof (cases "retryable policy (fst (send (before k))) \<and> int k + 1 < max_attempts policy")
    case False
    then have "attempt_loop sleep policy send last_exc [int k + 1 .. max_attempts policy] u = send (before k)"
      using Suc.prems upto_from [OF Suc.prems(1)]
      by (cases "send (before k)"; cases "fst (send (before k))") auto
    with False Suc.prems show ?thesis by (intro exI [of _ k]) auto
  next
    case True
    then obtain e u' where e: "send (before k) = (Inl e, u')" "retries policy e"
      by (cases "send (before k)"; cases "fst (send (before k))") auto
    have "wait_before sleep policy (int (Suc k) + 1) u' = (Inr (), before (Suc k))"
      using finite_delaysD [OF assms(2), of "Suc k"] True e
      by (simp add: wait_before_def before_def ac_simps)
    moreover have "m = nat (max_attempts policy) - Suc k" using Suc.hyps(2) by simp
    ultimately obtain n where n: "Suc k \<le> n" "int n < max_attempts policy"
        "\<forall>j. Suc k \<le> j \<and> j < n \<longrightarrow> retryable policy (fst (send (before j)))"
        "int n + 1 = max_attempts policy \<or> \<not> retryable policy (fst (send (before n)))"
        "attempt_loop sleep policy send (Some e) [int (Suc k) + 1 .. max_attempts policy] u' = send (before n)"
      using Suc.hyps(1) [of "Suc k" u' "Some e"] True by (auto simp: ac_simps)
    moreover have "attempt_loop sleep policy send last_exc [int k + 1 .. max_attempts policy] u = send (before n)"
      using n(5) e True Suc.prems upto_from [OF Suc.prems(1)] by simp
    moreover have "retryable policy (fst (send (before j)))" if "k \<le> j \<and> j < n" for j
      using n(3) True that by (cases "j = k") auto
    ultimately show ?thesis by (intro exI [of _ n]) auto
  qed
qed

text \<open>
  The outcome of a call is the outcome of one of its attempts, in a world that satisfies what exchanges
  and waits keep.
\<close>

lemma before_attempt_inv:
  assumes "\<And>w. P w \<Longrightarrow> P (snd (send w))" "\<And>d w. P w \<Longrightarrow> P (sleep d w)" "P w"
  shows "P (before_attempt sleep policy send w n)"
  by (induction n) (simp_all add: assms)

lemma execute_is_send:
  fixes P :: "'w \<Rightarrow> bool" and cl :: "'w client" and unit_id :: "int option" and timeout_s :: "rat option" and pdu :: bytes
  defines "send \<equiv> tr_send_and_receive (cl_transport cl) pdu (or_default unit_id (cl_unit_id cl)) (or_default timeout_s (cl_timeout_s cl))"
  assumes "finite_delays (or_default retry (cl_retry cl))" "1 \<le> max_attempts (or_default retry (cl_retry cl))"
    and "\<And>w. P w \<Longrightarrow> P (snd (send w))" "\<And>d w. P w \<Longrightarrow> P (sleep d w)" "P w"
  shows "\<exists>w'. P w' \<and> execute sleep cl pdu unit_id timeout_s retry w = send w'"
proof -
  obtain n where "execute sleep cl pdu unit_id timeout_s retry w =
      send (before_attempt sleep (or_default retry (cl_retry cl)) send w n)"
    using attempt_loop_from [OF assms(2), of 0 sleep w send w None] assms(3)
    by (auto simp: execute_def Let_def wait_before_def send_def)
  with before_attempt_inv [of P send sleep w, OF assms(4-6)] show ?thesis by blast
qed

section \<open>Time\<close>

lemma attempt_loop_clock:
  fixes clock :: "'w \<Rightarrow> rat"
  assumes "\<And>w. clock (snd (send w)) \<le> clock w + t" "\<And>d w. 0 \<le> d \<Longrightarrow> clock (sleep d w) \<le> clock w + d"
    and policy: "0 \<le> backoff_initial_s policy" "0 \<le> backoff_factor policy" "0 \<le> backoff_cap_s policy" and "0 \<le> t"
  shows "clock (snd (attempt_loop sleep policy send last_exc as w)) \<le> clock w + of_nat (length as) * (t + backoff_cap_s policy)"
proof (induction as arbitrary: last_exc w)
  case Nil
  then show ?case by (simp split: option.split)
next
  case (Cons a as)
  have wait: "clock (snd (wait_before sleep policy a w)) \<le> clock w + backoff_cap_s policy"
    using delay_for_range [OF _ policy, of "a - 1"] assms(2) [of _ w] policy(3)
    by (auto simp: wait_before_def split: sum.split) (meson add_left_mono order_trans)
  obtain r w1 where w1: "wait_before sleep policy a w = (r, w1)" by fastforce
  obtain r' w2 where w2: "send w1 = (r', w2)" by fastforce
  have "clock w2 \<le> clock w + (t + backoff_cap_s policy)"
    using assms(1) [of w1] wait w1 w2 by simp
  moreover have "clock w1 \<le> clock w + (t + backoff_cap_s policy)"
    using wait w1 \<open>0 \<le> t\<close> by simp
  moreover have "0 \<le> of_nat (length as) * (t + backoff_cap_s policy)"
    using \<open>0 \<le> t\<close> policy by simp
  ultimately show ?case
    using Cons.IH [of "Some e" w2 for e] w1 w2
    by (cases r; cases r') (auto simp: distrib_right intro: order_trans [OF Cons.IH])
qed

section \<open>Properties\<close>

text \<open>A transport that plays back a list of answers, for concrete runs.\<close>

definition scripted :: "bytes result list transport" where
  "scripted = \<lparr>tr_connect = pureS (Inr ()), tr_close = pureS (Inr ()), tr_is_connected = (\<lambda>_. True),
     tr_send_and_receive = (\<lambda>_ _ _ w. case w of [] \<Rightarrow> (Inl ModbusTimeoutError, []) | r # rs \<Rightarrow> (r, rs))\<rparr>"

text \<open>
  C27: the attempts of \<open>execute\<close>.  With at least one attempt allowed and waits that are floats, the call
  makes between 1 and \<open>max_attempts\<close> attempts: every attempt but the last fails with an error of
  \<open>retry_on\<close> and is followed by the policy's wait; the last one is the first attempt with any other
  outcome, or attempt number \<open>max_attempts\<close>; and the call's result, response or exception, is the result
  of that last attempt.  With no attempt allowed nothing is sent and the final assertion fails.
\<close>

theorem execute_attempts:
  fixes sleep :: "rat \<Rightarrow> 'w \<Rightarrow> 'w" and cl :: "'w client" and retry :: "retry_policy option"
    and unit_id :: "int option" and timeout_s :: "rat option" and pdu :: bytes
  defines "policy \<equiv> or_default retry (cl_retry cl)"
    and "send \<equiv> tr_send_and_receive (cl_transport cl) pdu (or_default unit_id (cl_unit_id cl))
                  (or_default timeout_s (cl_timeout_s cl))"
  assumes "finite_delays policy"
  shows "if max_attempts policy \<le> 0 then execute sleep cl pdu unit_id timeout_s retry w = (Inl AssertionError, w)
    else \<exists>n. int n < max_attempts policy \<and>
      (\<forall>j < n. retryable policy (fst (send (before_attempt sleep policy send w j)))) \<and>
      (int n + 1 = max_attempts policy \<or> \<not> retryable policy (fst (send (before_attempt sleep policy send w n)))) \<and>
      execute sleep cl pdu unit_id timeout_s retry w = send (before_attempt sleep policy send w n)"
  using attempt_loop_from [OF assms(3), of 0 sleep w send w None]
  by (auto simp: execute_def Let_def policy_def send_def wait_before_def)

theorem execute_attempts_witness:
  "fst (execute (\<lambda>_ w. w) (make_client scripted 1 DEFAULT_TIMEOUT_S None) [3, 0, 0, 0, 1] None None None
     [Inl ModbusTimeoutError, Inr [3, 2, 0, 7]]) = Inr [3, 2, 0, 7]"
proof -
  let ?cl = "make_client scripted 1 DEFAULT_TIMEOUT_S None"
  let ?send = "tr_send_and_receive (cl_transport ?cl) [3, 0, 0, 0, 1] (cl_unit_id ?cl) (cl_timeout_s ?cl)"
  let ?w = "[Inl ModbusTimeoutError, Inr [3, 2, 0, 7 :: byte]]"
  have fin: "finite_delays (cl_retry ?cl)"
    by (auto simp: finite_delays_def make_client_def default_retry_def FLOAT_OVERFLOW_def)
  have retry: "retries (cl_retry ?cl) ModbusTimeoutError" "max_attempts (cl_retry ?cl) = 2"
    by (simp_all add: retries_def make_client_def default_retry_def isinstance_exn_def)
  obtain n where n: "int n < 2"
      "int n + 1 = 2 \<or> \<not> retryable (cl_retry ?cl) (fst (?send (before_attempt (\<lambda>_ w. w) (cl_retry ?cl) ?send ?w n)))"
      "execute (\<lambda>_ w. w) ?cl [3, 0, 0, 0, 1] None None None ?w =
         ?send (before_attempt (\<lambda>_ w. w) (cl_retry ?cl) ?send ?w n)"
    using execute_attempts [where cl = ?cl and retry = None and sleep = "\<lambda>_ w. w" and pdu = "[3, 0, 0, 0, 1]"
        and unit_id = None and timeout_s = None and w = ?w] fin retry(2) by auto
  have "n \<noteq> 0"
  proof
    assume "n = 0"
    with n(2) retry(1) show False by (simp add: make_client_def scripted_def)
  qed
  with n(1) have "n = 1" by simp
  with n(3) show ?thesis by (simp add: make_client_def scripted_def)
qed

text \<open>
  A deadline for \<open>execute\<close>.  If an exchange of the transport takes at most \<open>t\<close> and a sleep at most the
  time asked for, a call with \<open>max_attempts\<close> attempts has returned or raised after at most
  \<open>max_attempts\<close> times \<open>t\<close> and the backoff cap, whatever the transport answers.
\<close>

theorem execute_deadline:
  fixes clock :: "'w \<Rightarrow> rat" and cl :: "'w client"
  assumes "\<And>w. clock (snd (tr_send_and_receive (cl_transport cl) pdu uid timeout w)) \<le> clock w + t" "0 \<le> t"
    and "\<And>d w. 0 \<le> d \<Longrightarrow> clock (sleep d w) \<le> clock w + d"
    and "0 \<le> backoff_initial_s policy" "0 \<le> backoff_factor policy" "0 \<le> backoff_cap_s policy"
    and "0 \<le> max_attempts policy"
  shows "clock (snd (execute sleep cl pdu (Some uid) (Some timeout) (Some policy) w))
    \<le> clock w + of_int (max_attempts policy) * (t + backoff_cap_s policy)"
  using attempt_loop_clock [where clock = clock and as = "[1 .. max_attempts policy]" and last_exc = None and w = w,
      OF assms(1,3-6) assms(2)] assms(7)
  by (simp add: execute_def)

theorem execute_deadline_witness:
  "snd (snd (execute (\<lambda>d (rs, now). (rs, now + d))
      (make_client \<lparr>tr_connect = pureS (Inr ()), tr_close = pureS (Inr ()), tr_is_connected = (\<lambda>_. True),
         tr_send_and_receive = (\<lambda>_ _ timeout (rs, now). (Inl ModbusTimeoutError, (rs, now + timeout)))\<rparr> 1 1 None)
      [3] (Some 1) (Some (1 / 2)) (Some default_retry) ((), 0))) \<le> 3"
  using execute_deadline [where clock = snd and t = "1 / 2" and policy = default_retry and uid = 1 and timeout = "1 / 2"
      and sleep = "\<lambda>d (rs, now). (rs, now + d)" and pdu = "[3]" and w = "((), 0)"
      and cl = "make_client \<lparr>tr_connect = pureS (Inr ()), tr_close = pureS (Inr ()), tr_is_connected = (\<lambda>_. True),
         tr_send_and_receive = (\<lambda>_ _ timeout (rs, now). (Inl ModbusTimeoutError, (rs, now + timeout)))\<rparr> 1 1 None"]
  by (simp add: make_client_def default_retry_def split_beta)

text \<open>
  The closed facade.  \<open>Client.close\<close> never raises and ends the background loop, whether or not closing
  the transport failed; closing again does nothing, and every other call then raises \<open>RuntimeError\<close>
  without touching the transport.  Before that, a call of the facade is the call of the asynchronous
  client.
\<close>

theorem sync_facade:
  fixes s :: "'w sync_world" and cl :: "'w client"
  defines "s' \<equiv> snd (sync_close cl s)"
  shows "fst (sync_close cl s) = Inr () \<and> \<not> bl_alive s' \<and> sync_close cl s' = (Inr (), s') \<and>
    sync_connect cl s' = (Inl RuntimeError, s') \<and>
    sync_execute sleep cl pdu uid timeout retry s' = (Inl RuntimeError, s') \<and>
    sync_read sleep cl ritems uid timeout retry worlds completion after s' = (Inl RuntimeError, s') \<and>
    sync_write sleep cl witems uid timeout retry worlds completion after s' = (Inl RuntimeError, s') \<and>
    (if bl_alive s then
       sw_world s' = snd (tr_close (cl_transport cl) (sw_world s)) \<and>
       sync_execute sleep cl pdu uid timeout retry s =
         (let (r, w) = execute sleep cl pdu uid timeout retry (sw_world s) in (r, s\<lparr>sw_world := w\<rparr>))
     else s' = s)"
  by (simp add: s'_def sync_close_def loop_stop_def run_coroutine_def ignoreS_def sync_connect_def sync_execute_def
      sync_read_def sync_write_def close_def Let_def split_beta)

end
