(* ===== verification/Transport_Contract.thy ===== *)
theory Transport_Contract
  imports Client_Laws Planner_Reads
begin

text \<open>
  What a client needs of a transport to end its calls with results and Modbus errors only: the contract,
  its consequences for \<open>execute\<close> and \<open>read\<close>, and the requests that a read sends; and the contract of a transport
  that reaches one device.  The transports interpret them.
\<close>

text \<open>
  \<open>good\<close> holds of the worlds that the transport's calls keep within; \<open>framed uid pdu\<close> says that a request
  can be put into a frame.
\<close>

locale modbus_transport =
  fixes tr :: "'w transport" and good :: "'w \<Rightarrow> bool" and framed :: "int \<Rightarrow> bytes \<Rightarrow> bool"
  assumes send_good: "good w \<Longrightarrow> good (snd (tr_send_and_receive tr pdu uid timeout w))"
    and send_error: "good w \<Longrightarrow> framed uid pdu \<Longrightarrow> fst (tr_send_and_receive tr pdu uid timeout w) = Inl e \<Longrightarrow> is_modbus_error e"
    and connect_good: "good w \<Longrightarrow> good (snd (tr_connect tr w))"
    and connect_error: "good w \<Longrightarrow> fst (tr_connect tr w) = Inl e \<Longrightarrow> is_modbus_error e"
    and close_error: "good w \<Longrightarrow> fst (tr_close tr w) = Inl e \<Longrightarrow> is_modbus_error e"
begin

lemma execute_error:
  assumes "cl_transport cl = tr" "finite_delays (or_default retry (cl_retry cl))" "1 \<le> max_attempts (or_default retry (cl_retry cl))"
    and "\<And>d w. good w \<Longrightarrow> good (sleep d w)" "good w" "framed (or_default unit_id (cl_unit_id cl)) pdu"
    and "fst (execute sleep cl pdu unit_id timeout_s retry w) = Inl e"
  shows "is_modbus_error e"
  using execute_is_send [of retry cl good pdu unit_id timeout_s sleep w] assms send_good send_error by force

lemma client_read_returns:
  assumes "cl_transport cl = tr" "finite_delays (cl_retry cl)" "1 \<le> max_attempts (cl_retry cl)"
    and "\<And>d w. good w \<Longrightarrow> good (sleep d w)" "\<And>i. good (worlds i)"
    and "\<And>req. sent_by_read req \<Longrightarrow> framed (cl_unit_id cl) req"
    and "\<forall>it \<in> set items. validate_read_item it = Inr ()" "\<forall>it \<in> set items. addressable it"
  shows "\<exists>rs. client_read sleep cl items None None None worlds completion = Inr rs \<and> length rs = length items"
proof -
  define ex where "ex i = (\<lambda>pdu. fst (make_pdu_executor sleep cl None None None pdu (worlds i)))" for i
  have "is_modbus_error e" if "sent_by_read req" "ex i req = Inl e" for i req e
    using execute_error [of cl "Some (cl_retry cl)" sleep "worlds i" "Some (cl_unit_id cl)" req "Some (cl_timeout_s cl)" e] assms(1-6) that
    by (simp add: ex_def make_pdu_executor_def)
  from reads_run [OF assms(7,8), of ex completion] this show ?thesis
    by (auto simp: client_read_def Let_def ex_def [abs_def])
qed

end

text \<open>A read request has five bytes, so it fits every frame.\<close>

lemma sent_by_read_length: "sent_by_read req \<Longrightarrow> length req = 5"
proof -
  assume "sent_by_read req"
  then obtain a s n where "area_request a s n = Inr req" by (auto simp: sent_by_read_def)
  then show ?thesis
    by (cases a) (auto dest: holding_req.request_head input_req.request_head coils_req.request_head discrete_req.request_head)
qed

section \<open>Transports that reach a device\<close>

text \<open>
  In the worlds that the transport keeps within, every exchange of a read request gives the device's
  response or a Modbus error.
\<close>

locale reaching =
  fixes tr :: "'w transport" and good :: "'w \<Rightarrow> bool" and uid :: int and timeout :: rat and device :: "bytes \<Rightarrow> bytes result"
  assumes reach_good: "sent_by_read req \<Longrightarrow> good w \<Longrightarrow> good (snd (tr_send_and_receive tr req uid timeout w))"
    and reach_response: "sent_by_read req \<Longrightarrow> good w \<Longrightarrow> fst (tr_send_and_receive tr req uid timeout w) = Inr resp \<Longrightarrow>
      device req = Inr resp"
    and reach_error: "sent_by_read req \<Longrightarrow> good w \<Longrightarrow> fst (tr_send_and_receive tr req uid timeout w) = Inl e \<Longrightarrow>
      is_modbus_error e"
begin

text \<open>A call of the client then ends with the device's response, or with an error of one exchange.\<close>

lemma execute_reaches:
  assumes "cl_transport cl = tr" "finite_delays policy" "1 \<le> max_attempts policy" "sent_by_read req" "good w"
    and "\<And>d w. good w \<Longrightarrow> good (sleep d w)"
  shows "case fst (execute sleep cl req (Some uid) (Some timeout) (Some policy) w) of
      Inr resp \<Rightarrow> device req = Inr resp
    | Inl e \<Rightarrow> is_modbus_error e \<and> (\<exists>req w. good w \<and> fst (tr_send_and_receive tr req uid timeout w) = Inl e)"
proof -
  obtain w' where w': "good w'" "execute sleep cl req (Some uid) (Some timeout) (Some policy) w = tr_send_and_receive tr req uid timeout w'"
    using execute_is_send [of "Some policy" cl good req "Some uid" "Some timeout" sleep w] assms reach_good [OF assms(4)] by auto
  show ?thesis
  proof (cases "fst (tr_send_and_receive tr req uid timeout w')")
    case (Inl e)
    with w' reach_error [OF assms(4) w'(1)] show ?thesis by auto
  next
    case (Inr resp)
    with w' reach_response [OF assms(4) w'(1)] show ?thesis by simp
  qed
qed

end

end
