(* ===== verification/Store_Client.thy ===== *)
theory Store_Client
  imports Host_Store Transport_Contract
begin

text \<open>
  Clients of a server whose host keeps a memory of cells: what a batch read over a transport that reaches
  it returns, and what the requests of a write do to the memory.  The results are laws of the locale
  \<open>host_store\<close>; the simulator and the example server of the repository get them by interpretation.
\<close>

section \<open>Reads\<close>

text \<open>
  The result of one item of a batch: the typed value of its cells; or a failure, with \<open>IllegalDataAddress\<close> if
  the batch asks for a cell of the same area that is not there, or with an error that the transport raised.
\<close>

definition item_served ::
  "(area \<Rightarrow> int \<Rightarrow> pyval option) \<Rightarrow> (py_exn \<Rightarrow> bool) \<Rightarrow> read_item list \<Rightarrow> read_item \<Rightarrow> read_result \<Rightarrow> bool" where
  "item_served cells raised items it r \<longleftrightarrow>
     (\<forall>x \<in> item_units it. cells (item_area it) x \<noteq> None) \<and> item_value (\<lambda>x. the (cells (item_area it) x)) it = Inr r \<or>
     (\<exists>e. r = \<lparr>rr_item = it, rr_values = [], rr_ok = False, rr_error = Some e\<rparr> \<and>
       (e = illegal_data_address \<and> (\<exists>x \<in> requested (item_area it) items. cells (item_area it) x = None) \<or> raised e))"

context host_store begin

text \<open>What a planned read request of the client gets from the store.\<close>

lemma chunk_from_store:
  fixes sleep :: "rat \<Rightarrow> 'w \<Rightarrow> 'w" and cl :: "'w client" and w :: 'w and uid :: int and timeout :: rat
    and policy :: retry_policy
  assumes srv: "srv_on_read srv = on_read" "srv_unit_id srv \<in> {None, Some uid}"
    and typed: "typed st" and tr: "reaching (cl_transport cl) good uid timeout (\<lambda>req. fst (dispatch srv uid req st))"
    and worlds: "\<And>d w. good w \<Longrightarrow> good (sleep d w)" "good w"
    and policy: "finite_delays policy" "1 \<le> max_attempts policy"
    and c: "area_request (rc_area c) (rc_start c) (rc_count c) = Inr req"
  defines "ex \<equiv> \<lambda>pdu. fst (make_pdu_executor sleep cl (Some uid) (Some timeout) (Some policy) pdu w)"
  shows "read_chunk_values c ex = Inr (map (\<lambda>x. the (peek st (rc_area c) x)) (unit_list c)) \<and>
      (\<forall>x \<in> chunk_units c. peek st (rc_area c) x \<noteq> None) \<or>
    (\<exists>e. read_chunk_values c ex = Inl e \<and> is_modbus_error e \<and>
      (e = illegal_data_address \<and> (\<exists>x \<in> chunk_units c. peek st (rc_area c) x = None) \<or>
        (\<exists>req w. good w \<and> fst (tr_send_and_receive (cl_transport cl) req uid timeout w) = Inl e)))"
proof -
  have out: "case ex req of Inr resp \<Rightarrow> fst (dispatch srv uid req st) = Inr resp
      | Inl e \<Rightarrow> is_modbus_error e \<and> (\<exists>req w. good w \<and> fst (tr_send_and_receive (cl_transport cl) req uid timeout w) = Inl e)"
    using reaching.execute_reaches [OF tr refl policy sent_by_readI [OF c] worlds(2,1)]
    by (simp add: ex_def make_pdu_executor_def)
  have bind: "read_chunk_values c ex = bindE (ex req) (\<lambda>resp. area_values (rc_area c) resp (rc_count c))"
    using c by (simp add: read_chunk_values_eq)
  show ?thesis
  proof (cases "ex req")
    case (Inl e)
    with out bind show ?thesis by simp
  next
    case (Inr resp)
    with out have "fst (dispatch srv uid req st) = Inr resp" by simp
    with read_outcome [OF srv c typed]
    have "area_values (rc_area c) resp (rc_count c) =
        (if \<forall>x \<in> {rc_start c..<rc_start c + rc_count c}. peek st (rc_area c) x \<noteq> None
         then Inr (map (\<lambda>x. the (peek st (rc_area c) x)) [rc_start c..rc_start c + rc_count c - 1])
         else Inl illegal_data_address)" by fastforce
    with bind Inr show ?thesis
      by (auto simp: unit_list_def chunk_end_def chunk_units_def mk_response_def split: if_splits)
  qed
qed

text \<open>A batch of valid items: one result each.\<close>

lemma client_reads_store:
  assumes srv: "srv_on_read srv = on_read" "srv_unit_id srv \<in> {None, Some uid}"
    and typed: "typed st" and tr: "reaching (cl_transport cl) good uid timeout (\<lambda>req. fst (dispatch srv uid req st))"
    and keeps: "\<And>d w. good w \<Longrightarrow> good (sleep d w)" and worlds: "\<And>i. good (worlds i)"
    and policy: "finite_delays policy" "1 \<le> max_attempts policy"
    and valid: "\<forall>it \<in> set items. validate_read_item it = Inr ()"
    and addr: "\<forall>it \<in> set items. 0 \<le> item_start it \<and> item_start it + item_count it \<le> 0x10000"
  shows "\<exists>rs. client_read sleep cl items (Some uid) (Some timeout) (Some policy) worlds completion = Inr rs \<and>
    length rs = length items \<and>
    (\<forall>j < length items. item_served (peek st) (\<lambda>e. \<exists>req w. good w \<and> fst (tr_send_and_receive (cl_transport cl) req uid timeout w) = Inl e) items (items ! j) (rs ! j))"
proof -
  define ex where "ex i = (\<lambda>pdu. fst (make_pdu_executor sleep cl (Some uid) (Some timeout) (Some policy) pdu (worlds i)))" for i
  let ?chunks = "plan_read_chunks items"
  have exec: "is_modbus_error e" if "sent_by_read req" "ex i req = Inl e" for i req e
    using reaching.execute_reaches [OF tr refl policy that(1) worlds [of i], where sleep = sleep] keeps that(2)
    by (simp add: ex_def make_pdu_executor_def)
  have pos: "positive_items items" using valid validated_positive by blast
  have outcome: "read_chunk_values c (ex i) = Inr (map (\<lambda>x. the (peek st (rc_area c) x)) (unit_list c)) \<and>
      (\<forall>x \<in> chunk_units c. peek st (rc_area c) x \<noteq> None) \<or>
    (\<exists>e. read_chunk_values c (ex i) = Inl e \<and> is_modbus_error e \<and>
      (e = illegal_data_address \<and> (\<exists>x \<in> chunk_units c. peek st (rc_area c) x = None) \<or>
        (\<exists>req w. good w \<and> fst (tr_send_and_receive (cl_transport cl) req uid timeout w) = Inl e)))"
    if "c \<in> set ?chunks" for c i
    using planned_chunk_in_range [OF pos addr that] area_request_iff(1) [of "rc_area c" "rc_start c" "rc_count c"]
      chunk_from_store [OF srv typed tr _ worlds [of i] policy, where c = c and sleep = sleep] keeps unfolding ex_def by blast
  from reads_run [OF valid addr, of ex completion] exec obtain crs rs where
    run: "chunk_run ex ?chunks crs" and rs: "plan_and_execute_reads items ex completion = Inr rs" "length rs = length items"
    and dec: "\<And>j. j < length items \<Longrightarrow> decode_read_item (items ! j) crs = Inr (rs ! j)" by blast
  have "item_served (peek st) (\<lambda>e. \<exists>req w. good w \<and> fst (tr_send_and_receive (cl_transport cl) req uid timeout w) = Inl e) items it (rs ! j)"
    if j: "j < length items" and it: "it = items ! j" for j it
  proof (cases "\<exists>i < length ?chunks. covers it (?chunks ! i) \<and> (\<exists>e. read_chunk_values (?chunks ! i) (ex i) = Inl e)")
    case True
    then obtain i e where "i < length ?chunks" "covers it (?chunks ! i)" "read_chunk_values (?chunks ! i) (ex i) = Inl e" by blast
    from chunk_run_failure [OF run pos this] obtain i e where
      ie: "i < length ?chunks" "covers it (?chunks ! i)" "read_chunk_values (?chunks ! i) (ex i) = Inl e"
        "decode_read_item it crs = Inr \<lparr>rr_item = it, rr_values = [], rr_ok = False, rr_error = Some e\<rparr>" by blast
    have area: "rc_area (?chunks ! i) = item_area it" using ie(2) by (simp add: covers_def)
    have "chunk_units (?chunks ! i) \<subseteq> requested (item_area it) items"
      using area_chunks_facts(2) [OF pos, of "item_area it"] plan_chunk_area [of "?chunks ! i" items] ie(1) area by auto
    then have "e = illegal_data_address \<and> (\<exists>x \<in> requested (item_area it) items. peek st (item_area it) x = None) \<or>
        (\<exists>req w. good w \<and> fst (tr_send_and_receive (cl_transport cl) req uid timeout w) = Inl e)"
      using outcome [of "?chunks ! i" i] ie(1,3) area by auto
    with ie(4) dec [OF j] it show ?thesis by (auto simp: item_served_def)
  next
    case False
    then have ok: "read_chunk_values (?chunks ! i) (ex i) = Inr (map (\<lambda>x. the (peek st (item_area it) x)) (unit_list (?chunks ! i)))"
        "\<forall>x \<in> chunk_units (?chunks ! i). peek st (item_area it) x \<noteq> None"
      if "i < length ?chunks" "covers it (?chunks ! i)" for i
      using outcome [of "?chunks ! i" i] that by (auto simp: covers_def)
    have val: "decode_read_item it crs = item_value (\<lambda>x. the (peek st (item_area it) x)) it"
      by (rule chunk_run_success [OF run pos]) (use ok(1) j it in auto)
    have "peek st (item_area it) x \<noteq> None" if x: "x \<in> item_units it" for x
    proof -
      have "x \<in> requested (item_area it) items" using item_units_requested [of it items] x j it by auto
      then obtain c where c: "c \<in> set (area_chunks (item_area it) items)" "x \<in> chunk_units c"
        using area_chunks_facts(2) [OF pos, of "item_area it"] by blast
      then have area: "rc_area c = item_area it" using area_chunks_facts(3) [OF pos c(1)] by simp
      with c(1) have "c \<in> set ?chunks" using plan_chunk_area [of c items] by simp
      then obtain i where "i < length ?chunks" "?chunks ! i = c" by (metis in_set_conv_nth)
      moreover have "covers it c" using area c(2) x by (auto simp: covers_def chunk_units_def item_units_def)
      ultimately show ?thesis using ok(2) [of i] c(2) by auto
    qed
    with val dec [OF j] it show ?thesis by (auto simp: item_served_def)
  qed
  with rs show ?thesis by (simp add: client_read_def ex_def [abs_def] Let_def)
qed

end

section \<open>Writes\<close>

text \<open>The chunks of one write item as a split of its cells.\<close>

lemma chunk_fields:
  "wc_area (register_chunk k a vs) = HOLDING_REGISTER \<and> wc_start (register_chunk k a vs) = a \<and>
     chunk_values (register_chunk k a vs) = map PInt vs"
  "wc_area (coil_chunk k a bs) = COIL \<and> wc_start (coil_chunk k a bs) = a \<and> chunk_values (coil_chunk k a bs) = map PBool bs"
  by (simp_all add: register_chunk_def coil_chunk_def chunk_values_def)

text \<open>Area, first address and cells of a write item.\<close>

fun item_cells :: "write_item \<Rightarrow> (area \<times> int \<times> pyval list) result" where
  "item_cells (WriteHolding w) =
     bindE (encode_registers (wh_values w) (wh_dtype w) (wh_word_order w) (wh_byte_order w))
       (\<lambda>regs. Inr (HOLDING_REGISTER, wh_start w, map PInt regs))"
| "item_cells (WriteCoils s vs) = Inr (COIL, s, map PBool vs)"

lemma plan_write_item_effect:
  assumes plan: "plan_write_item idx it = Inr cs" and cells: "item_cells it = Inr (a, s, vs)"
    and range: "0 \<le> s" "s + int (length vs) \<le> 0x10000"
  shows "foldl (\<lambda>old c. set_cells b x c old) old cs =
      (if b = a \<and> s \<le> x \<and> x < s + int (length vs) then Some (vs ! nat (x - s)) else old)"
    and "\<forall>c \<in> set cs. wf_write_chunk c \<and> is_reg (wc_start c)"
proof -
  have start: "is_reg (wc_start c)" if "c \<in> set (split_values limit mk s ws)" "0 < limit" "length ws = length vs"
      "\<And>a part. wc_start (mk a part) = a" for c limit mk and ws :: "'z list"
    using split_values_part [OF that(2,1)] that(3,4) range by auto
  show "foldl (\<lambda>old c. set_cells b x c old) old cs =
      (if b = a \<and> s \<le> x \<and> x < s + int (length vs) then Some (vs ! nat (x - s)) else old)"
  proof (cases it)
    case (WriteHolding w)
    with plan cells obtain regs where "cs = split_values 123 (register_chunk idx) s regs" "a = HOLDING_REGISTER" "vs = map PInt regs"
      by (auto simp: MAX_WRITE_REGISTERS_def bindE_eq_Inr)
    then show ?thesis using split_values_set_cells [of 123 "register_chunk idx" HOLDING_REGISTER PInt b x old s regs]
      by (auto simp: chunk_fields)
  next
    case (WriteCoils s' bs)
    with plan cells have "cs = split_values 1968 (coil_chunk idx) s bs" "a = COIL" "vs = map PBool bs"
      by (auto simp: MAX_WRITE_COILS_def bindE_eq_Inr)
    then show ?thesis using split_values_set_cells [of 1968 "coil_chunk idx" COIL PBool b x old s bs]
      by (auto simp: chunk_fields)
  qed
  show "\<forall>c \<in> set cs. wf_write_chunk c \<and> is_reg (wc_start c)"
  proof
    fix c assume c: "c \<in> set cs"
    have "is_reg (wc_start c)"
    proof (cases it)
      case (WriteHolding w)
      with plan cells obtain regs where "cs = split_values 123 (register_chunk idx) s regs" "vs = map PInt regs"
        by (auto simp: MAX_WRITE_REGISTERS_def bindE_eq_Inr)
      with c start [of c 123 "register_chunk idx" regs] show ?thesis by (simp add: chunk_fields)
    next
      case (WriteCoils s' bs)
      with plan cells have "cs = split_values 1968 (coil_chunk idx) s bs" "vs = map PBool bs"
        by (auto simp: MAX_WRITE_COILS_def bindE_eq_Inr)
      with c start [of c 1968 "coil_chunk idx" bs] show ?thesis by (simp add: chunk_fields)
    qed
    with plan_write_item_chunk [OF plan c] show "wf_write_chunk c \<and> is_reg (wc_start c)" by simp
  qed
qed

lemma item_cells_ok: "item_cells it = Inr (a, s, vs) \<Longrightarrow> list_all (cell_ok a) vs"
proof (cases it)
  case (WriteHolding w)
  assume "item_cells it = Inr (a, s, vs)"
  with WriteHolding obtain regs where
    regs: "encode_registers (wh_values w) (wh_dtype w) (wh_word_order w) (wh_byte_order w) = Inr regs"
      "a = HOLDING_REGISTER" "vs = map PInt regs" by (auto simp: bindE_eq_Inr)
  then obtain n where "regs_per_item (wh_dtype w) = Inr n" by (auto simp: encode_registers_def)
  then have "list_all is_reg regs" using encode_registers_shape [OF regs(1)] by (auto simp: list_all_iff)
  with regs show ?thesis by (auto simp: list_all_iff)
qed (auto simp: list_all_iff)

context host_store begin

lemma client_writes_store:
  assumes srv: "srv_on_write srv = Some on_write" "srv_unit_id srv \<in> {None, Some uid}"
    and plan: "plan_writes [it] = Inr chunks" and cells: "item_cells it = Inr (a, s, vs)"
    and range: "0 \<le> s" "s + int (length vs) \<le> 0x10000" and typed: "typed st"
  shows "\<exists>st'. serve_chunks srv uid chunks st = (map (\<lambda>_. Inr ()) chunks, st') \<and> typed st' \<and>
    (\<forall>b x. peek st' b x = (if b = a \<and> s \<le> x \<and> x < s + int (length vs) then Some (vs ! nat (x - s)) else peek st b x))"
proof -
  have plan': "plan_write_item 0 it = Inr chunks"
    using plan by (cases "plan_write_item 0 it") (auto simp: plan_writes_def)
  note effect = plan_write_item_effect [OF plan' cells range]
  with writes_served [OF srv, of chunks st] obtain st' where
    st': "serve_chunks srv uid chunks st = (map (\<lambda>_. Inr ()) chunks, st')"
      "\<forall>b x. peek st' b x =
        (if b = a \<and> s \<le> x \<and> x < s + int (length vs) then Some (vs ! nat (x - s)) else peek st b x)" by auto
  have "cell_ok a (vs ! i)" if "i < length vs" for i
    using item_cells_ok [OF cells] that by (simp add: list_all_iff)
  then have "typed st'" using typed by (auto simp: typed_def st'(2) split: if_splits)
  with st' show ?thesis by auto
qed

end

end
