(* ===== verification/Adu_Rtu.thy ===== *)
theory Adu_Rtu
  imports Py_Runtime
begin

text \<open>
  RTU framing, \<open>src/pymod/protocol/adu_rtu.py\<close>: slave address, PDU and a little-endian
  CRC-16.  The CRC is the table-driven Modbus CRC (polynomial 0xA001, initial value 0xFFFF);
  CRC values are Python integers.
\<close>

unbundle bit_operations_syntax

definition RTU_MIN_FRAME_LENGTH :: nat where "RTU_MIN_FRAME_LENGTH = 4"

text \<open>One round of the inner loop of \<open>_build_crc16_table\<close>.\<close>

definition crc_shift :: "int \<Rightarrow> int" where
  "crc_shift crc = (if (crc AND 1) \<noteq> 0 then drop_bit 1 crc XOR 0xA001 else drop_bit 1 crc)"

definition build_crc16_table :: "int list" where
  "build_crc16_table = map (\<lambda>byte. (crc_shift ^^ 8) byte) (py_range 256)"

definition CRC16_TABLE :: "int list" where
  "CRC16_TABLE = build_crc16_table"

definition crc16 :: "bytes \<Rightarrow> int" where
  "crc16 data =
     foldl (\<lambda>crc byte. drop_bit 8 crc XOR (CRC16_TABLE ! nat ((crc XOR uint byte) AND 0xFF)))
       0xFFFF data"

definition encode_rtu_frame :: "int \<Rightarrow> bytes \<Rightarrow> bytes result" where
  "encode_rtu_frame unit_id pdu =
     (if \<not> (0 \<le> unit_id \<and> unit_id \<le> 0xFF) then Inl ValueError
      else if length pdu = 0 then Inl ValueError
      else bindE (byte_of_int unit_id) (\<lambda>u. let body = u @ pdu in
        bindE (pack_H Little (crc16 body)) (\<lambda>c. Inr (body @ c))))"

definition decode_rtu_frame :: "bytes \<Rightarrow> (int \<times> bytes) result" where
  "decode_rtu_frame frame =
     (if length frame < RTU_MIN_FRAME_LENGTH then Inl ModbusProtocolError
      else let body = take (length frame - 2) frame;
               crc_bytes = drop (length frame - 2) frame;
               expected = crc16 body
        in bindE (unpack_H Little crc_bytes) (\<lambda>actual.
          if expected \<noteq> actual then Inl ModbusCRCError
          else Inr (uint (body ! 0), drop 1 body)))"

section \<open>The CRC\<close>

text \<open>The CRC without its table: eight rounds of the inner loop per byte.\<close>

definition crc16_bitwise :: "bytes \<Rightarrow> int" where
  "crc16_bitwise data = foldl (\<lambda>crc byte. (crc_shift ^^ 8) (crc XOR uint byte)) 0xFFFF data"

lemma crc_shift_odd: "crc_shift x = (if odd x then drop_bit 1 x XOR 0xA001 else drop_bit 1 x)"
  by (simp add: crc_shift_def and_one_eq odd_iff_mod_2_eq_one)

text \<open>A round is linear over exclusive or, so eight rounds are too.\<close>

lemma crc_shift_xor: "crc_shift (x XOR y) = crc_shift x XOR crc_shift y"
proof -
  have "odd (x XOR y) \<longleftrightarrow> odd x \<noteq> odd y"
    by (metis bit_0 bit_xor_iff)
  then show ?thesis
    by (auto simp: crc_shift_odd drop_bit_xor xor.assoc xor.left_commute xor.commute)
qed

lemma crc_shift_pow_xor: "(crc_shift ^^ n) (x XOR y) = (crc_shift ^^ n) x XOR (crc_shift ^^ n) y"
  by (induction n) (simp_all add: crc_shift_xor)

lemma crc_shift_push_bit: "(crc_shift ^^ n) (push_bit n x) = x"
proof (induction n)
  case 0
  then show ?case by simp
next
  case (Suc n)
  have "crc_shift (push_bit (Suc n) x) = push_bit n x"
    by (simp add: crc_shift_odd drop_bit_eq_div push_bit_eq_mult)
  then show ?case
    using Suc by (simp add: funpow_swap1)
qed

lemma take_drop_8: "x = take_bit 8 x XOR push_bit 8 (drop_bit 8 (x :: int))"
  by (rule bit_eqI) (auto simp: bit_simps)

lemma crc_shift_8: "(crc_shift ^^ 8) x = drop_bit 8 x XOR (crc_shift ^^ 8) (take_bit 8 x)"
proof -
  have "(crc_shift ^^ 8) x = (crc_shift ^^ 8) (take_bit 8 x) XOR (crc_shift ^^ 8) (push_bit 8 (drop_bit 8 x))"
    by (subst take_drop_8) (simp only: crc_shift_pow_xor)
  then show ?thesis by (simp only: crc_shift_push_bit xor.commute)
qed

lemma CRC16_TABLE_nth: "0 \<le> i \<Longrightarrow> i < 256 \<Longrightarrow> CRC16_TABLE ! nat i = (crc_shift ^^ 8) i"
  by (simp add: CRC16_TABLE_def build_crc16_table_def py_range_def nat_less_iff)

lemma crc_table_step:
  "drop_bit 8 crc XOR (CRC16_TABLE ! nat ((crc XOR uint (b :: byte)) AND 0xFF)) =
     (crc_shift ^^ 8) (crc XOR uint b)"
proof -
  have take: "(crc XOR uint b) AND 0xFF = take_bit 8 (crc XOR uint b)"
    by (simp add: take_bit_eq_mask mask_eq_exp_minus_1)
  have "drop_bit 8 (uint b) = 0"
    by (simp add: drop_bit_eq_div)
  then have "drop_bit 8 (crc XOR uint b) = drop_bit 8 crc"
    by (simp add: drop_bit_xor)
  moreover have "0 \<le> take_bit 8 (crc XOR uint b)" "take_bit 8 (crc XOR uint b) < 256"
    using take_bit_int_less_exp [of 8 "crc XOR uint b"] by simp_all
  ultimately show ?thesis
    by (simp only: take CRC16_TABLE_nth crc_shift_8 [of "crc XOR uint b"])
qed

lemma crc16_eq_bitwise: "crc16 data = crc16_bitwise data"
  by (simp only: crc16_def crc16_bitwise_def crc_table_step)

text \<open>
  The specification's shift register, fed one message bit at a time, least significant bit of each
  byte first: the reference the table-driven code is compared with.
\<close>

definition crc_serial :: "int \<Rightarrow> bool \<Rightarrow> int" where
  "crc_serial crc b = drop_bit 1 crc XOR (if odd crc \<noteq> b then 0xA001 else 0)"

definition byte_bits :: "byte \<Rightarrow> bool list" where
  "byte_bits b = map (bit b) [0..<8]"

definition crc16_serial :: "bytes \<Rightarrow> int" where
  "crc16_serial data = foldl crc_serial 0xFFFF (concat (map byte_bits data))"

lemma crc_shift_serial: "crc_shift (crc XOR v) = crc_serial crc (odd v) XOR drop_bit 1 v"
proof -
  have "odd (crc XOR v) \<longleftrightarrow> odd crc \<noteq> odd v"
    by (metis bit_0 bit_xor_iff)
  then show ?thesis
    by (auto simp: crc_shift_odd crc_serial_def drop_bit_xor xor.assoc xor.left_commute xor.commute)
qed

lemma crc_shift_pow_serial:
  "(crc_shift ^^ n) (crc XOR v) = foldl crc_serial crc (map (bit v) [0..<n]) XOR drop_bit n v"
proof (induction n)
  case 0
  then show ?case by simp
next
  case (Suc n)
  then show ?case
    by (simp add: crc_shift_serial bit_iff_odd_drop_bit)
qed

lemma crc16_eq_serial: "crc16 data = crc16_serial data"
proof -
  have "(crc_shift ^^ 8) (crc XOR uint b) = foldl crc_serial crc (byte_bits b)" for crc and b :: byte
  proof -
    have "map (bit (uint b)) [0..<8] = byte_bits b"
      by (auto simp: byte_bits_def bit_uint_iff)
    moreover have "drop_bit 8 (uint b) = 0"
      by (simp add: drop_bit_eq_div)
    ultimately show ?thesis
      using crc_shift_pow_serial [of 8 crc "uint b"] by simp
  qed
  then have "foldl (\<lambda>crc byte. (crc_shift ^^ 8) (crc XOR uint byte)) x data
      = foldl crc_serial x (concat (map byte_bits data))" for x
    by (induction data arbitrary: x) simp_all
  then show ?thesis
    by (simp only: crc16_eq_bitwise crc16_bitwise_def crc16_serial_def)
qed

section \<open>Error detection\<close>

definition is_u16 :: "int \<Rightarrow> bool" where
  "is_u16 x \<longleftrightarrow> 0 \<le> x \<and> x < 2 ^ 16"

lemma is_u16_xor: "is_u16 x \<Longrightarrow> is_u16 y \<Longrightarrow> is_u16 (x XOR y)"
  using XOR_upper [of x 16 y] by (simp add: is_u16_def)

lemma is_u16_take_bit: "is_u16 x \<Longrightarrow> take_bit 16 x = x"
  by (simp add: is_u16_def take_bit_int_eq_self_iff)

lemma crc_shift_u16: "is_u16 x \<Longrightarrow> is_u16 (crc_shift x)"
proof -
  assume "is_u16 x"
  then have "is_u16 (drop_bit 1 x)"
    by (auto simp: is_u16_def drop_bit_eq_div)
  moreover have "is_u16 0xA001" by (simp add: is_u16_def)
  ultimately show ?thesis by (simp add: crc_shift_odd is_u16_xor)
qed

lemma crc_shift_bit_15: "is_u16 x \<Longrightarrow> bit (crc_shift x) 15 \<longleftrightarrow> odd x"
proof -
  assume "is_u16 x"
  then have "\<not> bit x 16" by (metis is_u16_take_bit bit_take_bit_iff less_irrefl)
  then have "\<not> bit (drop_bit 1 x) 15" by (simp add: bit_drop_bit_eq)
  moreover have "bit (0xA001 :: int) 15" by simp
  ultimately show ?thesis by (simp add: crc_shift_odd bit_xor_iff)
qed

lemma crc_shift_inj:
  assumes "is_u16 x" "is_u16 y" "crc_shift x = crc_shift y"
  shows "x = y"
proof -
  from assms have odd: "odd x \<longleftrightarrow> odd y"
    using crc_shift_bit_15 by metis
  moreover from odd assms(3) have "drop_bit 1 x = drop_bit 1 y"
    by (auto simp: crc_shift_odd split: if_splits dest: arg_cong [where f = "\<lambda>z. z XOR 0xA001"]
        simp: xor.assoc)
  ultimately show ?thesis
    by (simp add: drop_bit_eq_div) presburger
qed

lemma crc_shift_pow_u16: "is_u16 x \<Longrightarrow> is_u16 ((crc_shift ^^ n) x)"
  by (induction n) (simp_all add: crc_shift_u16)

lemma crc_shift_pow_inj:
  "is_u16 x \<Longrightarrow> is_u16 y \<Longrightarrow> (crc_shift ^^ n) x = (crc_shift ^^ n) y \<Longrightarrow> x = y"
proof (induction n)
  case 0
  then show ?case by simp
next
  case (Suc n)
  from Suc.prems have "crc_shift ((crc_shift ^^ n) x) = crc_shift ((crc_shift ^^ n) y)" by simp
  then have "(crc_shift ^^ n) x = (crc_shift ^^ n) y"
    by (rule crc_shift_inj [rotated 2]) (rule crc_shift_pow_u16, rule Suc.prems)+
  then show ?case by (rule Suc.IH [OF Suc.prems(1,2)])
qed

abbreviation crc_step :: "int \<Rightarrow> byte \<Rightarrow> int" where
  "crc_step crc b \<equiv> (crc_shift ^^ 8) (crc XOR uint b)"

lemma xor_byte_u16: "is_u16 x \<Longrightarrow> is_u16 (x XOR uint (b :: byte))"
proof -
  have "uint b < 65536" by (rule less_trans [OF uint_byte_bounds(2)]) simp
  then have "is_u16 (uint b)" by (simp add: is_u16_def)
  then show "is_u16 x \<Longrightarrow> ?thesis" by (rule is_u16_xor [rotated])
qed

lemma crc_step_u16: "is_u16 x \<Longrightarrow> is_u16 (crc_step x b)"
  by (intro crc_shift_pow_u16 xor_byte_u16)

lemma crc_step_inj:
  assumes "is_u16 x" "is_u16 y" "crc_step x b = crc_step y c" "x = y \<or> b = c"
  shows "x = y \<and> b = c"
proof -
  from assms(3) have eq: "x XOR uint b = y XOR uint c"
    by (rule crc_shift_pow_inj [rotated 2]) (rule xor_byte_u16, rule assms)+
  show ?thesis
  proof (cases "x = y")
    case True
    from arg_cong [OF eq, of "\<lambda>z. x XOR z"] have "uint b = uint c"
      by (simp add: True xor.assoc [symmetric])
    with True show ?thesis by (simp add: word_uint_eqI)
  next
    case False
    with assms(4) have "b = c" by simp
    from arg_cong [OF eq, of "\<lambda>z. z XOR uint b"] have "x = y"
      by (simp add: \<open>b = c\<close> xor.assoc)
    with \<open>b = c\<close> show ?thesis by simp
  qed
qed

lemma foldl_crc_u16: "is_u16 x \<Longrightarrow> is_u16 (foldl crc_step x bs)"
  by (induction bs arbitrary: x) (simp_all add: crc_step_u16)

lemma foldl_crc_inj:
  "is_u16 x \<Longrightarrow> is_u16 y \<Longrightarrow> foldl crc_step x bs = foldl crc_step y bs \<Longrightarrow> x = y"
proof (induction bs arbitrary: x y)
  case Nil
  then show ?case by simp
next
  case (Cons b bs)
  from Cons.prems(3) have "foldl crc_step (crc_step x b) bs = foldl crc_step (crc_step y b) bs"
    by simp
  then have "crc_step x b = crc_step y b"
    by (rule Cons.IH [rotated 2]) (rule crc_step_u16, rule Cons.prems)+
  with Cons.prems show ?case using crc_step_inj [of x y b b] by simp
qed

lemma is_u16_init: "is_u16 0xFFFF"
  by (simp add: is_u16_def)

lemma crc16_u16: "is_u16 (crc16 data)"
  by (simp add: crc16_eq_bitwise crc16_bitwise_def foldl_crc_u16 is_u16_init)

text \<open>Changing one byte always changes the CRC.\<close>

lemma crc16_one_byte:
  assumes "i < length data" "b \<noteq> data ! i"
  shows "crc16 (data[i := b]) \<noteq> crc16 data"
proof
  assume eq: "crc16 (data[i := b]) = crc16 data"
  let ?x = "foldl crc_step 0xFFFF (take i data)"
  have x: "is_u16 ?x" by (simp add: foldl_crc_u16 is_u16_init)
  have "foldl crc_step (crc_step ?x b) (drop (Suc i) data) =
      foldl crc_step (crc_step ?x (data ! i)) (drop (Suc i) data)"
    using eq unfolding crc16_eq_bitwise crc16_bitwise_def
    by (subst (asm) (2) id_take_nth_drop [OF assms(1)])
      (simp only: upd_conv_take_nth_drop [OF assms(1)] foldl_append foldl_Cons)
  then have "crc_step ?x b = crc_step ?x (data ! i)"
    by (rule foldl_crc_inj [rotated 2]) (simp_all add: x crc_step_u16)
  with x assms(2) show False using crc_step_inj [of ?x ?x b "data ! i"] by simp
qed

section \<open>Frames\<close>

definition crc_bytes_of :: "bytes \<Rightarrow> bytes" where
  "crc_bytes_of body = [word_of_int (crc16 body), word_of_int (crc16 body div 256)]"

abbreviation rtu_ok :: "int \<Rightarrow> bytes \<Rightarrow> bool" where
  "rtu_ok uid pdu \<equiv> 0 \<le> uid \<and> uid \<le> 255 \<and> pdu \<noteq> []"

lemma crc16_range: "0 \<le> crc16 body" "crc16 body \<le> 65535"
  using crc16_u16 [of body] by (auto simp: is_u16_def)

lemma encode_rtu_frame_eq:
  "encode_rtu_frame uid pdu =
     (if rtu_ok uid pdu then Inr ((word_of_int uid # pdu) @ crc_bytes_of (word_of_int uid # pdu))
      else Inl ValueError)"
  by (simp add: encode_rtu_frame_def byte_of_int_ok pack_H_ok crc16_range crc_bytes_of_def Let_def)

lemma decode_rtu_frame_append:
  "2 \<le> length body \<Longrightarrow> decode_rtu_frame (body @ [lo, hi]) =
     (if crc16 body = u16 hi lo then Inr (uint (body ! 0), drop 1 body) else Inl ModbusCRCError)"
  by (auto simp: decode_rtu_frame_def RTU_MIN_FRAME_LENGTH_def Let_def)

lemma decode_encode_rtu:
  "bindE (encode_rtu_frame uid pdu) decode_rtu_frame =
     (if rtu_ok uid pdu then Inr (uid, pdu) else Inl ValueError)"
  using decode_rtu_frame_append [of "word_of_int uid # pdu"] crc16_range [of "word_of_int uid # pdu"]
  by (cases pdu) (simp_all add: encode_rtu_frame_eq crc_bytes_of_def)

lemma decode_encoded_rtu: "encode_rtu_frame uid pdu = Inr frame \<Longrightarrow> decode_rtu_frame frame = Inr (uid, pdu)"
  using decode_encode_rtu [of uid pdu] by (auto simp: encode_rtu_frame_eq split: if_splits)

lemma split_last_2: "2 \<le> length xs \<Longrightarrow> \<exists>ys a b. xs = ys @ [a, b]"
proof (cases xs rule: rev_cases)
  case (snoc ys b)
  assume "2 \<le> length xs"
  with snoc show ?thesis by (cases ys rule: rev_cases) auto
qed simp

lemma decode_rtu_frame_ok:
  assumes "decode_rtu_frame frame = Inr (uid, pdu)"
  shows "encode_rtu_frame uid pdu = Inr frame"
proof -
  have "4 \<le> length frame"
    using assms by (auto simp: decode_rtu_frame_def RTU_MIN_FRAME_LENGTH_def split: if_splits)
  moreover from this obtain body lo hi where frame: "frame = body @ [lo, hi]"
    using split_last_2 [of frame] by auto
  ultimately have len: "2 \<le> length body" by simp
  with assms have crc: "crc16 body = u16 hi lo" and uid: "uid = uint (body ! 0)" and pdu: "pdu = drop 1 body"
    by (auto simp: frame decode_rtu_frame_append split: if_splits)
  from len uid pdu have body: "body = word_of_int uid # pdu" and "pdu \<noteq> []"
    by (cases body; auto)+
  then show ?thesis
    using crc uid by (simp add: encode_rtu_frame_eq crc_bytes_of_def frame flip: body)
qed

lemma decode_rtu_error:
  "decode_rtu_frame frame = Inl e \<Longrightarrow> e = ModbusProtocolError \<or> e = ModbusCRCError"
proof (cases "4 \<le> length frame")
  case True
  then obtain body lo hi where "frame = body @ [lo, hi]"
    using split_last_2 [of frame] by auto
  with True show "decode_rtu_frame frame = Inl e \<Longrightarrow> ?thesis"
    by (auto simp: decode_rtu_frame_append split: if_splits)
qed (simp add: decode_rtu_frame_def RTU_MIN_FRAME_LENGTH_def)

section \<open>Properties\<close>

text \<open>
  C12: the table-driven CRC is the Modbus CRC-16.  On every byte string it equals the shift register
  of the specification fed bit by bit (polynomial 0xA001, initial value 0xFFFF); the result fits 16
  bits, and on the standard check string \<open>"123456789"\<close> it is 0x4B37.
\<close>

theorem crc16_table_correct:
  "crc16 data = crc16_serial data \<and> 0 \<le> crc16 data \<and> crc16 data \<le> 0xFFFF \<and>
   crc16 [0x31, 0x32, 0x33, 0x34, 0x35, 0x36, 0x37, 0x38, 0x39] = 0x4B37"
proof -
  have "crc16 [0x31, 0x32, 0x33, 0x34, 0x35, 0x36, 0x37, 0x38, 0x39] = 0x4B37"
    unfolding crc16_eq_serial by code_simp
  then show ?thesis
    using crc16_range [of data] by (simp add: crc16_eq_serial)
qed

text \<open>
  C13: RTU framing round trips.  Decoding an encoded frame gives back the unit id and the PDU, for
  every unit id 0..255 and non-empty PDU; anything else is refused by the encoder.
\<close>

theorem rtu_roundtrip:
  "bindE (encode_rtu_frame uid pdu) decode_rtu_frame =
     (if rtu_ok uid pdu then Inr (uid, pdu) else Inl ValueError)"
  by (rule decode_encode_rtu)

text \<open>
  C14: corruption of one byte is always detected.  Replacing any single byte of an encoded RTU
  frame, address, PDU or CRC, by a different value makes the decoder raise \<open>ModbusCRCError\<close>; in
  particular every single-bit error and every error burst inside a byte is caught.
\<close>

theorem rtu_detects_one_byte_errors:
  assumes "encode_rtu_frame uid pdu = Inr frame" "i < length frame" "b \<noteq> frame ! i"
  shows "decode_rtu_frame (frame[i := b]) = Inl ModbusCRCError"
proof -
  define body where "body = word_of_int uid # pdu"
  let ?lo = "word_of_int (crc16 body) :: byte" and ?hi = "word_of_int (crc16 body div 256) :: byte"
  from assms(1) have frame: "frame = body @ [?lo, ?hi]" and "pdu \<noteq> []"
    by (auto simp: encode_rtu_frame_eq crc_bytes_of_def body_def split: if_splits)
  then have len: "2 \<le> length body" by (cases pdu) (auto simp: body_def)
  have crc: "u16 ?hi ?lo = crc16 body" by (simp add: crc16_range)
  consider "i < length body" | "i = length body" | "i = Suc (length body)"
    using assms(2) frame by fastforce
  then show ?thesis
  proof cases
    case 1
    then have "frame[i := b] = body[i := b] @ [?lo, ?hi]"
      by (simp add: frame list_update_append1)
    moreover have "crc16 (body[i := b]) \<noteq> u16 ?hi ?lo"
      using crc16_one_byte [of i body b] 1 assms(3) by (simp add: crc frame nth_append)
    ultimately show ?thesis using len by (simp add: decode_rtu_frame_append)
  next
    case 2
    then have "frame[i := b] = body @ [b, ?hi]" "b \<noteq> ?lo"
      using assms(3) by (simp_all add: frame nth_append)
    moreover from this have "crc16 body \<noteq> u16 ?hi b" using u16_inj [of ?hi ?lo ?hi b] by (simp add: crc)
    ultimately show ?thesis using len by (simp add: decode_rtu_frame_append)
  next
    case 3
    then have "frame[i := b] = body @ [?lo, b]" "b \<noteq> ?hi"
      using assms(3) by (simp_all add: frame nth_append list_update_append)
    moreover from this have "crc16 body \<noteq> u16 b ?lo" using u16_inj [of ?hi ?lo b ?lo] by (simp add: crc)
    ultimately show ?thesis using len by (simp add: decode_rtu_frame_append)
  qed
qed

theorem rtu_detects_one_byte_errors_witness:
  "\<exists>frame. encode_rtu_frame 17 [3, 0, 107, 0, 3] = Inr frame \<and>
     decode_rtu_frame (frame[2 := 1]) = Inl ModbusCRCError"
proof -
  obtain frame where f: "encode_rtu_frame 17 [3, 0, 107, 0, 3] = Inr frame"
    and "frame = [17, 3, 0, 107, 0, 3] @ crc_bytes_of [17, 3, 0, 107, 0, 3]"
    by (simp add: encode_rtu_frame_eq)
  then have "2 < length frame" "1 \<noteq> frame ! 2" by simp_all
  with f rtu_detects_one_byte_errors [of 17 "[3, 0, 107, 0, 3]" frame 2 1] show ?thesis by blast
qed

end
