(* ===== verification/Rtu_Response.thy ===== *)
theory Rtu_Response
  imports Adu_Rtu Effects Pdu_Laws
begin

text \<open>
  The response reader of \<open>src/pymod/transport/_rtu_response.py\<close>.  \<open>read_exactly\<close> is a parameter: an effect
  that gives the next bytes of the medium or raises.  The asynchronous and the synchronous reader
  differ only in the primitive they call.
\<close>

section \<open>The reader\<close>

definition RTU_EXCEPTION_BIT :: int where
  "RTU_EXCEPTION_BIT = 0x80"

definition READ_FCS :: "int set" where
  "READ_FCS = {0x01, 0x02, 0x03, 0x04}"

definition WRITE_FCS :: "int set" where
  "WRITE_FCS = {0x05, 0x06, 0x0F, 0x10}"

definition read_rtu_response_async :: "(int \<Rightarrow> ('m, bytes) effect) \<Rightarrow> ('m, bytes) effect" where
  "read_rtu_response_async read_exactly =
     bindS (read_exactly 2) (\<lambda>head.
     bindS (pureS (py_index head 1)) (\<lambda>b. let fc_byte = uint b in
       if fc_byte AND RTU_EXCEPTION_BIT \<noteq> 0 then
         bindS (read_exactly 3) (\<lambda>tail. pureS (Inr (head @ tail)))
       else if fc_byte \<in> READ_FCS then
         bindS (read_exactly 1) (\<lambda>bc.
         bindS (pureS (py_index bc 0)) (\<lambda>n.
         bindS (read_exactly (uint n + 2)) (\<lambda>tail. pureS (Inr (head @ bc @ tail)))))
       else if fc_byte \<in> WRITE_FCS then
         bindS (read_exactly 6) (\<lambda>tail. pureS (Inr (head @ tail)))
       else pureS (Inl ModbusProtocolError)))"

definition read_rtu_response_sync :: "(int \<Rightarrow> ('m, bytes) effect) \<Rightarrow> ('m, bytes) effect" where
  "read_rtu_response_sync read_exactly =
     bindS (read_exactly 2) (\<lambda>head.
     bindS (pureS (py_index head 1)) (\<lambda>b. let fc_byte = uint b in
       if fc_byte AND RTU_EXCEPTION_BIT \<noteq> 0 then
         bindS (read_exactly 3) (\<lambda>tail. pureS (Inr (head @ tail)))
       else if fc_byte \<in> READ_FCS then
         bindS (read_exactly 1) (\<lambda>bc.
         bindS (pureS (py_index bc 0)) (\<lambda>n.
         bindS (read_exactly (uint n + 2)) (\<lambda>tail. pureS (Inr (head @ bc @ tail)))))
       else if fc_byte \<in> WRITE_FCS then
         bindS (read_exactly 6) (\<lambda>tail. pureS (Inr (head @ tail)))
       else pureS (Inl ModbusProtocolError)))"

section \<open>The shape of responses\<close>

text \<open>
  The reference: a response PDU whose length the function code determines, with the byte count for
  the read functions.
\<close>

fun self_delimiting :: "bytes \<Rightarrow> bool" where
  "self_delimiting [] = False"
| "self_delimiting (fc # rest) =
     (if 128 \<le> uint fc then length rest = 1
      else if uint fc \<in> {1, 2, 3, 4} then (case rest of [] \<Rightarrow> False | bc # data \<Rightarrow> int (length data) = uint bc)
      else uint fc \<in> {5, 6, 15, 16} \<and> length rest = 4)"

lemma and_128_byte: "uint (b :: byte) AND 128 \<noteq> 0 \<longleftrightarrow> 128 \<le> uint b"
  using and_128_eq_0_iff [of "uint b"] by (simp add: not_less)

lemma read_rtu_response_same: "read_rtu_response_sync = read_rtu_response_async"
  by (simp add: fun_eq_iff read_rtu_response_sync_def read_rtu_response_async_def)

section \<open>Reading from a medium\<close>

text \<open>
  The first part of the contract of \<open>read_exactly\<close>: what it returns has the length asked for.  \<open>consumed\<close>
  relates the medium before and after to the bytes taken from it.
\<close>

locale sized_reader =
  fixes read_exactly :: "int \<Rightarrow> ('m, bytes) effect" and consumed :: "'m \<Rightarrow> bytes \<Rightarrow> 'm \<Rightarrow> bool"
  assumes returned: "read_exactly n m = (Inr xs, m') \<Longrightarrow> 0 \<le> n \<Longrightarrow> consumed m xs m' \<and> int (length xs) = n"
    and consumed_append: "consumed m xs m1 \<Longrightarrow> consumed m1 ys m2 \<Longrightarrow> consumed m (xs @ ys) m2"
begin

text \<open>What is returned is a frame with a self-delimiting PDU, taken from the medium.\<close>

lemma frame_returned:
  assumes "read_rtu_response_async read_exactly m = (Inr frame, m')"
  shows "\<exists>u pdu c1 c2. frame = u # pdu @ [c1, c2] \<and> self_delimiting pdu \<and> consumed m frame m'"
proof -
  from assms obtain head m1 where h: "read_exactly 2 m = (Inr head, m1)"
    by (auto simp: read_rtu_response_async_def bindS_eq_Inr)
  from returned [OF h] obtain u fc where hd: "head = [u, fc]" and m1: "consumed m [u, fc] m1"
    by (auto simp: length_Suc_conv numeral_2_eq_2)
  consider t where "128 \<le> uint fc" "read_exactly 3 m1 = (Inr t, m')" "frame = [u, fc] @ t"
    | bcs b t m2 where "\<not> 128 \<le> uint fc" "uint fc \<in> READ_FCS" "read_exactly 1 m1 = (Inr bcs, m2)"
        "py_index bcs 0 = Inr b" "read_exactly (uint b + 2) m2 = (Inr t, m')" "frame = [u, fc] @ bcs @ t"
    | t where "\<not> 128 \<le> uint fc" "uint fc \<notin> READ_FCS" "uint fc \<in> WRITE_FCS"
        "read_exactly 6 m1 = (Inr t, m')" "frame = [u, fc] @ t"
    using assms h unfolding hd
    by (auto simp: read_rtu_response_async_def bindS_eq_Inr py_index_def RTU_EXCEPTION_BIT_def and_128_byte Let_def
        simp del: not_le split: if_splits)
  then show ?thesis
  proof cases
    case 1
    with returned [of 3 m1 t m'] split_last_2 [of t] obtain t' c1 c2 where
      "t = t' @ [c1, c2]" "length t' = 1" by auto
    with 1 consumed_append [OF m1, of t m'] returned [of 3 m1 t m'] show ?thesis
      by (intro exI [of _ u] exI [of _ "fc # t'"] exI [of _ c1] exI [of _ c2]) auto
  next
    case 2
    from returned [OF 2(3)] 2(4) have bcs: "bcs = [b]" "consumed m1 [b] m2"
      by (auto simp: py_index_def length_Suc_conv)
    have t: "consumed m2 t m'" "int (length t) = uint b + 2" using returned [OF 2(5)] by simp_all
    have "2 \<le> length t" using t(2) uint_byte_bounds(1) [of b] by linarith
    with split_last_2 obtain t' c1 c2 where "t = t' @ [c1, c2]" by blast
    with 2 bcs t consumed_append [OF consumed_append [OF m1 bcs(2)] t(1)] show ?thesis
      by (intro exI [of _ u] exI [of _ "fc # b # t'"] exI [of _ c1] exI [of _ c2]) (auto simp: READ_FCS_def)
  next
    case 3
    with returned [of 6 m1 t m'] split_last_2 [of t] obtain t' c1 c2 where
      "t = t' @ [c1, c2]" "length t' = 4" by auto
    with 3 consumed_append [OF m1, of t m'] returned [of 6 m1 t m'] show ?thesis
      by (intro exI [of _ u] exI [of _ "fc # t'"] exI [of _ c1] exI [of _ c2]) (auto simp: READ_FCS_def WRITE_FCS_def)
  qed
qed

end

text \<open>
  The whole contract of \<open>read_exactly\<close> on a byte stream: it takes the next bytes of the medium when there are enough of them,
  and raises otherwise.
\<close>

locale exact_reader =
  fixes read_exactly :: "int \<Rightarrow> ('m, bytes) effect" and pending :: "'m \<Rightarrow> bytes"
  assumes read_enough: "0 \<le> n \<Longrightarrow> n \<le> int (length (pending m)) \<Longrightarrow>
      \<exists>m'. read_exactly n m = (Inr (take (nat n) (pending m)), m') \<and> pending m' = drop (nat n) (pending m)"
    and read_short: "int (length (pending m)) < n \<Longrightarrow> \<exists>e m'. read_exactly n m = (Inl e, m')"
begin

lemma read_prefix:
  "pending m = xs @ rest \<Longrightarrow> int (length xs) = n \<Longrightarrow> \<exists>m'. read_exactly n m = (Inr xs, m') \<and> pending m' = rest"
  using read_enough [of n m] by auto

lemma read_returned:
  assumes "read_exactly n m = (Inr xs, m')" "0 \<le> n"
  shows "pending m = xs @ pending m' \<and> int (length xs) = n"
proof (cases "n \<le> int (length (pending m))")
  case True
  with read_enough [of n m] assms show ?thesis by auto
next
  case False
  with read_short [of m n] assms show ?thesis by auto
qed

text \<open>A frame with a self-delimiting PDU is read as a whole, and nothing after it is touched.\<close>

lemma read_frame:
  assumes "pending m = u # pdu @ [c1, c2] @ rest" "self_delimiting pdu"
  shows "\<exists>m'. read_rtu_response_async read_exactly m = (Inr (u # pdu @ [c1, c2]), m') \<and> pending m' = rest"
proof -
  obtain fc body where pdu: "pdu = fc # body" using assms(2) by (cases pdu) auto
  obtain m1 where m1: "read_exactly 2 m = (Inr [u, fc], m1)" "pending m1 = body @ [c1, c2] @ rest"
    using read_prefix [of m "[u, fc]" "body @ [c1, c2] @ rest" 2] assms(1) pdu by auto
  consider "128 \<le> uint fc" "int (length (body @ [c1, c2])) = 3"
    | bc data where "\<not> 128 \<le> uint fc" "uint fc \<in> READ_FCS" "body = bc # data" "int (length data) = uint bc"
    | "\<not> 128 \<le> uint fc" "uint fc \<notin> READ_FCS" "uint fc \<in> WRITE_FCS" "int (length (body @ [c1, c2])) = 6"
    using assms(2) pdu by (auto simp: READ_FCS_def WRITE_FCS_def split: if_splits list.splits)
  then show ?thesis
  proof cases
    case 1
    from read_prefix [of m1 "body @ [c1, c2]" rest, OF _ 1(2)] m1(2) obtain m2 where
      "read_exactly 3 m1 = (Inr (body @ [c1, c2]), m2)" "pending m2 = rest" by auto
    with 1 m1 show ?thesis
      by (simp add: read_rtu_response_async_def bindS_def pureS_def py_index_def RTU_EXCEPTION_BIT_def and_128_byte pdu)
  next
    case 2
    from read_prefix [of m1 "[bc]" "data @ [c1, c2] @ rest" 1] m1(2) 2 obtain m2 where
      m2: "read_exactly 1 m1 = (Inr [bc], m2)" "pending m2 = (data @ [c1, c2]) @ rest" by auto
    from read_prefix [OF m2(2)] 2 obtain m3 where
      "read_exactly (uint bc + 2) m2 = (Inr (data @ [c1, c2]), m3)" "pending m3 = rest"
      by (auto simp: add.commute)
    with 2 m1 m2 and_128_byte [of fc] show ?thesis
      by (simp add: read_rtu_response_async_def bindS_def pureS_def py_index_def RTU_EXCEPTION_BIT_def pdu)
  next
    case 3
    from read_prefix [of m1 "body @ [c1, c2]" rest, OF _ 3(4)] m1(2) obtain m2 where
      "read_exactly 6 m1 = (Inr (body @ [c1, c2]), m2)" "pending m2 = rest" by auto
    with 3 m1 and_128_byte [of fc] show ?thesis
      by (simp add: read_rtu_response_async_def bindS_def pureS_def py_index_def RTU_EXCEPTION_BIT_def pdu)
  qed
qed

end

sublocale exact_reader \<subseteq> sized_reader read_exactly "\<lambda>m xs m'. pending m = xs @ pending m'"
  by unfold_locales (auto dest: read_returned)

text \<open>The reader adds no exceptions but the protocol error to those of \<open>read_exactly\<close>.\<close>

lemma read_rtu_response_error:
  assumes "read_rtu_response_async read_exactly m = (Inl e, m')"
    "\<And>n m xs m'. read_exactly n m = (Inr xs, m') \<Longrightarrow> n \<le> int (length xs)"
  shows "e = ModbusProtocolError \<or> (\<exists>n m m'. read_exactly n m = (Inl e, m'))"
  using assms(1)
  by (auto simp: read_rtu_response_async_def bindS_eq_Inl bindS_eq_Inr Let_def py_index_def
      split: if_splits dest!: assms(2))

section \<open>Streams\<close>

text \<open>
  An \<open>asyncio.StreamReader\<close> under \<open>wait_for\<close>: the bytes that are buffered or arrive before the deadline, and
  what happens when they are used up: the deadline passes, the peer closes or the connection breaks.
\<close>

datatype stream_end = Stalled | Eof | Broken

record stream =
  st_data :: bytes
  st_end :: stream_end

primrec end_error :: "stream_end \<Rightarrow> py_exn" where
  "end_error Stalled = AsyncTimeoutError"
| "end_error Eof = IncompleteReadError"
| "end_error Broken = OSError"

definition readexactly :: "int \<Rightarrow> (stream, bytes) effect" where
  "readexactly n s =
     (if int (length (st_data s)) < n then (Inl (end_error (st_end s)), s)
      else (Inr (take (nat n) (st_data s)), s\<lparr>st_data := drop (nat n) (st_data s)\<rparr>))"

interpretation stream_reader: exact_reader readexactly st_data
  by unfold_locales (auto simp: readexactly_def)

lemma readexactly_length: "readexactly n s = (Inr xs, s') \<Longrightarrow> n \<le> int (length xs)"
  by (auto simp: readexactly_def split: if_splits)

section \<open>Operating system errors\<close>

text \<open>
  \<open>isinstance(e, OSError)\<close>: \<open>asyncio.TimeoutError\<close> is \<open>TimeoutError\<close>, a subclass of \<open>OSError\<close>, and so is
  pyserial's \<open>SerialException\<close> with its subclass \<open>SerialTimeoutException\<close>.
\<close>

definition is_os_error :: "py_exn \<Rightarrow> bool" where
  "is_os_error e \<longleftrightarrow> e \<in> {OSError, AsyncTimeoutError, SerialException, SerialTimeoutException}"

end
