(* ===== verification/Rtu_Over_Tcp.thy ===== *)
theory Rtu_Over_Tcp
  imports Rtu_Response Transport_Contract
begin

text \<open>
  The transport of \<open>src/pymod/transport/rtu_over_tcp.py\<close>.  What the network does during a call is an
  input of the call: whether the connection opens, whether the request can be written, which bytes
  arrive before the deadline and how the stream ends.  The lock makes the calls run one after the
  other; only \<open>close\<close> sets its flag before it takes the lock, and its two parts are separate steps.
\<close>

section \<open>State and network\<close>

record rot =
  rt_connected :: bool
  rt_closed :: bool
  rt_stream :: "bytes option"  \<comment> \<open>reader and writer, with the bytes received and not yet read\<close>

definition rot_init :: rot where
  "rot_init = \<lparr>rt_connected = False, rt_closed = False, rt_stream = None\<rparr>"

record net =
  nc_open :: "unit result"
  nc_write :: "unit result"
  nc_data :: bytes
  nc_end :: stream_end

section \<open>Operations\<close>

definition rot_teardown_locked :: "rot \<Rightarrow> rot" where
  "rot_teardown_locked st = st\<lparr>rt_connected := False, rt_stream := None\<rparr>"

definition rot_open_locked :: "net \<Rightarrow> (rot, unit) effect" where
  "rot_open_locked net st =
     (if rt_connected st then (Inr (), st)
      else if rt_closed st then (Inl ModbusError, st)
      else case nc_open net of
          Inl e \<Rightarrow> (if e = AsyncTimeoutError then Inl ModbusConnectionError
                   else if is_os_error e then Inl ModbusConnectionError else Inl e, st)
        | Inr _ \<Rightarrow> (Inr (), st\<lparr>rt_stream := Some [], rt_connected := True\<rparr>))"

text \<open>The part of \<open>send_and_receive\<close> that holds the lock.\<close>

definition rot_exchange_locked :: "net \<Rightarrow> bytes \<Rightarrow> int \<Rightarrow> (rot, bytes) effect" where
  "rot_exchange_locked net pdu unit_id =
     bindS (rot_open_locked net) (\<lambda>_ st.
       case rt_stream st of
         None \<Rightarrow> (Inl AssertionError, st)
       | Some buf \<Rightarrow>
           (case encode_rtu_frame unit_id pdu of
              Inl e \<Rightarrow> (Inl e, st)
            | Inr frame \<Rightarrow>
                (case nc_write net of
                   Inl e \<Rightarrow> if is_os_error e then (Inl ModbusConnectionError, rot_teardown_locked st) else (Inl e, st)
                 | Inr _ \<Rightarrow>
                     (let (r, s) = read_rtu_response_async readexactly \<lparr>st_data = buf @ nc_data net, st_end = nc_end net\<rparr>;
                          st' = st\<lparr>rt_stream := Some (st_data s)\<rparr>
                      in case r of
                           Inl e \<Rightarrow>
                             if e = AsyncTimeoutError then (Inl ModbusTimeoutError, rot_teardown_locked st')
                             else if e = IncompleteReadError then (Inl ModbusConnectionError, rot_teardown_locked st')
                             else if is_os_error e then (Inl ModbusConnectionError, rot_teardown_locked st')
                             else (Inl e, st')
                         | Inr response_frame \<Rightarrow>
                             (case decode_rtu_frame response_frame of
                                Inl e \<Rightarrow> (Inl e, st')
                              | Inr (uid, response_pdu) \<Rightarrow>
                                  if uid \<noteq> unit_id then (Inl ModbusProtocolError, st')
                                  else (Inr response_pdu, st'))))))"

definition rot_send_and_receive :: "net \<Rightarrow> bytes \<Rightarrow> int \<Rightarrow> (rot, bytes) effect" where
  "rot_send_and_receive net pdu unit_id st =
     (if rt_closed st then (Inl ModbusError, st)
      else if length pdu = 0 then (Inl ValueError, st)
      else rot_exchange_locked net pdu unit_id st)"

definition rot_connect :: "net \<Rightarrow> (rot, unit) effect" where
  "rot_connect net st = (if rt_closed st then (Inl ModbusError, st) else rot_open_locked net st)"

definition rot_close :: "rot \<Rightarrow> rot" where
  "rot_close st = rot_teardown_locked (st\<lparr>rt_closed := True\<rparr>)"

text \<open>
  The transport interface on a world that also holds what the network does in the calls to come; when
  that list is used up, the network is gone.
\<close>

definition net_down :: net where
  "net_down = \<lparr>nc_open = Inl OSError, nc_write = Inl OSError, nc_data = [], nc_end = Broken\<rparr>"

definition with_net :: "(net \<Rightarrow> (rot, 'a) effect) \<Rightarrow> (rot \<times> net list, 'a) effect" where
  "with_net op w =
     (let (st, nets) = w; (r, st') = op (case nets of [] \<Rightarrow> net_down | n # _ \<Rightarrow> n) st in (r, (st', drop 1 nets)))"

definition RtuOverTcpTransport :: "(rot \<times> net list) transport" where
  "RtuOverTcpTransport = \<lparr>tr_connect = with_net rot_connect,
     tr_close = (\<lambda>(st, nets). (Inr (), (rot_close st, nets))),
     tr_is_connected = (\<lambda>(st, nets). rt_connected st),
     tr_send_and_receive = (\<lambda>pdu unit_id timeout_s. with_net (\<lambda>net. rot_send_and_receive net pdu unit_id))\<rparr>"

section \<open>Steps\<close>

text \<open>
  The locked parts of the calls in any order.  A call may have checked \<open>_closed\<close> long before it gets the
  lock, so the locked parts run whatever the flag says.
\<close>

inductive rot_step :: "rot \<Rightarrow> rot \<Rightarrow> bool" where
  step_open: "rot_step st (snd (rot_open_locked net st))"
| step_exchange: "rot_step st (snd (rot_exchange_locked net pdu unit_id st))"
| step_close_flag: "rot_step st (st\<lparr>rt_closed := True\<rparr>)"
| step_close_locked: "rt_closed st \<Longrightarrow> rot_step st (rot_teardown_locked st)"

definition rot_inv :: "rot \<Rightarrow> bool" where
  "rot_inv st \<longleftrightarrow> (rt_connected st \<longleftrightarrow> rt_stream st \<noteq> None)"

lemma rot_inv_teardown [simp]: "rot_inv (rot_teardown_locked st)"
  by (simp add: rot_inv_def rot_teardown_locked_def)

lemma rot_inv_flag [simp]: "rot_inv (st\<lparr>rt_closed := c\<rparr>) = rot_inv st"
  by (simp add: rot_inv_def)

lemma rot_inv_stream [simp]: "rot_inv st \<Longrightarrow> rt_stream st = Some b \<Longrightarrow> rot_inv (st\<lparr>rt_stream := Some b'\<rparr>)"
  by (simp add: rot_inv_def)

lemma rot_open_cases:
  assumes "rot_inv st"
  obtains (opened) st' buf where "rot_open_locked net st = (Inr (), st')" "rt_stream st' = Some buf" "rot_inv st'"
      "rt_closed st' = rt_closed st" "rt_connected st'" "rt_connected st \<or> \<not> rt_closed st"
      "if rt_connected st then st' = st else buf = []"
  | (failed) e where "rot_open_locked net st = (Inl e, st)" "\<not> rt_connected st" "rot_inv st"
      "rt_closed st \<and> e = ModbusError \<or> \<not> rt_closed st \<and> (\<exists>e'. nc_open net = Inl e' \<and> e = (if is_os_error e' then ModbusConnectionError else e'))"
proof (cases "rt_connected st")
  case True
  with assms obtain buf where "rt_stream st = Some buf" by (auto simp: rot_inv_def)
  with True assms show ?thesis by (intro opened [of st buf]) (simp_all add: rot_open_locked_def)
next
  case False
  show ?thesis
  proof (cases "rt_closed st \<or> is_raised (nc_open net)")
    case True
    with False assms show ?thesis
      by (cases "rt_closed st"; cases "nc_open net") (auto simp: rot_open_locked_def is_os_error_def intro!: failed)
  next
    case False
    with \<open>\<not> rt_connected st\<close> show ?thesis
      by (intro opened [of "st\<lparr>rt_stream := Some [], rt_connected := True\<rparr>" "[]"])
        (cases "nc_open net"; simp add: rot_open_locked_def rot_inv_def)+
  qed
qed

lemma rot_inv_open: "rot_inv st \<Longrightarrow> rot_inv (snd (rot_open_locked net st))"
  by (erule rot_open_cases [of st net]) simp_all

lemma rot_inv_exchange: "rot_inv st \<Longrightarrow> rot_inv (snd (rot_exchange_locked net pdu unit_id st))"
  by (erule rot_open_cases [of st net])
    (auto simp: rot_exchange_locked_def bindS_def Let_def split: sum.split prod.split)

lemma rot_step_inv: "rot_step st st' \<Longrightarrow> rot_inv st \<Longrightarrow> rot_inv st'"
  by (induction rule: rot_step.induct) (auto intro: rot_inv_open rot_inv_exchange)

lemma rot_step_closed: "rot_step st st' \<Longrightarrow> rot_inv st \<Longrightarrow> rt_closed st \<Longrightarrow> \<not> rt_connected st \<Longrightarrow> rt_closed st' \<and> \<not> rt_connected st'"
  by (induction rule: rot_step.induct)
    (simp_all add: rot_open_locked_def rot_exchange_locked_def bindS_def rot_teardown_locked_def)

section \<open>Exchanges\<close>

definition unread :: "rot \<Rightarrow> bytes" where
  "unread st = (case rt_stream st of None \<Rightarrow> [] | Some buf \<Rightarrow> buf)"

lemma stream_error: "read_rtu_response_async readexactly s = (Inl e, s') \<Longrightarrow>
    e = ModbusProtocolError \<or> e = AsyncTimeoutError \<or> e = IncompleteReadError \<or> e = OSError"
proof -
  assume "read_rtu_response_async readexactly s = (Inl e, s')"
  then have "e = ModbusProtocolError \<or> (\<exists>n m m'. readexactly n m = (Inl e, m'))"
    by (rule read_rtu_response_error) (rule readexactly_length)
  then consider "e = ModbusProtocolError" | x where "e = end_error x"
    by (auto simp: readexactly_def split: if_splits)
  then show ?thesis
  proof cases
    case (2 x)
    then show ?thesis by (cases x) simp_all
  qed simp
qed

text \<open>A frame of the reader that decodes is the encoding of its PDU.\<close>

lemma stream_frame_decoded:
  assumes "read_rtu_response_async readexactly s = (Inr frame, s')" "decode_rtu_frame frame = Inr (uid, pdu)"
  shows "encode_rtu_frame uid pdu = Inr frame \<and> self_delimiting pdu \<and> st_data s = frame @ st_data s'"
proof -
  from stream_reader.frame_returned [OF assms(1)] obtain u p c1 c2 where
    f: "frame = u # p @ [c1, c2]" "self_delimiting p" "st_data s = frame @ st_data s'" by blast
  have enc: "encode_rtu_frame uid pdu = Inr frame" by (rule decode_rtu_frame_ok [OF assms(2)])
  then have "pdu = p" using f(1) by (auto simp: encode_rtu_frame_eq crc_bytes_of_def split: if_splits)
  with f enc show ?thesis by simp
qed

lemma stream_frame_read:
  assumes "encode_rtu_frame uid pdu = Inr frame" "self_delimiting pdu" "st_data s = frame @ rest"
  shows "\<exists>s'. read_rtu_response_async readexactly s = (Inr frame, s') \<and> st_data s' = rest"
  using assms stream_reader.read_frame [of s _ pdu _ _ rest]
  by (auto simp: encode_rtu_frame_eq crc_bytes_of_def split: if_splits)

lemma exchange_locked_outcome:
  assumes inv: "rot_inv st" and ex: "rot_exchange_locked net pdu uid st = (r, st')"
    and os: "\<forall>e. nc_open net = Inl e \<or> nc_write net = Inl e \<longrightarrow> is_os_error e"
  shows "(case r of
      Inr resp \<Rightarrow> rt_connected st' \<and> (\<exists>frame. encode_rtu_frame uid resp = Inr frame \<and> self_delimiting resp \<and>
          unread st @ nc_data net = frame @ unread st')
    | Inl e \<Rightarrow> (is_modbus_error e \<or> e = ValueError \<and> \<not> rtu_ok uid pdu) \<and>
        (e = ModbusTimeoutError \<or> e = ModbusConnectionError \<longrightarrow> \<not> rt_connected st'))"
  using inv
proof (cases rule: rot_open_cases [where net = net])
  case (failed e)
  with ex os show ?thesis by (auto simp: rot_exchange_locked_def bindS_def is_os_error_def)
next
  case (opened st1 buf)
  have buf: "unread st = buf" using opened inv by (auto simp: unread_def rot_inv_def split: if_splits)
  obtain rr s where rd: "read_rtu_response_async readexactly \<lparr>st_data = buf @ nc_data net, st_end = nc_end net\<rparr> = (rr, s)"
    by fastforce
  note locked = rot_exchange_locked_def bindS_def Let_def rot_teardown_locked_def
  consider e where "encode_rtu_frame uid pdu = Inl e"
    | f e where "encode_rtu_frame uid pdu = Inr f" "nc_write net = Inl e"
    | f e where "encode_rtu_frame uid pdu = Inr f" "nc_write net = Inr ()" "rr = Inl e"
    | f g where "encode_rtu_frame uid pdu = Inr f" "nc_write net = Inr ()" "rr = Inr g"
    by (cases "encode_rtu_frame uid pdu"; cases "nc_write net"; cases rr) auto
  then show ?thesis
  proof cases
    case 1
    then have "e = ValueError" "\<not> rtu_ok uid pdu" by (auto simp: encode_rtu_frame_eq split: if_splits)
    moreover have "r = Inl e" using 1 ex opened(1,2) by (simp add: locked)
    ultimately show ?thesis by simp
  next
    case 2
    with ex opened os show ?thesis by (auto simp: locked)
  next
    case 3
    with rd have "e = ModbusProtocolError \<or> e = AsyncTimeoutError \<or> e = IncompleteReadError \<or> e = OSError"
      by (auto dest: stream_error)
    with ex opened(1,2,5) rd 3 show ?thesis by (elim disjE) (auto simp: locked is_os_error_def)
  next
    case 4
    show ?thesis
    proof (cases "decode_rtu_frame g")
      case (Inl e)
      with ex opened rd 4 decode_rtu_error [OF Inl] show ?thesis by (auto simp: locked)
    next
      case (Inr x)
      obtain rid rpdu where x: "x = (rid, rpdu)" by fastforce
      from stream_frame_decoded [of "\<lparr>st_data = buf @ nc_data net, st_end = nc_end net\<rparr>" g s rid rpdu] rd 4 Inr x have
        "encode_rtu_frame rid rpdu = Inr g" "self_delimiting rpdu" "buf @ nc_data net = g @ st_data s" by auto
      with ex opened rd 4 Inr x buf show ?thesis by (auto simp: locked unread_def split: if_splits)
    qed
  qed
qed

text \<open>The transport keeps the contract of the client, on networks that fail with the documented errors.\<close>

definition net_documented :: "net \<Rightarrow> bool" where
  "net_documented net \<longleftrightarrow> (\<forall>e. nc_open net = Inl e \<or> nc_write net = Inl e \<longrightarrow> is_os_error e)"

definition rot_good :: "rot \<times> net list \<Rightarrow> bool" where
  "rot_good w \<longleftrightarrow> rot_inv (fst w) \<and> (\<forall>net \<in> set (snd w). net_documented net)"

lemma rot_send_outcome:
  assumes "rot_inv st" "net_documented net"
  shows "rot_inv (snd (rot_send_and_receive net pdu uid st)) \<and>
    (\<forall>e. fst (rot_send_and_receive net pdu uid st) = Inl e \<longrightarrow> is_modbus_error e \<or> \<not> rtu_ok uid pdu)"
proof (cases "rt_closed st \<or> pdu = []")
  case True
  with assms(1) show ?thesis by (auto simp: rot_send_and_receive_def)
next
  case False
  with exchange_locked_outcome [OF assms(1) prod.collapse [symmetric], of net uid pdu] assms rot_inv_exchange [OF assms(1), of net pdu uid]
  show ?thesis by (auto simp: rot_send_and_receive_def net_documented_def)
qed

lemma rot_send_closed: "rt_closed (snd (rot_send_and_receive net pdu uid st)) = rt_closed st"
  by (auto simp: rot_send_and_receive_def rot_exchange_locked_def rot_open_locked_def bindS_def Let_def rot_teardown_locked_def
      split: sum.splits option.splits prod.splits)

lemma rot_connect_outcome:
  assumes "rot_inv st" "net_documented net"
  shows "rot_inv (snd (rot_connect net st)) \<and> (\<forall>e. fst (rot_connect net st) = Inl e \<longrightarrow> is_modbus_error e)"
  using assms rot_inv_open [OF assms(1), of net]
  by (auto simp: rot_connect_def rot_open_locked_def net_documented_def split: if_splits sum.splits)

lemma with_net_eq: "with_net op w =
    (fst (op (if snd w = [] then net_down else hd (snd w)) (fst w)), (snd (op (if snd w = [] then net_down else hd (snd w)) (fst w)), drop 1 (snd w)))"
  by (cases "snd w") (auto simp: with_net_def split_beta Let_def)

lemma rot_good_net: "rot_good w \<Longrightarrow> net_documented (if snd w = [] then net_down else hd (snd w))"
  by (auto simp: rot_good_def net_documented_def net_down_def is_os_error_def)

lemma rot_good_next: "rot_good w \<Longrightarrow> rot_inv st \<Longrightarrow> rot_good (st, drop 1 (snd w))"
  by (auto simp: rot_good_def dest: in_set_dropD)

interpretation rot: modbus_transport RtuOverTcpTransport rot_good rtu_ok
proof
  fix w :: "rot \<times> net list" and pdu uid and t :: rat and e
  assume w: "rot_good w"
  then have inv: "rot_inv (fst w)" by (simp add: rot_good_def)
  note send = rot_send_outcome [OF inv rot_good_net [OF w], of pdu uid] and conn = rot_connect_outcome [OF inv rot_good_net [OF w]]
  show "rot_good (snd (tr_send_and_receive RtuOverTcpTransport pdu uid t w))"
    using send rot_good_next [OF w] by (simp add: RtuOverTcpTransport_def with_net_eq)
  show "rtu_ok uid pdu \<Longrightarrow> fst (tr_send_and_receive RtuOverTcpTransport pdu uid t w) = Inl e \<Longrightarrow> is_modbus_error e"
    using send by (simp add: RtuOverTcpTransport_def with_net_eq)
  show "rot_good (snd (tr_connect RtuOverTcpTransport w))"
    using conn rot_good_next [OF w] by (simp add: RtuOverTcpTransport_def with_net_eq)
  show "fst (tr_connect RtuOverTcpTransport w) = Inl e \<Longrightarrow> is_modbus_error e"
    using conn by (simp add: RtuOverTcpTransport_def with_net_eq)
  show "fst (tr_close RtuOverTcpTransport w) = Inl e \<Longrightarrow> is_modbus_error e"
    by (simp add: RtuOverTcpTransport_def split_beta)
qed

section \<open>Properties\<close>

text \<open>A network on which all goes well and the given bytes arrive.\<close>

definition net_ok :: "bytes \<Rightarrow> net" where
  "net_ok data = \<lparr>nc_open = Inr (), nc_write = Inr (), nc_data = data, nc_end = Stalled\<rparr>"

lemma net_simps [simp]:
  "nc_open (net_ok data) = Inr ()" "nc_write (net_ok data) = Inr ()" "nc_data (net_ok data) = data"
  "nc_open net_down = Inl OSError" "nc_write net_down = Inl OSError"
  by (simp_all add: net_ok_def net_down_def)

definition frame_of :: "int \<Rightarrow> bytes \<Rightarrow> bytes" where
  "frame_of uid pdu = (word_of_int uid # pdu) @ crc_bytes_of (word_of_int uid # pdu)"

lemma encode_frame_of: "rtu_ok uid pdu \<Longrightarrow> encode_rtu_frame uid pdu = Inr (frame_of uid pdu)"
  by (simp add: encode_rtu_frame_eq frame_of_def)

lemma rot_inv_init [simp]: "rot_inv rot_init"
  by (simp add: rot_inv_def rot_init_def)

text \<open>
  C31: an exchange of the RTU-over-TCP transport.  Whatever the network does, a call leaves reader and
  writer set exactly if the transport is connected.  A returned PDU is the content of a frame with
  a correct CRC and the address of the unit asked, taken from the front of the bytes received; the
  bytes after that frame stay unread.  Every error is a \<open>ModbusError\<close>, but for the \<open>ValueError\<close> of a request
  that cannot be framed, and after a timeout or a lost connection the transport is disconnected, so
  that a late answer is never taken for the answer to the next request.
\<close>

theorem rtu_over_tcp_exchange:
  assumes "rot_inv st" "rot_send_and_receive net pdu uid st = (r, st')"
    "\<forall>e. nc_open net = Inl e \<or> nc_write net = Inl e \<longrightarrow> is_os_error e"
  shows "rot_inv st' \<and> (case r of
      Inr resp \<Rightarrow> rt_connected st' \<and> (\<exists>frame. encode_rtu_frame uid resp = Inr frame \<and> self_delimiting resp \<and>
          unread st @ nc_data net = frame @ unread st')
    | Inl e \<Rightarrow> (is_modbus_error e \<or> e = ValueError \<and> \<not> rtu_ok uid pdu) \<and>
        (e = ModbusTimeoutError \<or> e = ModbusConnectionError \<longrightarrow> \<not> rt_connected st'))"
proof (cases "rt_closed st \<or> pdu = []")
  case True
  with assms show ?thesis by (auto simp: rot_send_and_receive_def split: if_splits)
next
  case False
  with assms(2) have "rot_exchange_locked net pdu uid st = (r, st')" by (simp add: rot_send_and_receive_def)
  with exchange_locked_outcome [OF assms(1) this assms(3)] rot_inv_exchange [OF assms(1), of net pdu uid]
  show ?thesis by simp
qed

theorem rtu_over_tcp_exchange_witness:
  "rot_inv (snd (rot_send_and_receive net_down [3] 1 rot_init))"
  using rtu_over_tcp_exchange [OF rot_inv_init prod.collapse [symmetric], of net_down "[3]" 1]
  by (simp add: is_os_error_def)


text \<open>
  A healthy exchange succeeds.  If the transport is connected or can connect, the request can be
  written, nothing stale is unread and the device answers with a response of a known function code,
  the call returns that response and leaves nothing unread.
\<close>

theorem rtu_over_tcp_answers:
  assumes "rot_inv st" "\<not> rt_closed st" "rt_connected st \<or> nc_open net = Inr ()" "nc_write net = Inr ()"
    and "rtu_ok uid pdu" "unread st = []" "encode_rtu_frame uid resp = Inr (nc_data net)" "self_delimiting resp"
  shows "\<exists>st'. rot_send_and_receive net pdu uid st = (Inr resp, st') \<and> rt_connected st' \<and> unread st' = []"
  using assms(1)
proof (cases rule: rot_open_cases [where net = net])
  case (failed e)
  with assms show ?thesis by auto
next
  case (opened st1 buf)
  then have buf: "buf = []" using assms(1,6) by (auto simp: unread_def rot_inv_def split: if_splits)
  obtain s where s: "read_rtu_response_async readexactly \<lparr>st_data = nc_data net, st_end = nc_end net\<rparr> = (Inr (nc_data net), s)"
      "st_data s = []"
    using stream_frame_read [OF assms(7,8), of _ "[]"] by force
  have "decode_rtu_frame (nc_data net) = Inr (uid, resp)"
    by (rule decode_encoded_rtu [OF assms(7)])
  with assms opened buf s show ?thesis
    by (auto simp: rot_send_and_receive_def rot_exchange_locked_def bindS_def encode_rtu_frame_eq unread_def)
qed

theorem rtu_over_tcp_answers_witness:
  "\<exists>st'. rot_send_and_receive (net_ok (frame_of 1 [3, 2, 0, 7])) [3, 0, 0, 0, 1] 1 rot_init = (Inr [3, 2, 0, 7], st') \<and>
     unread st' = []"
  using rtu_over_tcp_answers [of rot_init "net_ok (frame_of 1 [3, 2, 0, 7])" 1 "[3, 0, 0, 0, 1]" "[3, 2, 0, 7]"]
  by (force simp: encode_frame_of rot_init_def unread_def rot_inv_def)


text \<open>
  Stale bytes after a protocol error.  When a response has a function code the reader does not know,
  the call raises \<open>ModbusProtocolError\<close> but keeps the connection and the bytes behind the function code.
  The next call starts reading there: if those bytes form a frame, it returns their content whatever
  the device answers to it.
\<close>

theorem rtu_over_tcp_stale:
  assumes "rot_inv st" "\<not> rt_closed st" "rt_connected st" "unread st = []" "rtu_ok uid pdu" "rtu_ok uid pdu2"
    and "nc_write net1 = Inr ()" "nc_write net2 = Inr ()"
    and "nc_data net1 = [u, fc] @ stale" "uint fc \<notin> READ_FCS \<union> WRITE_FCS" "uint fc < 128"
    and "encode_rtu_frame uid resp = Inr stale" "self_delimiting resp"
  shows "\<exists>st1. rot_send_and_receive net1 pdu uid st = (Inl ModbusProtocolError, st1) \<and> rt_connected st1 \<and>
    fst (rot_send_and_receive net2 pdu2 uid st1) = Inr resp"
proof -
  have st: "rt_stream st = Some []" using assms(1,3,4) by (auto simp: rot_inv_def unread_def)
  have "read_rtu_response_async readexactly \<lparr>st_data = [u, fc] @ stale, st_end = nc_end net1\<rparr> =
      (Inl ModbusProtocolError, \<lparr>st_data = stale, st_end = nc_end net1\<rparr>)"
    using assms(10,11) and_128_byte [of fc]
    by (simp add: read_rtu_response_async_def bindS_def pureS_def readexactly_def py_index_def RTU_EXCEPTION_BIT_def)
  then have 1: "rot_send_and_receive net1 pdu uid st = (Inl ModbusProtocolError, st\<lparr>rt_stream := Some stale\<rparr>)"
    using assms st by (auto simp: rot_send_and_receive_def rot_exchange_locked_def rot_open_locked_def bindS_def
        encode_rtu_frame_eq is_os_error_def)
  obtain s where "read_rtu_response_async readexactly \<lparr>st_data = stale @ nc_data net2, st_end = nc_end net2\<rparr> = (Inr stale, s)"
    using stream_frame_read [OF assms(12,13), of _ "nc_data net2"] by force
  moreover have "decode_rtu_frame stale = Inr (uid, resp)"
    by (rule decode_encoded_rtu [OF assms(12)])
  ultimately have "fst (rot_send_and_receive net2 pdu2 uid (st\<lparr>rt_stream := Some stale\<rparr>)) = Inr resp"
    using assms by (auto simp: rot_send_and_receive_def rot_exchange_locked_def rot_open_locked_def bindS_def
        encode_rtu_frame_eq)
  with 1 assms(3) show ?thesis by simp
qed

theorem rtu_over_tcp_stale_witness:
  "\<exists>st1. rot_send_and_receive (net_ok ([1, 0x41] @ frame_of 1 [3, 2, 0, 7])) [3, 0, 0, 0, 1] 1
       \<lparr>rt_connected = True, rt_closed = False, rt_stream = Some []\<rparr> = (Inl ModbusProtocolError, st1) \<and>
     fst (rot_send_and_receive (net_ok []) [3, 0, 9, 0, 1] 1 st1) = Inr [3, 2, 0, 7]"
  using rtu_over_tcp_stale [of "\<lparr>rt_connected = True, rt_closed = False, rt_stream = Some []\<rparr>" 1 "[3, 0, 0, 0, 1]"
      "[3, 0, 9, 0, 1]" "net_ok ([1, 0x41] @ frame_of 1 [3, 2, 0, 7])" "net_ok []" 1 "0x41" "frame_of 1 [3, 2, 0, 7]" "[3, 2, 0, 7]"]
  by (auto simp: encode_frame_of rot_inv_def unread_def READ_FCS_def WRITE_FCS_def)


text \<open>
  Closing is final.  In every order of calls, once \<open>close\<close> has disconnected the transport no call
  connects it again.
\<close>

theorem rtu_over_tcp_closed:
  assumes "rot_step\<^sup>*\<^sup>* rot_init st" "rot_step\<^sup>*\<^sup>* (rot_close st) st'"
  shows "rot_inv st' \<and> rt_closed st' \<and> \<not> rt_connected st' \<and>
    rot_send_and_receive net pdu uid st' = (Inl ModbusError, st') \<and> rot_connect net st' = (Inl ModbusError, st')"
proof -
  have "rot_inv st' \<and> rt_closed st' \<and> \<not> rt_connected st'"
    using assms(2)
  proof (induction rule: rtranclp_induct)
    case base
    then show ?case by (simp add: rot_close_def) (simp add: rot_teardown_locked_def)
  next
    case (step a b)
    then show ?case using rot_step_inv rot_step_closed by blast
  qed
  then show ?thesis by (simp add: rot_send_and_receive_def rot_connect_def)
qed

theorem rtu_over_tcp_closed_witness:
  "rt_closed (rot_close rot_init) \<and> \<not> rt_connected (rot_close rot_init)"
  using rtu_over_tcp_closed [of rot_init "rot_close rot_init" net_down "[3]" 1] by simp

end
