(* ===== verification/Gateway.thy ===== *)
theory Gateway
  imports Store_Client Rtu_Over_Tcp
begin

text \<open>
  A transport that reaches a device: RTU over TCP to a gateway whose device answers as the server does,
  for servers whose responses to reads delimit themselves in the stream.  A host memory of cells has them.
\<close>

section \<open>Responses that delimit themselves\<close>

lemma counted_delimited:
  assumes "pdu \<noteq> [] \<and> uint (pdu ! 0) = fc" "fc \<in> {1, 2, 3, 4}" "2 \<le> length pdu" "int (length pdu) = 2 + uint (pdu ! 1)"
  shows "self_delimiting pdu"
proof -
  obtain f bc data where "pdu = f # bc # data" using assms(3) by (cases pdu; cases "tl pdu") auto
  with assms show ?thesis by auto
qed

lemma area_values_delimited:
  assumes "area_values a resp n = Inr vs"
  shows "self_delimiting resp"
  using assms
  by (cases a)
    (auto simp: decode_read_coils_def decode_read_discrete_inputs_def decode_read_holding_registers_def
      decode_read_input_registers_def decode_bit_response_eq decode_register_response_eq pymod_const
      split: if_splits dest!: raise_exception_Inr intro!: counted_delimited)

text \<open>The server answers every read request, with a response that delimits itself, and keeps its store.\<close>

definition serves_reads :: "'s server \<Rightarrow> int \<Rightarrow> 's \<Rightarrow> bool" where
  "serves_reads srv uid st \<longleftrightarrow>
     (\<forall>req. sent_by_read req \<longrightarrow> (\<exists>resp. dispatch srv uid req st = (Inr resp, st) \<and> self_delimiting resp))"

context host_store begin

lemma read_delimited:
  assumes srv: "srv_on_read srv = on_read" "srv_unit_id srv \<in> {None, Some uid}" and "typed st" "sent_by_read req"
  shows "\<exists>resp. dispatch srv uid req st = (Inr resp, st) \<and> self_delimiting resp"
proof -
  obtain a s n where req: "area_request a s n = Inr req" using assms(4) by (auto simp: sent_by_read_def)
  show ?thesis
  proof (cases "\<forall>x \<in> {s..<s + n}. peek st a x \<noteq> None")
    case True
    with read_served [OF srv req assms(3)] show ?thesis using area_values_delimited by blast
  next
    case False
    obtain resp where resp: "encode_exception_response (uint (req ! 0)) (class_code IllegalDataAddress) = Inr resp"
      by (simp add: encode_exception_response_eq)
    have "srv_on_read srv a s n st = (Inl illegal_data_address, st)" using False srv(1) read_unmapped [of s n st a] by auto
    from dispatch_read_request [OF req srv(2) this] resp have "dispatch srv uid req st = (Inr resp, st)"
      by (simp add: mk_response_def)
    moreover have "128 \<le> uint (req ! 0) OR 128 \<and> uint (req ! 0) OR 128 \<le> 255"
      using exception_bit_or [of "uint (req ! 0)"] or_128_high [of "uint (req ! 0)"] uint_byte_bounds [of "req ! 0"]
      by (cases "uint (req ! 0) < 128") auto
    then have "128 \<le> uint (word_of_int (uint (req ! 0) OR 128) :: byte)"
      using uint_word_of_int_byte [of "uint (req ! 0) OR 128"] by simp
    then have "self_delimiting resp" using resp by (auto simp: encode_exception_response_eq simp del: uint_word_of_int)
    ultimately show ?thesis by blast
  qed
qed

lemma store_serves_reads:
  "srv_on_read srv = on_read \<Longrightarrow> srv_unit_id srv \<in> {None, Some uid} \<Longrightarrow> typed st \<Longrightarrow> serves_reads srv uid st"
  using read_delimited unfolding serves_reads_def by blast

end

section \<open>The gateway\<close>

text \<open>
  The transport of \<open>rtu_over_tcp.py\<close> on a gateway whose device answers every frame as the server does: the
  world is the transport with the state of the device.
\<close>

definition gateway_transport :: "'s server \<Rightarrow> (rot \<times> 's) transport" where
  "gateway_transport srv = \<lparr>tr_connect = (\<lambda>(r, st). let (out, r') = rot_connect (net_ok []) r in (out, (r', st))),
     tr_close = (\<lambda>(r, st). (Inr (), (rot_close r, st))), tr_is_connected = (\<lambda>(r, st). rt_connected r),
     tr_send_and_receive = (\<lambda>pdu uid timeout (r, st).
       let (resp, st') = dispatch srv uid pdu st;
           net = net_ok (case resp of Inr p \<Rightarrow> frame_of uid p | Inl e \<Rightarrow> []);
           (out, r') = rot_send_and_receive net pdu uid r
       in (out, (r', st')))\<rparr>"

definition gateway_good :: "'s server \<Rightarrow> int \<Rightarrow> 's \<Rightarrow> rot \<times> 's \<Rightarrow> bool" where
  "gateway_good srv uid st w \<longleftrightarrow>
     serves_reads srv uid st \<and> 0 \<le> uid \<and> uid \<le> 255 \<and> snd w = st \<and> rot_inv (fst w) \<and> \<not> rt_closed (fst w) \<and> unread (fst w) = []"

lemma gateway_exchange:
  assumes "sent_by_read req" "gateway_good srv uid st w"
  shows "\<exists>resp w'. tr_send_and_receive (gateway_transport srv) req uid timeout w = (Inr resp, w') \<and>
    gateway_good srv uid st w' \<and> fst (dispatch srv uid req st) = Inr resp"
proof -
  obtain r where w: "w = (r, st)" "rot_inv r" "\<not> rt_closed r" "unread r = []" and uid: "0 \<le> uid" "uid \<le> 255"
    using assms(2) by (cases w) (auto simp: gateway_good_def)
  obtain resp where resp: "dispatch srv uid req st = (Inr resp, st)" "self_delimiting resp"
    using assms unfolding gateway_good_def serves_reads_def by blast
  have ne: "req \<noteq> []" "resp \<noteq> []" using sent_by_read_length [OF assms(1)] resp(2) by auto
  have "encode_rtu_frame uid resp = Inr (frame_of uid resp)" using uid ne by (simp add: encode_frame_of)
  then obtain r' where r': "rot_send_and_receive (net_ok (frame_of uid resp)) req uid r = (Inr resp, r')" "unread r' = []"
    using rtu_over_tcp_answers [of r "net_ok (frame_of uid resp)" uid req resp] w uid ne resp(2) by auto
  have "\<not> rt_closed r'" using r'(1) w rot_send_closed [of "net_ok (frame_of uid resp)" req uid r] by simp
  moreover have "rot_inv r'" using rot_send_outcome [OF w(2), of "net_ok (frame_of uid resp)" req uid] r'(1)
    by (simp add: net_documented_def)
  ultimately show ?thesis using assms(2) w r' resp by (auto simp: gateway_transport_def gateway_good_def)
qed

interpretation gateway: reaching "gateway_transport srv" "gateway_good srv uid st" uid timeout "\<lambda>req. fst (dispatch srv uid req st)"
  for srv uid st timeout
proof
  fix req :: bytes and w resp e
  assume "sent_by_read req" "gateway_good srv uid st w"
  from gateway_exchange [OF this, of timeout] obtain resp' w' where
    out: "tr_send_and_receive (gateway_transport srv) req uid timeout w = (Inr resp', w')" "gateway_good srv uid st w'"
      "fst (dispatch srv uid req st) = Inr resp'" by blast
  from out show "gateway_good srv uid st (snd (tr_send_and_receive (gateway_transport srv) req uid timeout w))" by simp
  from out show "fst (tr_send_and_receive (gateway_transport srv) req uid timeout w) = Inr resp \<Longrightarrow> fst (dispatch srv uid req st) = Inr resp"
    by simp
  from out show "fst (tr_send_and_receive (gateway_transport srv) req uid timeout w) = Inl e \<Longrightarrow> is_modbus_error e" by simp
qed

end
