(* ===== verification/Simulator.thy ===== *)
theory Simulator
  imports Gateway
begin

text \<open>
  The simulator behind \<open>pymod serve\<close>: \<open>_SimState\<close> and the server that \<open>_run_serve\<close> builds, of
  \<open>src/pymod/cli.py\<close>.  A dictionary is a map.
\<close>

record sim_state =
  sim_holding :: "int \<rightharpoonup> pyval"
  sim_input :: "int \<rightharpoonup> pyval"
  sim_coil :: "int \<rightharpoonup> pyval"
  sim_discrete :: "int \<rightharpoonup> pyval"

definition sim_init :: sim_state where
  "sim_init = \<lparr>sim_holding = Map.empty, sim_input = Map.empty, sim_coil = Map.empty, sim_discrete = Map.empty\<rparr>"

text \<open>\<open>_store\<close> and the assignment to an entry of the dictionary it returns.\<close>

fun sim_store :: "sim_state \<Rightarrow> area \<Rightarrow> int \<rightharpoonup> pyval" where
  "sim_store st HOLDING_REGISTER = sim_holding st"
| "sim_store st INPUT_REGISTER = sim_input st"
| "sim_store st COIL = sim_coil st"
| "sim_store st DISCRETE_INPUT = sim_discrete st"

fun sim_set :: "area \<Rightarrow> int \<Rightarrow> pyval \<Rightarrow> sim_state \<Rightarrow> sim_state" where
  "sim_set HOLDING_REGISTER x v st = st\<lparr>sim_holding := (sim_holding st)(x \<mapsto> v)\<rparr>"
| "sim_set INPUT_REGISTER x v st = st\<lparr>sim_input := (sim_input st)(x \<mapsto> v)\<rparr>"
| "sim_set COIL x v st = st\<lparr>sim_coil := (sim_coil st)(x \<mapsto> v)\<rparr>"
| "sim_set DISCRETE_INPUT x v st = st\<lparr>sim_discrete := (sim_discrete st)(x \<mapsto> v)\<rparr>"

definition sim_read :: "area \<Rightarrow> int \<Rightarrow> int \<Rightarrow> (sim_state, pyval list) effect" where
  "sim_read area address count st =
     (mapE (\<lambda>i. let addr = address + i in
        case sim_store st area addr of None \<Rightarrow> Inl illegal_data_address | Some v \<Rightarrow> Inr v) (py_range count), st)"

definition sim_write :: "area \<Rightarrow> int \<Rightarrow> pyval list \<Rightarrow> (sim_state, unit) effect" where
  "sim_write area address values st =
     (Inr (), foldl (\<lambda>st (i, v). sim_set area (address + int i) v st) st (enumerate 0 values))"

text \<open>The server of \<open>_run_serve\<close>.\<close>

definition serve_server :: "bool \<Rightarrow> int option \<Rightarrow> int \<Rightarrow> sim_state server result" where
  "serve_server readonly unit_id max_connections =
     make_server sim_read (if readonly then None else Some sim_write) unit_id max_connections"

section \<open>The simulator is a host store\<close>

lemma sim_store_set: "sim_store (sim_set a x v st) b y = (if b = a \<and> y = x then Some v else sim_store st b y)"
  by (cases a; cases b) auto

lemma sim_store_write:
  "sim_store (foldl (\<lambda>st (i, v). sim_set a (s + int i) v st) st (enumerate k vs)) b x =
     (if b = a \<and> s + int k \<le> x \<and> x < s + int k + int (length vs) then Some (vs ! nat (x - s - int k)) else sim_store st b x)"
proof (induction vs arbitrary: st k)
  case (Cons v vs)
  have "(v # vs) ! nat (x - s - int k) = vs ! nat (x - s - int (Suc k))" if "s + int (Suc k) \<le> x"
  proof -
    have "nat (x - s - int k) = Suc (nat (x - s - int (Suc k)))" using that by simp
    then show ?thesis by simp
  qed
  with Cons show ?case by (auto simp: sim_store_set)
qed auto

lemma sim_read_eq:
  "sim_read a s n st =
     (if \<forall>x \<in> {s..<s + n}. sim_store st a x \<noteq> None then Inr (map (\<lambda>x. the (sim_store st a x)) [s..s + n - 1])
      else Inl illegal_data_address, st)"
proof (cases "\<forall>x \<in> {s..<s + n}. sim_store st a x \<noteq> None")
  case True
  have ups: "map ((+) s) (py_range n) = [s..s + n - 1]"
    by (rule nth_equalityI) (auto simp: py_range_def)
  have "mapE (\<lambda>i. let addr = s + i in case sim_store st a addr of None \<Rightarrow> Inl illegal_data_address | Some v \<Rightarrow> Inr v) (py_range n)
      = Inr (map (\<lambda>i. the (sim_store st a (s + i))) (py_range n))"
    using True by (intro mapE_Inr) (auto simp: set_py_range split: option.splits)
  also have "map (\<lambda>i. the (sim_store st a (s + i))) (py_range n) = map (\<lambda>x. the (sim_store st a x)) [s..s + n - 1]"
    unfolding ups [symmetric] by simp
  finally show ?thesis using True by (simp add: sim_read_def)
next
  case False
  let ?f = "\<lambda>i. let addr = s + i in case sim_store st a addr of None \<Rightarrow> Inl illegal_data_address | Some v \<Rightarrow> Inr v"
  from False obtain x where x: "s \<le> x" "x < s + n" "sim_store st a x = None" by auto
  have "mapE ?f (py_range n) \<noteq> Inr vs" for vs
  proof
    assume ok: "mapE ?f (py_range n) = Inr vs"
    have "x - s \<in> set (py_range n)" using x by (simp add: set_py_range)
    then obtain i where "i < length (py_range n)" "py_range n ! i = x - s" by (metis in_set_conv_nth)
    with mapE_eq_Inr_nth [OF ok, of i] x(3) show False by simp
  qed
  then obtain e where e: "mapE ?f (py_range n) = Inl e" by (cases "mapE ?f (py_range n)") auto
  with mapE_eq_Inl [OF e] have "e = illegal_data_address" by (auto split: option.splits)
  with e False show ?thesis by (auto simp: sim_read_def)
qed

interpretation sim: host_store sim_read sim_write sim_store
proof
  fix s n :: int and a :: area and st :: sim_state and vs
  show "\<forall>x \<in> {s..<s + n}. sim_store st a x \<noteq> None \<Longrightarrow>
      sim_read a s n st = (Inr (map (\<lambda>x. the (sim_store st a x)) [s..s + n - 1]), st)"
    by (simp add: sim_read_eq)
  show "\<exists>x \<in> {s..<s + n}. sim_store st a x = None \<Longrightarrow> sim_read a s n st = (Inl illegal_data_address, st)"
    by (auto simp: sim_read_eq)
  show "\<exists>st'. sim_write a s vs st = (Inr (), st') \<and> (\<forall>b x. sim_store st' b x =
      (if b = a \<and> s \<le> x \<and> x < s + int (length vs) then Some (vs ! nat (x - s)) else sim_store st b x))"
    by (simp add: sim_write_def sim_store_write)
qed

end
