(* ===== verification/Cli.thy ===== *)
theory Cli
  imports Py_Text Simulator Client
begin

text \<open>
  The command line of \<open>src/pymod/cli.py\<close> from the parsed arguments on: building the items of a read or
  write, the choice of the client, the commands with their exit codes, the text and values they
  print, and the initial state of the simulator.  \<open>argparse\<close> guarantees the choices, so an area, type
  or order is a value of its type.  Python's float parsing and printing are parameters; an error
  message is left out, the exception that carries it is not.
\<close>

section \<open>Arguments\<close>

record cli_args =
  ar_area :: area
  ar_start :: int
  ar_count :: int
  ar_dtype :: dtype
  ar_word_order :: order
  ar_byte_order :: order
  ar_bit_index :: "int option"
  ar_bit_indices :: "string option"
  ar_bit_numbering :: bit_numbering
  ar_values :: string
  ar_json :: bool

section \<open>Items\<close>

definition int_auto :: "string \<Rightarrow> int result" where
  "int_auto s = int_base0 s"

text \<open>\<open>except ValueError as e: raise SystemExit(...)\<close>.\<close>

definition or_exit :: "'a result \<Rightarrow> 'a result" where
  "or_exit r = (case r of Inl e \<Rightarrow> Inl (if e = ValueError then SystemExit else e) | Inr x \<Rightarrow> Inr x)"

definition build_read_item :: "cli_args \<Rightarrow> read_item result" where
  "build_read_item args =
     (if ar_area args = COIL then Inr (Coil (ar_start args) (ar_count args))
      else if ar_area args = DISCRETE_INPUT then Inr (Discrete (ar_start args) (ar_count args))
      else
        let cls = (if ar_area args = HOLDING_REGISTER then Holding else Input);
            bit_fields =
              (if ar_dtype args = Bit then
                 (case ar_bit_index args of None \<Rightarrow> Inl SystemExit | Some i \<Rightarrow> Inr (Some i, None))
               else if ar_dtype args = Bits then
                 (case ar_bit_indices args of
                    None \<Rightarrow> Inl SystemExit
                  | Some s \<Rightarrow>
                      if s = [] then Inl SystemExit
                      else bindE (or_exit (mapE (\<lambda>s. int_base0 (py_strip s)) (py_split CHR '','' s)))
                             (\<lambda>is. Inr (None, Some is)))
               else Inr (None, None))
        in bindE bit_fields (\<lambda>(bit_index, bit_indices).
             Inr (cls \<lparr>ri_start = ar_start args, ri_count = ar_count args, ri_dtype = ar_dtype args,
               ri_word_order = ar_word_order args, ri_byte_order = ar_byte_order args, ri_bit_index = bit_index,
               ri_bit_indices = bit_indices, ri_bit_numbering = ar_bit_numbering args\<rparr>)))"

definition parse_bool :: "string \<Rightarrow> bool result" where
  "parse_bool s =
     (let s = py_lower s in
      if s \<in> {''true'', ''1'', ''on'', ''yes''} then Inr True
      else if s \<in> {''false'', ''0'', ''off'', ''no''} then Inr False
      else Inl SystemExit)"

definition build_write_item :: "(string \<Rightarrow> pyfloat result) \<Rightarrow> cli_args \<Rightarrow> write_item result" where
  "build_write_item float_of_str args =
     (let raw_values = map py_strip (filter (\<lambda>s. py_strip s \<noteq> []) (py_split CHR '','' (ar_values args)))
      in if raw_values = [] then Inl SystemExit
         else if ar_area args = COIL then
           bindE (mapE parse_bool raw_values) (\<lambda>bools. Inr (WriteCoils (ar_start args) bools))
         else
           bindE (or_exit (if ar_dtype args = Float32 then mapE (\<lambda>s. bindE (float_of_str s) (\<lambda>f. Inr (PFloat f))) raw_values
                           else mapE (\<lambda>s. bindE (int_base0 s) (\<lambda>i. Inr (PInt i))) raw_values)) (\<lambda>values.
             Inr (WriteHolding \<lparr>wh_start = ar_start args, wh_values = values, wh_dtype = ar_dtype args,
               wh_word_order = ar_word_order args, wh_byte_order = ar_byte_order args\<rparr>)))"

section \<open>The client\<close>

datatype client_choice =
    RtuClient string retry_policy
  | RtuOverTcpClient string retry_policy
  | TcpClient string retry_policy

text \<open>\<open>if args.rtu\<close> is false for \<open>None\<close> and for the empty string.\<close>

fun truthy :: "string option \<Rightarrow> bool" where
  "truthy None = False"
| "truthy (Some s) = (s \<noteq> [])"

definition choose_client :: "string option \<Rightarrow> string option \<Rightarrow> bool \<Rightarrow> int \<Rightarrow> client_choice result" where
  "choose_client rtu host rtu_over_tcp retry_count =
     (let retry = default_retry\<lparr>max_attempts := max 1 (retry_count + 1)\<rparr>
      in if truthy rtu then Inr (RtuClient (the rtu) retry)
         else if \<not> truthy host then Inl SystemExit
         else if rtu_over_tcp then Inr (RtuOverTcpClient (the host) retry)
         else Inr (TcpClient (the host) retry))"

text \<open>\<open>async with client\<close>: connect, run, and close whether or not the body raised.\<close>

definition with_client :: "'w client \<Rightarrow> ('w, 'a) effect \<Rightarrow> ('w, 'a) effect" where
  "with_client cl body =
     bindS (connect cl) (\<lambda>_ w.
       let (r, w1) = body w
       in case close cl w1 of (Inl e, w2) \<Rightarrow> (Inl e, w2) | (Inr _, w2) \<Rightarrow> (r, w2))"

section \<open>Output\<close>

text \<open>
  What a command prints: lines of text, or a JSON object, or an error, which is a line of text on
  standard error or the JSON object with \<open>ok\<close> false, as the first argument says.
\<close>

datatype cli_output =
    OutLines "string list"
  | OutValues "pyval list"                 \<comment> \<open>\<open>{"ok": true, "values": ...}\<close>\<close>
  | OutOk                                  \<comment> \<open>\<open>{"ok": true}\<close>\<close>
  | OutResponsive "py_exn option"          \<comment> \<open>\<open>{"ok": true, "responsive": true, "exception": ...}\<close>\<close>
  | OutAlive "py_exn option"               \<comment> \<open>\<open>alive\<close>, with the class of the exception\<close>
  | OutError bool "py_exn option"          \<comment> \<open>\<open>None\<close> is printed as \<open>unknown\<close>\<close>

definition format_value :: "(pyfloat \<Rightarrow> string) \<Rightarrow> nat \<Rightarrow> pyval \<Rightarrow> dtype option \<Rightarrow> string" where
  "format_value float_repr index value dtype =
     ''['' @ py_str_int (int index) @ '']: '' @
     (case value of
        PBool b \<Rightarrow> if b then ''True'' else ''False''
      | PInt v \<Rightarrow>
          let (mask, width) =
            (if dtype \<in> {Some Int64, Some UInt64} then (0xFFFFFFFFFFFFFFFF, 16)
             else if dtype \<in> {Some Int32, Some UInt32} then (0xFFFFFFFF, 8)
             else (0xFFFF, 4))
          in ''0x'' @ py_hex width (v AND mask) @ '' ('' @ py_str_int v @ '')''
      | PFloat f \<Rightarrow> float_repr f)"

definition item_dtype :: "read_item \<Rightarrow> dtype option" where
  "item_dtype item = map_option ri_dtype (reg_fields item)"

definition emit_read_result :: "(pyfloat \<Rightarrow> string) \<Rightarrow> read_result \<Rightarrow> bool \<Rightarrow> cli_output \<times> int" where
  "emit_read_result float_repr result json_mode =
     (if rr_ok result then
        (if json_mode then (OutValues (rr_values result), 0)
         else (OutLines (map (\<lambda>(i, v). format_value float_repr i v (item_dtype (rr_item result)))
                 (enumerate 0 (rr_values result))), 0))
      else (OutError json_mode (rr_error result), 1))"

definition emit_write_result :: "write_result \<Rightarrow> bool \<Rightarrow> cli_output \<times> int" where
  "emit_write_result result json_mode =
     (if wr_ok result then (if json_mode then OutOk else OutLines [''ok''], 0)
      else (OutError json_mode (wr_error result), 1))"

text \<open>The \<open>except\<close> clauses of the commands, with \<open>_emit_failure\<close>; other exceptions are not caught.\<close>

definition guarded :: "bool \<Rightarrow> 'a result \<Rightarrow> ('a \<Rightarrow> (cli_output \<times> int) result) \<Rightarrow> (cli_output \<times> int) result" where
  "guarded json_mode r emit =
     (case r of
        Inr x \<Rightarrow> emit x
      | Inl e \<Rightarrow>
          if isinstance_exn e C_ModbusConnectionError then Inr (OutError json_mode (Some e), 2)
          else if isinstance_exn e C_ModbusError then Inr (OutError json_mode (Some e), 1)
          else Inl e)"

section \<open>Commands\<close>

text \<open>
  \<open>_run_read\<close> and \<open>_run_write\<close>; \<open>worlds\<close>, \<open>completion\<close> and \<open>after\<close> describe the batch as for the client.
\<close>

definition run_read ::
  "(pyfloat \<Rightarrow> string) \<Rightarrow> (rat \<Rightarrow> 'w \<Rightarrow> 'w) \<Rightarrow> cli_args \<Rightarrow> 'w client result \<Rightarrow> (nat \<Rightarrow> 'w) \<Rightarrow> nat list \<Rightarrow> 'w \<Rightarrow> 'w \<Rightarrow>
   (cli_output \<times> int) result" where
  "run_read float_repr sleep args client worlds completion after w =
     bindE (build_read_item args) (\<lambda>item.
     bindE client (\<lambda>cl.
       guarded (ar_json args) (fst (with_client cl (\<lambda>_. (client_read sleep cl [item] None None None worlds completion, after)) w))
         (\<lambda>results. bindE (py_index results 0) (\<lambda>r. Inr (emit_read_result float_repr r (ar_json args))))))"

definition run_write ::
  "(string \<Rightarrow> pyfloat result) \<Rightarrow> (rat \<Rightarrow> 'w \<Rightarrow> 'w) \<Rightarrow> cli_args \<Rightarrow> 'w client result \<Rightarrow> (nat \<Rightarrow> 'w) \<Rightarrow> nat list \<Rightarrow> 'w \<Rightarrow> 'w \<Rightarrow>
   (cli_output \<times> int) result" where
  "run_write float_of_str sleep args client worlds completion after w =
     bindE (build_write_item float_of_str args) (\<lambda>item.
     bindE client (\<lambda>cl.
       guarded (ar_json args) (fst (with_client cl (\<lambda>_. (client_write sleep cl [item] None None None worlds completion, after)) w))
         (\<lambda>results. bindE (py_index results 0) (\<lambda>r. Inr (emit_write_result r (ar_json args))))))"

text \<open>\<open>_run_scan\<close>: any response to a read of one register shows that the device is alive.\<close>

definition run_scan :: "(rat \<Rightarrow> 'w \<Rightarrow> 'w) \<Rightarrow> cli_args \<Rightarrow> 'w client result \<Rightarrow> 'w \<Rightarrow> (cli_output \<times> int) result" where
  "run_scan sleep args client w =
     bindE client (\<lambda>cl.
       guarded (ar_json args) (fst (with_client cl
           (bindS (pureS (encode_read_holding_registers (ar_start args) 1)) (\<lambda>req. execute sleep cl req None None None)) w))
         (\<lambda>response_pdu.
           bindE (detect_exception response_pdu FC_READ_HOLDING_REGISTERS) (\<lambda>exc.
             Inr (if ar_json args then OutResponsive exc else OutAlive exc, 0))))"

section \<open>The simulator's initial state\<close>

text \<open>The loop of \<open>_parse_int_map\<close> and \<open>_parse_bool_map\<close> over the pieces, with the parser of the values.\<close>

fun parse_pieces :: "(string \<Rightarrow> pyval result) \<Rightarrow> string list \<Rightarrow> (int \<rightharpoonup> pyval) \<Rightarrow> (int \<rightharpoonup> pyval) result" where
  "parse_pieces parse [] out = Inr out"
| "parse_pieces parse (piece # pieces) out =
     (let piece = py_strip piece in
      if piece = [] then parse_pieces parse pieces out
      else if CHR ''='' \<notin> set piece then Inl SystemExit
      else let (addr_s, val_s) = py_partition CHR ''='' piece in
        bindE (parse (py_strip val_s)) (\<lambda>v.
        bindE (int_base0 (py_strip addr_s)) (\<lambda>addr. parse_pieces parse pieces (out(addr \<mapsto> v)))))"

definition parse_int_map :: "string \<Rightarrow> (int \<rightharpoonup> pyval) result" where
  "parse_int_map spec =
     (if py_strip spec = [] then Inr Map.empty
      else parse_pieces (\<lambda>s. bindE (int_base0 s) (\<lambda>i. Inr (PInt i))) (py_split CHR '','' spec) Map.empty)"

definition parse_bool_map :: "string \<Rightarrow> (int \<rightharpoonup> pyval) result" where
  "parse_bool_map spec =
     (if py_strip spec = [] then Inr Map.empty
      else parse_pieces (\<lambda>s. bindE (parse_bool s) (\<lambda>b. Inr (PBool b))) (py_split CHR '','' spec) Map.empty)"

text \<open>A value that \<open>json.load\<close> returns; a number with a fraction or exponent is a float.\<close>

datatype json =
    JNull
  | JBool bool
  | JInt int
  | JFloat pyfloat
  | JString string
  | JList "json list"
  | JObject "(string \<times> json) list"

text \<open>The body of the two loops over the sections, with the test of the values: a bool is an int.\<close>

fun json_int :: "json \<Rightarrow> pyval result" where
  "json_int (JInt i) = Inr (PInt i)"
| "json_int (JBool b) = Inr (PBool b)"
| "json_int _ = Inl SystemExit"

fun json_bool :: "json \<Rightarrow> pyval result" where
  "json_bool (JBool b) = Inr (PBool b)"
| "json_bool _ = Inl SystemExit"

fun load_entries :: "(json \<Rightarrow> pyval result) \<Rightarrow> (string \<times> json) list \<Rightarrow> (int \<rightharpoonup> pyval) \<Rightarrow> (int \<rightharpoonup> pyval) result" where
  "load_entries conv [] store = Inr store"
| "load_entries conv ((k, v) # entries) store =
     bindE (conv v) (\<lambda>x. bindE (int_base0 k) (\<lambda>addr. load_entries conv entries (store(addr \<mapsto> x))))"

definition load_section ::
  "(json \<Rightarrow> pyval result) \<Rightarrow> (string \<times> json) list \<Rightarrow> string \<Rightarrow> (int \<rightharpoonup> pyval) \<Rightarrow> (int \<rightharpoonup> pyval) result" where
  "load_section conv data key store =
     (case map_of data key of
        None \<Rightarrow> Inr store
      | Some (JObject entries) \<Rightarrow> load_entries conv entries store
      | Some _ \<Rightarrow> Inl SystemExit)"

definition load_config_into_state :: "sim_state \<Rightarrow> json \<Rightarrow> sim_state result" where
  "load_config_into_state st data =
     (case data of
        JObject sections \<Rightarrow>
          bindE (load_section json_int sections ''holding'' (sim_holding st)) (\<lambda>h.
          bindE (load_section json_int sections ''input'' (sim_input st)) (\<lambda>i.
          bindE (load_section json_bool sections ''coil'' (sim_coil st)) (\<lambda>c.
          bindE (load_section json_bool sections ''discrete'' (sim_discrete st)) (\<lambda>d.
            Inr \<lparr>sim_holding = h, sim_input = i, sim_coil = c, sim_discrete = d\<rparr>))))
      | _ \<Rightarrow> Inl SystemExit)"

definition build_sim_state :: "json option \<Rightarrow> string \<Rightarrow> string \<Rightarrow> string \<Rightarrow> string \<Rightarrow> sim_state result" where
  "build_sim_state config holding input coil discrete =
     bindE (case config of None \<Rightarrow> Inr sim_init | Some data \<Rightarrow> load_config_into_state sim_init data) (\<lambda>st.
     bindE (parse_int_map holding) (\<lambda>h.
     bindE (parse_int_map input) (\<lambda>i.
     bindE (parse_bool_map coil) (\<lambda>c.
     bindE (parse_bool_map discrete) (\<lambda>d.
       Inr \<lparr>sim_holding = sim_holding st ++ h, sim_input = sim_input st ++ i, sim_coil = sim_coil st ++ c,
            sim_discrete = sim_discrete st ++ d\<rparr>)))))"

end
