(* ===== verification/Cli_Options.thy ===== *)
theory Cli_Options
  imports Cli
begin

text \<open>
  The options of the command line: the choices, the namespaces of the subcommands, the part of
  \<open>argparse\<close> that \<open>_build_parser\<close> of \<open>src/pymod/cli.py\<close> uses, and \<open>main\<close> with its dispatch.  The words of the
  model are whole: the spelling \<open>--option=value\<close> and abbreviated options, which \<open>argparse\<close> accepts too, are
  refused here.  A refused command line is \<open>SystemExit\<close>.
\<close>

section \<open>Choices\<close>

definition AREA_CHOICES_READ :: "(string \<times> area) list" where
  "AREA_CHOICES_READ =
     [(''holding'', HOLDING_REGISTER), (''input'', INPUT_REGISTER), (''coil'', COIL), (''discrete'', DISCRETE_INPUT)]"

definition AREA_CHOICES_WRITE :: "(string \<times> area) list" where
  "AREA_CHOICES_WRITE = [(''holding'', HOLDING_REGISTER), (''coil'', COIL)]"

definition DTYPE_CHOICES_WRITE :: "(string \<times> dtype) list" where
  "DTYPE_CHOICES_WRITE =
     [(''int16'', Int16), (''uint16'', UInt16), (''int32'', Int32), (''uint32'', UInt32), (''float32'', Float32),
      (''int64'', Int64), (''uint64'', UInt64), (''float64'', Float64)]"

definition DTYPE_CHOICES_READ :: "(string \<times> dtype) list" where
  "DTYPE_CHOICES_READ = DTYPE_CHOICES_WRITE @ [(''bit'', Bit), (''bits'', Bits)]"

definition ORDER_CHOICES :: "(string \<times> order) list" where
  "ORDER_CHOICES = [(''big'', Big), (''little'', Little)]"

definition NUMBERING_CHOICES :: "(string \<times> bit_numbering) list" where
  "NUMBERING_CHOICES = [(''lsb_first'', LsbFirst), (''msb_first'', MsbFirst)]"

definition PARITY_CHOICES :: "(string \<times> string) list" where
  "PARITY_CHOICES = [(''N'', ''N''), (''E'', ''E''), (''O'', ''O'')]"

section \<open>Namespaces\<close>

record conn_args =
  ca_host :: "string option"
  ca_port :: int
  ca_rtu :: "string option"
  ca_baudrate :: int
  ca_bytesize :: int
  ca_parity :: string
  ca_stopbits :: pyval
  ca_rtu_over_tcp :: bool
  ca_unit_id :: int
  ca_timeout_s :: pyfloat
  ca_retries :: int

record read_args =
  ra_area :: area
  ra_start :: int
  ra_count :: int
  ra_dtype :: dtype
  ra_word_order :: order
  ra_byte_order :: order
  ra_bit_index :: "int option"
  ra_bit_indices :: "string option"
  ra_bit_numbering :: bit_numbering
  ra_json :: bool

record write_args =
  wa_area :: area
  wa_start :: int
  wa_values :: string
  wa_dtype :: dtype
  wa_word_order :: order
  wa_byte_order :: order
  wa_json :: bool

record scan_args =
  sa_start :: int
  sa_json :: bool

record serve_args =
  sv_host :: string
  sv_port :: int
  sv_unit_id :: "int option"
  sv_max_connections :: int
  sv_readonly :: bool
  sv_config :: "string option"
  sv_holding :: string
  sv_input :: string
  sv_coil :: string
  sv_discrete :: string

text \<open>The namespace of a subcommand; an attribute of another subcommand is not set.\<close>

datatype command =
    ReadCmd conn_args read_args
  | WriteCmd conn_args write_args
  | ScanCmd conn_args scan_args
  | ServeCmd serve_args

section \<open>Words\<close>

text \<open>
  The words that take a value and the flags of a subcommand, and the words that can be a value: those
  without a dash, a single dash, a negative number, or a word with a space that cannot be an option.
\<close>

definition TRANSPORT_OPTIONS :: "(string \<times> bool) list" where
  "TRANSPORT_OPTIONS =
     [(''--host'', True), (''--port'', True), (''--rtu'', True), (''--baudrate'', True), (''--bytesize'', True),
      (''--parity'', True), (''--stopbits'', True), (''--rtu-over-tcp'', False)]"

definition CALL_OPTIONS :: "(string \<times> bool) list" where
  "CALL_OPTIONS = [(''--unit-id'', True), (''--timeout'', True), (''--retries'', True)]"

definition READ_OPTIONS :: "(string \<times> bool) list" where
  "READ_OPTIONS = TRANSPORT_OPTIONS @ CALL_OPTIONS @
     [(''--area'', True), (''--start'', True), (''--count'', True), (''--dtype'', True), (''--word-order'', True),
      (''--byte-order'', True), (''--bit-index'', True), (''--bit-indices'', True), (''--bit-numbering'', True),
      (''--json'', False)]"

definition WRITE_OPTIONS :: "(string \<times> bool) list" where
  "WRITE_OPTIONS = TRANSPORT_OPTIONS @ CALL_OPTIONS @
     [(''--area'', True), (''--start'', True), (''--values'', True), (''--dtype'', True), (''--word-order'', True),
      (''--byte-order'', True), (''--json'', False)]"

definition SCAN_OPTIONS :: "(string \<times> bool) list" where
  "SCAN_OPTIONS = TRANSPORT_OPTIONS @ CALL_OPTIONS @ [(''--start'', True), (''--json'', False)]"

definition SERVE_OPTIONS :: "(string \<times> bool) list" where
  "SERVE_OPTIONS =
     [(''--host'', True), (''--port'', True), (''--unit-id'', True), (''--max-connections'', True),
      (''--readonly'', False), (''--config'', True), (''--holding'', True), (''--input'', True), (''--coil'', True),
      (''--discrete'', True)]"

definition negative_number :: "string \<Rightarrow> bool" where
  "negative_number s =
     (case s of
        [] \<Rightarrow> False
      | c # cs \<Rightarrow> c = CHR ''-'' \<and>
          (let ds = takeWhile is_digit cs; rest = dropWhile is_digit cs in
             ds \<noteq> [] \<and> rest = [] \<or> rest \<noteq> [] \<and> hd rest = CHR ''.'' \<and> tl rest \<noteq> [] \<and> list_all is_digit (tl rest)))"

definition is_value :: "string \<Rightarrow> bool" where
  "is_value s \<longleftrightarrow> s = [] \<or> hd s \<noteq> CHR ''-'' \<or> s = ''-'' \<or> negative_number s \<or>
     CHR '' '' \<in> set s \<and> CHR ''='' \<notin> set s \<and> s ! 1 \<noteq> CHR ''h''"

text \<open>The last occurrence of an option counts; a flag is stored with an empty text.\<close>

fun parse_words :: "(string \<rightharpoonup> bool) \<Rightarrow> string list \<Rightarrow> (string \<rightharpoonup> string) \<Rightarrow> (string \<rightharpoonup> string) result" where
  "parse_words kind [] m = Inr m"
| "parse_words kind (word # words) m =
     (case kind word of
        None \<Rightarrow> Inl SystemExit
      | Some False \<Rightarrow> parse_words kind words (m(word \<mapsto> ''''))
      | Some True \<Rightarrow>
          (case words of
             [] \<Rightarrow> Inl SystemExit
           | v # words \<Rightarrow> if is_value v then parse_words kind words (m(word \<mapsto> v)) else Inl SystemExit))"

section \<open>Arguments\<close>

text \<open>The \<open>type\<close> of an argument: what it raises on a bad text is an error of the parser.\<close>

definition arg :: "(string \<rightharpoonup> string) \<Rightarrow> string \<Rightarrow> (string \<Rightarrow> 'a result) \<Rightarrow> 'a result \<Rightarrow> 'a result" where
  "arg m name conv dflt =
     (case m name of
        None \<Rightarrow> dflt
      | Some s \<Rightarrow> (case conv s of Inl e \<Rightarrow> Inl SystemExit | Inr v \<Rightarrow> Inr v))"

definition choice :: "(string \<times> 'a) list \<Rightarrow> string \<Rightarrow> 'a result" where
  "choice choices s = (case map_of choices s of None \<Rightarrow> Inl SystemExit | Some v \<Rightarrow> Inr v)"

text \<open>A required argument, and a float as a value of a namespace.\<close>

definition required :: "'a result" where
  "required = Inl SystemExit"

definition float_value :: "(string \<Rightarrow> pyfloat result) \<Rightarrow> string \<Rightarrow> pyval result" where
  "float_value float_of_str s = bindE (float_of_str s) (\<lambda>f. Inr (PFloat f))"

text \<open>The float \<open>0.5\<close>.\<close>

definition HALF :: pyfloat where
  "HALF = 0x3FE0000000000000"

definition add_transport_and_call_args ::
  "(string \<Rightarrow> pyfloat result) \<Rightarrow> (string \<rightharpoonup> string) \<Rightarrow> conn_args result" where
  "add_transport_and_call_args float_of_str m =
     bindE (arg m ''--host'' (\<lambda>s. Inr (Some s)) (Inr None)) (\<lambda>host.
     bindE (arg m ''--port'' int_base10 (Inr 502)) (\<lambda>port.
     bindE (arg m ''--rtu'' (\<lambda>s. Inr (Some s)) (Inr None)) (\<lambda>rtu.
     bindE (arg m ''--baudrate'' int_base10 (Inr 9600)) (\<lambda>baudrate.
     bindE (arg m ''--bytesize'' int_base10 (Inr 8)) (\<lambda>bytesize.
     bindE (arg m ''--parity'' (choice PARITY_CHOICES) (Inr ''N'')) (\<lambda>parity.
     bindE (arg m ''--stopbits'' (float_value float_of_str) (Inr (PInt 1))) (\<lambda>stopbits.
     bindE (arg m ''--unit-id'' int_base10 (Inr 1)) (\<lambda>unit_id.
     bindE (arg m ''--timeout'' float_of_str (Inr HALF)) (\<lambda>timeout_s.
     bindE (arg m ''--retries'' int_base10 (Inr 1)) (\<lambda>retry_count.
       Inr \<lparr>ca_host = host, ca_port = port, ca_rtu = rtu, ca_baudrate = baudrate, ca_bytesize = bytesize,
         ca_parity = parity, ca_stopbits = stopbits, ca_rtu_over_tcp = (m ''--rtu-over-tcp'' \<noteq> None),
         ca_unit_id = unit_id, ca_timeout_s = timeout_s, ca_retries = retry_count\<rparr>))))))))))"

definition read_parser :: "(string \<rightharpoonup> string) \<Rightarrow> read_args result" where
  "read_parser m =
     bindE (arg m ''--area'' (choice AREA_CHOICES_READ) required) (\<lambda>area.
     bindE (arg m ''--start'' int_auto required) (\<lambda>start.
     bindE (arg m ''--count'' int_base10 required) (\<lambda>count.
     bindE (arg m ''--dtype'' (choice DTYPE_CHOICES_READ) (Inr UInt16)) (\<lambda>dtype.
     bindE (arg m ''--word-order'' (choice ORDER_CHOICES) (Inr Big)) (\<lambda>word_order.
     bindE (arg m ''--byte-order'' (choice ORDER_CHOICES) (Inr Big)) (\<lambda>byte_order.
     bindE (arg m ''--bit-index'' (\<lambda>s. bindE (int_base10 s) (\<lambda>i. Inr (Some i))) (Inr None)) (\<lambda>bit_index.
     bindE (arg m ''--bit-indices'' (\<lambda>s. Inr (Some s)) (Inr None)) (\<lambda>bit_indices.
     bindE (arg m ''--bit-numbering'' (choice NUMBERING_CHOICES) (Inr LsbFirst)) (\<lambda>bit_numbering.
       Inr \<lparr>ra_area = area, ra_start = start, ra_count = count, ra_dtype = dtype, ra_word_order = word_order,
         ra_byte_order = byte_order, ra_bit_index = bit_index, ra_bit_indices = bit_indices,
         ra_bit_numbering = bit_numbering, ra_json = (m ''--json'' \<noteq> None)\<rparr>)))))))))"

definition write_parser :: "(string \<rightharpoonup> string) \<Rightarrow> write_args result" where
  "write_parser m =
     bindE (arg m ''--area'' (choice AREA_CHOICES_WRITE) required) (\<lambda>area.
     bindE (arg m ''--start'' int_auto required) (\<lambda>start.
     bindE (arg m ''--values'' Inr required) (\<lambda>values.
     bindE (arg m ''--dtype'' (choice DTYPE_CHOICES_WRITE) (Inr UInt16)) (\<lambda>dtype.
     bindE (arg m ''--word-order'' (choice ORDER_CHOICES) (Inr Big)) (\<lambda>word_order.
     bindE (arg m ''--byte-order'' (choice ORDER_CHOICES) (Inr Big)) (\<lambda>byte_order.
       Inr \<lparr>wa_area = area, wa_start = start, wa_values = values, wa_dtype = dtype, wa_word_order = word_order,
         wa_byte_order = byte_order, wa_json = (m ''--json'' \<noteq> None)\<rparr>))))))"

definition scan_parser :: "(string \<rightharpoonup> string) \<Rightarrow> scan_args result" where
  "scan_parser m =
     bindE (arg m ''--start'' int_auto (Inr 0)) (\<lambda>start.
       Inr \<lparr>sa_start = start, sa_json = (m ''--json'' \<noteq> None)\<rparr>)"

definition serve_parser :: "(string \<rightharpoonup> string) \<Rightarrow> serve_args result" where
  "serve_parser m =
     bindE (arg m ''--host'' Inr (Inr ''0.0.0.0'')) (\<lambda>host.
     bindE (arg m ''--port'' int_base10 (Inr 502)) (\<lambda>port.
     bindE (arg m ''--unit-id'' (\<lambda>s. bindE (int_base10 s) (\<lambda>i. Inr (Some i))) (Inr None)) (\<lambda>unit_id.
     bindE (arg m ''--max-connections'' int_base10 (Inr 32)) (\<lambda>max_connections.
     bindE (arg m ''--config'' (\<lambda>s. Inr (Some s)) (Inr None)) (\<lambda>config.
     bindE (arg m ''--holding'' Inr (Inr '''')) (\<lambda>holding.
     bindE (arg m ''--input'' Inr (Inr '''')) (\<lambda>input.
     bindE (arg m ''--coil'' Inr (Inr '''')) (\<lambda>coil.
     bindE (arg m ''--discrete'' Inr (Inr '''')) (\<lambda>discrete.
       Inr \<lparr>sv_host = host, sv_port = port, sv_unit_id = unit_id, sv_max_connections = max_connections,
         sv_readonly = (m ''--readonly'' \<noteq> None), sv_config = config, sv_holding = holding, sv_input = input,
         sv_coil = coil, sv_discrete = discrete\<rparr>)))))))))"

text \<open>A subcommand with its words.\<close>

definition parse_command :: "(string \<Rightarrow> pyfloat result) \<Rightarrow> string list \<Rightarrow> command result" where
  "parse_command float_of_str words =
     (case words of
        [] \<Rightarrow> Inl SystemExit
      | sub # words \<Rightarrow>
          if sub = ''read'' then
            bindE (parse_words (map_of READ_OPTIONS) words Map.empty) (\<lambda>m.
            bindE (add_transport_and_call_args float_of_str m) (\<lambda>ca. bindE (read_parser m) (\<lambda>ra. Inr (ReadCmd ca ra))))
          else if sub = ''write'' then
            bindE (parse_words (map_of WRITE_OPTIONS) words Map.empty) (\<lambda>m.
            bindE (add_transport_and_call_args float_of_str m) (\<lambda>ca. bindE (write_parser m) (\<lambda>wa. Inr (WriteCmd ca wa))))
          else if sub = ''scan'' then
            bindE (parse_words (map_of SCAN_OPTIONS) words Map.empty) (\<lambda>m.
            bindE (add_transport_and_call_args float_of_str m) (\<lambda>ca. bindE (scan_parser m) (\<lambda>sa. Inr (ScanCmd ca sa))))
          else if sub = ''serve'' then
            bindE (parse_words (map_of SERVE_OPTIONS) words Map.empty) (\<lambda>m.
            bindE (serve_parser m) (\<lambda>sv. Inr (ServeCmd sv)))
          else Inl SystemExit)"

text \<open>The whole command line: \<open>--guide\<close>, if given, and the subcommand, if there is one.\<close>

fun parse_args :: "(string \<Rightarrow> pyfloat result) \<Rightarrow> string list \<Rightarrow> (bool \<times> command option) result" where
  "parse_args float_of_str [] = Inr (False, None)"
| "parse_args float_of_str (word # words) =
     (if word = ''--guide'' then bindE (parse_args float_of_str words) (\<lambda>(_, cmd). Inr (True, cmd))
      else if word = ''--verbose'' \<or> word = ''-v'' then parse_args float_of_str words
      else bindE (parse_command float_of_str (word # words)) (\<lambda>cmd. Inr (False, Some cmd)))"

end
