(* ===== verification/Guide.thy ===== *)
theory Guide
  imports Cli_Options Effects
begin

text \<open>
  The interactive wizard of \<open>src/pymod/_guide.py\<close>.  The user is a list of what \<open>input\<close> meets, a line or
  Ctrl-C, with the end of input behind it; a prompt loops by taking the next line.  The texts of the
  prompts and messages are left out, the command line that the wizard shows at the end is not.
\<close>

section \<open>Prompts\<close>

datatype user_event = Line string | CtrlC

type_synonym 'a wizard = "(user_event list, 'a) effect"

text \<open>
  The loop that every prompt runs: the answer of a line, or \<open>None\<close> for a message and another round.
\<close>

fun prompt :: "(string \<Rightarrow> 'a option) \<Rightarrow> 'a wizard" where
  "prompt answer [] = (Inl EOFError, [])"
| "prompt answer (CtrlC # evs) = (Inl KeyboardInterrupt, evs)"
| "prompt answer (Line s # evs) =
     (case answer (py_strip s) of Some a \<Rightarrow> (Inr a, evs) | None \<Rightarrow> prompt answer evs)"

definition answer_text :: "string option \<Rightarrow> string \<Rightarrow> string option" where
  "answer_text dflt raw = (if raw \<noteq> [] then Some raw else dflt)"

definition ask :: "string option \<Rightarrow> string wizard" where
  "ask dflt = prompt (answer_text dflt)"

text \<open>\<open>_ask_int\<close> and \<open>_ask_float\<close> ask for a text until it is a number that they accept.\<close>

definition ask_int :: "int option \<Rightarrow> int option \<Rightarrow> int wizard" where
  "ask_int dflt minimum =
     prompt (\<lambda>raw. case answer_text (map_option py_str_int dflt) raw of
         None \<Rightarrow> None
       | Some s \<Rightarrow>
           (case int_base0 s of
              Inl e \<Rightarrow> None
            | Inr v \<Rightarrow> (case minimum of Some m \<Rightarrow> if v < m then None else Some v | None \<Rightarrow> Some v)))"

definition ask_float :: "(string \<Rightarrow> pyfloat result) \<Rightarrow> (pyfloat \<Rightarrow> string) \<Rightarrow> pyfloat option \<Rightarrow> pyfloat wizard" where
  "ask_float float_of_str float_repr dflt =
     prompt (\<lambda>raw. case answer_text (map_option float_repr dflt) raw of
         None \<Rightarrow> None
       | Some s \<Rightarrow> (case float_of_str s of Inl e \<Rightarrow> None | Inr v \<Rightarrow> Some v))"

definition ask_yes_no :: "bool \<Rightarrow> bool wizard" where
  "ask_yes_no dflt =
     prompt (\<lambda>raw. let raw = py_lower raw in
       if raw = [] then Some dflt
       else if raw \<in> {''y'', ''yes''} then Some True
       else if raw \<in> {''n'', ''no''} then Some False else None)"

text \<open>A choice by number or by name; \<open>choices\<close> pairs the names with what they stand for.\<close>

definition selection :: "(string \<times> 'a) list \<Rightarrow> nat \<Rightarrow> string \<Rightarrow> 'a option" where
  "selection choices default_index raw =
     (if raw = [] then Some (snd (choices ! default_index))
      else
        let idx = (if list_all is_digit raw then
                     (case int_base10 raw of Inr n \<Rightarrow> if 0 \<le> n - 1 \<and> n - 1 < int (length choices) then Some (nat (n - 1)) else None
                      | Inl e \<Rightarrow> None)
                   else None)
        in case idx of Some i \<Rightarrow> Some (snd (choices ! i)) | None \<Rightarrow> map_of choices raw)"

definition ask_choice :: "(string \<times> 'a) list \<Rightarrow> nat \<Rightarrow> 'a wizard" where
  "ask_choice choices default_index = prompt (selection choices default_index)"

section \<open>Menus\<close>

datatype op = OpRead | OpWrite | OpScan

datatype transport_kind = KindTcp | KindRtu | KindRtuOverTcp

definition OPS :: "(string \<times> op) list" where
  "OPS = [(''read'', OpRead), (''write'', OpWrite), (''scan'', OpScan)]"

definition TRANSPORTS :: "(string \<times> transport_kind) list" where
  "TRANSPORTS = [(''tcp'', KindTcp), (''rtu'', KindRtu), (''rtu-over-tcp'', KindRtuOverTcp)]"

definition READ_AREAS :: "(string \<times> area) list" where
  "READ_AREAS =
     [(''holding'', HOLDING_REGISTER), (''input'', INPUT_REGISTER), (''coil'', COIL), (''discrete'', DISCRETE_INPUT)]"

definition WRITE_AREAS :: "(string \<times> area) list" where
  "WRITE_AREAS = [(''holding'', HOLDING_REGISTER), (''coil'', COIL)]"

definition WRITE_DTYPES :: "(string \<times> dtype) list" where
  "WRITE_DTYPES =
     [(''uint16'', UInt16), (''int16'', Int16), (''uint32'', UInt32), (''int32'', Int32), (''float32'', Float32),
      (''uint64'', UInt64), (''int64'', Int64), (''float64'', Float64)]"

definition READ_DTYPES :: "(string \<times> dtype) list" where
  "READ_DTYPES =
     [(''uint16'', UInt16), (''int16'', Int16), (''uint32'', UInt32), (''int32'', Int32), (''float32'', Float32),
      (''uint64'', UInt64), (''int64'', Int64), (''float64'', Float64), (''bit'', Bit), (''bits'', Bits)]"

definition WIDE_DTYPES :: "dtype list" where
  "WIDE_DTYPES = [Int32, UInt32, Float32, Int64, UInt64, Float64]"

section \<open>The transport and the call\<close>

text \<open>The fields that \<open>_ask_transport\<close> sets; the fields of the call come from \<open>_ask_call_args\<close>.\<close>

definition ask_transport :: "conn_args wizard" where
  "ask_transport =
     bindS (ask_choice TRANSPORTS 0) (\<lambda>kind.
       let ns = \<lparr>ca_host = None, ca_port = 502, ca_rtu = None, ca_baudrate = 9600, ca_bytesize = 8, ca_parity = ''N'',
                 ca_stopbits = PInt 1, ca_rtu_over_tcp = False, ca_unit_id = 0, ca_timeout_s = 0, ca_retries = 0\<rparr>
       in case kind of
            KindTcp \<Rightarrow>
              bindS (ask (Some ''127.0.0.1'')) (\<lambda>host.
              bindS (ask_int (Some 502) (Some 1)) (\<lambda>port.
                pureS (Inr (ns\<lparr>ca_host := Some host, ca_port := port\<rparr>))))
          | KindRtu \<Rightarrow>
              bindS (ask None) (\<lambda>rtu.
              bindS (ask_int (Some 9600) (Some 300)) (\<lambda>baudrate.
              bindS (ask_choice PARITY_CHOICES 0) (\<lambda>parity.
                pureS (Inr (ns\<lparr>ca_rtu := Some rtu, ca_baudrate := baudrate, ca_parity := parity\<rparr>)))))
          | KindRtuOverTcp \<Rightarrow>
              bindS (ask (Some ''127.0.0.1'')) (\<lambda>host.
              bindS (ask_int (Some 502) (Some 1)) (\<lambda>port.
                pureS (Inr (ns\<lparr>ca_host := Some host, ca_port := port, ca_rtu_over_tcp := True\<rparr>)))))"

definition ask_call_args ::
  "(string \<Rightarrow> pyfloat result) \<Rightarrow> (pyfloat \<Rightarrow> string) \<Rightarrow> conn_args \<Rightarrow> conn_args wizard" where
  "ask_call_args float_of_str float_repr ns =
     bindS (ask_int (Some 1) (Some 0)) (\<lambda>unit_id.
     bindS (ask_float float_of_str float_repr (Some HALF)) (\<lambda>timeout_s.
     bindS (ask_int (Some 1) (Some 0)) (\<lambda>retry_count.
       pureS (Inr (ns\<lparr>ca_unit_id := unit_id, ca_timeout_s := timeout_s, ca_retries := retry_count\<rparr>)))))"

section \<open>Operations\<close>

definition ask_orders :: "dtype \<Rightarrow> (order \<times> order) wizard" where
  "ask_orders dtype =
     (if dtype \<in> set WIDE_DTYPES then
        bindS (ask_choice ORDER_CHOICES 0) (\<lambda>word_order.
        bindS (ask_choice ORDER_CHOICES 0) (\<lambda>byte_order. pureS (Inr (word_order, byte_order))))
      else pureS (Inr (Big, Big)))"

text \<open>The bit fields of \<open>_ask_read\<close>.\<close>

definition ask_bits :: "dtype \<Rightarrow> (int option \<times> string option \<times> bit_numbering) wizard" where
  "ask_bits dtype =
     (if dtype = Bit then
        bindS (ask_int None (Some 0)) (\<lambda>bit_index.
        bindS (ask_choice NUMBERING_CHOICES 0) (\<lambda>bit_numbering. pureS (Inr (Some bit_index, None, bit_numbering))))
      else if dtype = Bits then
        bindS (ask None) (\<lambda>bit_indices.
        bindS (ask_choice NUMBERING_CHOICES 0) (\<lambda>bit_numbering. pureS (Inr (None, Some bit_indices, bit_numbering))))
      else pureS (Inr (None, None, LsbFirst)))"

definition ask_read :: "read_args wizard" where
  "ask_read =
     bindS (ask_choice READ_AREAS 0) (\<lambda>area.
     bindS (ask_int None (Some 0)) (\<lambda>start.
       if area = HOLDING_REGISTER \<or> area = INPUT_REGISTER then
         bindS (ask_int None (Some 1)) (\<lambda>count.
         bindS (ask_choice READ_DTYPES 0) (\<lambda>dtype.
         bindS (ask_orders dtype) (\<lambda>(word_order, byte_order).
         bindS (ask_bits dtype) (\<lambda>(bit_index, bit_indices, bit_numbering).
         bindS (ask_yes_no False) (\<lambda>json.
           pureS (Inr \<lparr>ra_area = area, ra_start = start, ra_count = count, ra_dtype = dtype, ra_word_order = word_order,
             ra_byte_order = byte_order, ra_bit_index = bit_index, ra_bit_indices = bit_indices,
             ra_bit_numbering = bit_numbering, ra_json = json\<rparr>))))))
       else
         bindS (ask_int None (Some 1)) (\<lambda>count.
         bindS (ask_yes_no False) (\<lambda>json.
           pureS (Inr \<lparr>ra_area = area, ra_start = start, ra_count = count, ra_dtype = UInt16, ra_word_order = Big,
             ra_byte_order = Big, ra_bit_index = None, ra_bit_indices = None, ra_bit_numbering = LsbFirst,
             ra_json = json\<rparr>)))))"

definition ask_write :: "write_args wizard" where
  "ask_write =
     bindS (ask_choice WRITE_AREAS 0) (\<lambda>area.
     bindS (ask_int None (Some 0)) (\<lambda>start.
       if area = COIL then
         bindS (ask None) (\<lambda>values.
         bindS (ask_yes_no False) (\<lambda>json.
           pureS (Inr \<lparr>wa_area = area, wa_start = start, wa_values = values, wa_dtype = UInt16, wa_word_order = Big,
             wa_byte_order = Big, wa_json = json\<rparr>)))
       else
         bindS (ask_choice WRITE_DTYPES 0) (\<lambda>dtype.
         bindS (ask None) (\<lambda>values.
         bindS (ask_orders dtype) (\<lambda>(word_order, byte_order).
         bindS (ask_yes_no False) (\<lambda>json.
           pureS (Inr \<lparr>wa_area = area, wa_start = start, wa_values = values, wa_dtype = dtype,
             wa_word_order = word_order, wa_byte_order = byte_order, wa_json = json\<rparr>)))))))"

definition ask_scan :: "scan_args wizard" where
  "ask_scan =
     bindS (ask_int (Some 0) (Some 0)) (\<lambda>start.
     bindS (ask_yes_no False) (\<lambda>json. pureS (Inr \<lparr>sa_start = start, sa_json = json\<rparr>)))"

section \<open>The command line it shows\<close>

definition quote :: "string \<Rightarrow> string" where
  "quote s = (if CHR '' '' \<in> set s \<or> char_of (9 :: nat) \<in> set s then CHR 0x22 # s @ [CHR 0x22] else s)"

text \<open>The name of a value in the choices, which the namespace of the code holds.\<close>

definition name_of :: "(string \<times> 'a) list \<Rightarrow> 'a \<Rightarrow> string" where
  "name_of choices v = (case find (\<lambda>c. snd c = v) choices of Some c \<Rightarrow> fst c | None \<Rightarrow> '''')"

text \<open>An option that is shown if \<open>c\<close> holds.\<close>

definition shown :: "bool \<Rightarrow> string list \<Rightarrow> string list" where
  "shown c words = (if c then words else [])"

text \<open>
  \<open>_equivalent_command\<close> up to the final join, with the function \<open>q\<close> that it applies to the texts of the user.
\<close>

definition conn_words :: "(string \<Rightarrow> string) \<Rightarrow> (pyfloat \<Rightarrow> string) \<Rightarrow> conn_args \<Rightarrow> string list" where
  "conn_words q float_repr ns =
     (if truthy (ca_rtu ns) then
        [''--rtu'', q (the (ca_rtu ns))] @
        shown (ca_baudrate ns \<noteq> 9600) [''--baudrate'', py_str_int (ca_baudrate ns)] @
        shown (ca_parity ns \<noteq> ''N'') [''--parity'', ca_parity ns]
      else
        [''--host'', q (case ca_host ns of None \<Rightarrow> '''' | Some h \<Rightarrow> h)] @
        shown (ca_port ns \<noteq> 502) [''--port'', py_str_int (ca_port ns)] @
        shown (ca_rtu_over_tcp ns) [''--rtu-over-tcp'']) @
     shown (ca_unit_id ns \<noteq> 1) [''--unit-id'', py_str_int (ca_unit_id ns)] @
     shown (ca_timeout_s ns \<noteq> HALF) [''--timeout'', float_repr (ca_timeout_s ns)] @
     shown (ca_retries ns \<noteq> 1) [''--retries'', py_str_int (ca_retries ns)]"

definition read_words :: "(string \<Rightarrow> string) \<Rightarrow> read_args \<Rightarrow> string list" where
  "read_words q ns =
     [''--area'', name_of READ_AREAS (ra_area ns), ''--start'', py_str_int (ra_start ns),
      ''--count'', py_str_int (ra_count ns)] @
     shown (ra_dtype ns \<noteq> UInt16) [''--dtype'', name_of READ_DTYPES (ra_dtype ns)] @
     shown (ra_word_order ns \<noteq> Big) [''--word-order'', name_of ORDER_CHOICES (ra_word_order ns)] @
     shown (ra_byte_order ns \<noteq> Big) [''--byte-order'', name_of ORDER_CHOICES (ra_byte_order ns)] @
     shown (ra_bit_index ns \<noteq> None) [''--bit-index'', py_str_int (the (ra_bit_index ns))] @
     shown (ra_bit_indices ns \<noteq> None) [''--bit-indices'', q (the (ra_bit_indices ns))] @
     shown (ra_bit_numbering ns \<noteq> LsbFirst) [''--bit-numbering'', name_of NUMBERING_CHOICES (ra_bit_numbering ns)] @
     shown (ra_json ns) [''--json'']"

definition write_words :: "(string \<Rightarrow> string) \<Rightarrow> write_args \<Rightarrow> string list" where
  "write_words q ns =
     [''--area'', name_of WRITE_AREAS (wa_area ns), ''--start'', py_str_int (wa_start ns), ''--values'', q (wa_values ns)] @
     shown (wa_dtype ns \<noteq> UInt16) [''--dtype'', name_of WRITE_DTYPES (wa_dtype ns)] @
     shown (wa_word_order ns \<noteq> Big) [''--word-order'', name_of ORDER_CHOICES (wa_word_order ns)] @
     shown (wa_byte_order ns \<noteq> Big) [''--byte-order'', name_of ORDER_CHOICES (wa_byte_order ns)] @
     shown (wa_json ns) [''--json'']"

definition scan_words :: "scan_args \<Rightarrow> string list" where
  "scan_words ns =
     shown (sa_start ns \<noteq> 0) [''--start'', py_str_int (sa_start ns)] @ shown (sa_json ns) [''--json'']"

fun command_words :: "(string \<Rightarrow> string) \<Rightarrow> (pyfloat \<Rightarrow> string) \<Rightarrow> command \<Rightarrow> string list" where
  "command_words q float_repr (ReadCmd ca ra) = ''read'' # conn_words q float_repr ca @ read_words q ra"
| "command_words q float_repr (WriteCmd ca wa) = ''write'' # conn_words q float_repr ca @ write_words q wa"
| "command_words q float_repr (ScanCmd ca sa) = ''scan'' # conn_words q float_repr ca @ scan_words sa"
| "command_words q float_repr (ServeCmd sv) = [''serve'']"

definition equivalent_command :: "(pyfloat \<Rightarrow> string) \<Rightarrow> command \<Rightarrow> string" where
  "equivalent_command float_repr cmd = py_join CHR '' '' (''pymod'' # command_words quote float_repr cmd)"

section \<open>The wizard\<close>

text \<open>The namespace that the wizard has built, with the command line it shows, if the user confirms.\<close>

definition build_namespace ::
  "(string \<Rightarrow> pyfloat result) \<Rightarrow> (pyfloat \<Rightarrow> string) \<Rightarrow> (string \<times> command option) wizard" where
  "build_namespace float_of_str float_repr =
     bindS (ask_choice OPS 0) (\<lambda>op.
     bindS ask_transport (\<lambda>ns.
     bindS (ask_call_args float_of_str float_repr ns) (\<lambda>ns.
     bindS (case op of
         OpRead \<Rightarrow> bindS ask_read (\<lambda>ra. pureS (Inr (ReadCmd ns ra)))
       | OpWrite \<Rightarrow> bindS ask_write (\<lambda>wa. pureS (Inr (WriteCmd ns wa)))
       | OpScan \<Rightarrow> bindS ask_scan (\<lambda>sa. pureS (Inr (ScanCmd ns sa)))) (\<lambda>cmd.
     bindS (ask_yes_no True) (\<lambda>execute.
       pureS (Inr (equivalent_command float_repr cmd, if execute then Some cmd else None)))))))"

end
