(* ===== verification/Cli_Main.thy ===== *)
theory Cli_Main
  imports Guide
begin

text \<open>
  \<open>main\<close>, the dispatch to the commands and to the wizard, of \<open>src/pymod/cli.py\<close>.  The environment holds what
  the commands meet outside: float texts, the clock, the clients of the factories, the worlds of the
  requests, and the configuration files.  A result is the output, if there is any, with the exit code.
\<close>

record 'w cli_env =
  en_float_of_str :: "string \<Rightarrow> pyfloat result"
  en_float_repr :: "pyfloat \<Rightarrow> string"
  en_sleep :: "rat \<Rightarrow> 'w \<Rightarrow> 'w"
  en_client :: "conn_args \<Rightarrow> client_choice \<Rightarrow> 'w client result"
  en_worlds :: "nat \<Rightarrow> 'w"
  en_completion :: "nat list"
  en_after :: 'w
  en_world :: 'w
  en_config :: "string \<Rightarrow> json result"

section \<open>The attributes that a command reads\<close>

definition read_cli :: "read_args \<Rightarrow> cli_args" where
  "read_cli ra = \<lparr>ar_area = ra_area ra, ar_start = ra_start ra, ar_count = ra_count ra, ar_dtype = ra_dtype ra,
     ar_word_order = ra_word_order ra, ar_byte_order = ra_byte_order ra, ar_bit_index = ra_bit_index ra,
     ar_bit_indices = ra_bit_indices ra, ar_bit_numbering = ra_bit_numbering ra, ar_values = '''', ar_json = ra_json ra\<rparr>"

definition write_cli :: "write_args \<Rightarrow> cli_args" where
  "write_cli wa = \<lparr>ar_area = wa_area wa, ar_start = wa_start wa, ar_count = 0, ar_dtype = wa_dtype wa,
     ar_word_order = wa_word_order wa, ar_byte_order = wa_byte_order wa, ar_bit_index = None, ar_bit_indices = None,
     ar_bit_numbering = LsbFirst, ar_values = wa_values wa, ar_json = wa_json wa\<rparr>"

definition scan_cli :: "scan_args \<Rightarrow> cli_args" where
  "scan_cli sa = \<lparr>ar_area = HOLDING_REGISTER, ar_start = sa_start sa, ar_count = 0, ar_dtype = UInt16,
     ar_word_order = Big, ar_byte_order = Big, ar_bit_index = None, ar_bit_indices = None, ar_bit_numbering = LsbFirst,
     ar_values = '''', ar_json = sa_json sa\<rparr>"

section \<open>Commands\<close>

definition make_cli_client :: "'w cli_env \<Rightarrow> conn_args \<Rightarrow> 'w client result" where
  "make_cli_client env ca =
     bindE (choose_client (ca_rtu ca) (ca_host ca) (ca_rtu_over_tcp ca) (ca_retries ca)) (en_client env ca)"

text \<open>\<open>_run_serve\<close>: once the server is up, it runs until Ctrl-C.\<close>

definition run_serve :: "'w cli_env \<Rightarrow> serve_args \<Rightarrow> (cli_output \<times> int) result" where
  "run_serve env sv =
     bindE (if truthy (sv_config sv) then bindE (en_config env (the (sv_config sv))) (\<lambda>data. Inr (Some data)) else Inr None) (\<lambda>config.
     bindE (build_sim_state config (sv_holding sv) (sv_input sv) (sv_coil sv) (sv_discrete sv)) (\<lambda>state.
     bindE (serve_server (sv_readonly sv) (sv_unit_id sv) (sv_max_connections sv)) (\<lambda>server. Inl KeyboardInterrupt)))"

definition run_command :: "'w cli_env \<Rightarrow> command \<Rightarrow> (cli_output \<times> int) result" where
  "run_command env cmd =
     (case cmd of
        ReadCmd ca ra \<Rightarrow>
          run_read (en_float_repr env) (en_sleep env) (read_cli ra) (make_cli_client env ca)
            (en_worlds env) (en_completion env) (en_after env) (en_world env)
      | WriteCmd ca wa \<Rightarrow>
          run_write (en_float_of_str env) (en_sleep env) (write_cli wa) (make_cli_client env ca)
            (en_worlds env) (en_completion env) (en_after env) (en_world env)
      | ScanCmd ca sa \<Rightarrow> run_scan (en_sleep env) (scan_cli sa) (make_cli_client env ca) (en_world env)
      | ServeCmd sv \<Rightarrow> run_serve env sv)"

definition interrupted :: "(cli_output \<times> int) result \<Rightarrow> (cli_output option \<times> int) result" where
  "interrupted r =
     (case r of
        Inr (out, code) \<Rightarrow> Inr (Some out, code)
      | Inl e \<Rightarrow> if e = KeyboardInterrupt then Inr (None, 130) else Inl e)"

definition dispatch_guide :: "'w cli_env \<Rightarrow> user_event list \<Rightarrow> (cli_output option \<times> int) result" where
  "dispatch_guide env evs =
     (case fst (build_namespace (en_float_of_str env) (en_float_repr env) evs) of
        Inl e \<Rightarrow> if e \<in> {KeyboardInterrupt, EOFError} then Inr (None, 130) else Inl e
      | Inr (_, None) \<Rightarrow> Inr (None, 0)
      | Inr (_, Some cmd) \<Rightarrow> interrupted (run_command env cmd))"

definition cli_main :: "'w cli_env \<Rightarrow> string list \<Rightarrow> user_event list \<Rightarrow> (cli_output option \<times> int) result" where
  "cli_main env argv evs =
     bindE (parse_args (en_float_of_str env) argv) (\<lambda>(guide, cmd).
       if guide then dispatch_guide env evs
       else case cmd of None \<Rightarrow> Inr (None, 2) | Some cmd \<Rightarrow> interrupted (run_command env cmd))"

end
