(* ===== verification/Cli_Laws.thy ===== *)
theory Cli_Laws
  imports Cli Rtu_Over_Tcp
begin

text \<open>
  Laws of the command line: exit codes, values that survive printing and parsing, and the types and
  contents of the simulator's initial state.
\<close>

section \<open>Exit codes\<close>

lemma or_exit_Inr [simp]: "or_exit (Inr x) = Inr x"
  by (simp add: or_exit_def)

text \<open>The three ways \<open>async with client\<close> can end.\<close>

lemma with_client_eq:
  "fst (with_client cl body w) =
     (case connect cl w of
        (Inl e, _) \<Rightarrow> Inl e
      | (Inr _, w1) \<Rightarrow> (case close cl (snd (body w1)) of (Inl e, _) \<Rightarrow> Inl e | (Inr _, _) \<Rightarrow> fst (body w1)))"
proof (cases "connect cl w")
  case (Pair r w1)
  then show ?thesis
    by (cases r; cases "body w1"; cases "close cl (snd (body w1))"; cases "fst (close cl (snd (body w1)))")
      (auto simp: with_client_def bindS_def)
qed

text \<open>
  C34: exit codes of \<open>pymod read\<close>.  For a valid and addressable item, a transport that keeps the contract of
  the client, and waits that keep its worlds, the command never raises.  It exits with 2 exactly if
  opening or closing the connection raised a \<open>ModbusConnectionError\<close>, with 0 exactly if both succeeded and
  the item was read, and otherwise with 1.  In particular every error during the read gives 1 and is printed,
  also a timeout or a connection that is lost: the table of exit codes in \<open>docs/cli.md\<close> says otherwise (2 for a
  connection error, 1 for an exception response of the device).
\<close>

theorem read_exit_codes:
  assumes "modbus_transport (cl_transport cl) good framed" "\<And>req. sent_by_read req \<Longrightarrow> framed (cl_unit_id cl) req"
    and "finite_delays (cl_retry cl)" "1 \<le> max_attempts (cl_retry cl)" "\<And>d w. good w \<Longrightarrow> good (sleep d w)"
    and "\<And>i. good (worlds i)" "good after" "good w"
    and "build_read_item args = Inr item" "validate_read_item item = Inr ()"
    and "0 \<le> item_start item" "item_start item + item_count item \<le> 0x10000"
  defines "refused \<equiv> \<lambda>r. \<exists>e. r = Inl e \<and> isinstance_exn e C_ModbusConnectionError"
  shows "\<exists>out code r. run_read float_repr sleep args (Inr cl) worlds completion after w = Inr (out, code) \<and>
    client_read sleep cl [item] None None None worlds completion = Inr [r] \<and> code \<in> {0, 1, 2} \<and>
    (code = 2 \<longleftrightarrow> refused (fst (connect cl w)) \<or> fst (connect cl w) = Inr () \<and> refused (fst (close cl after))) \<and>
    (code = 0 \<longleftrightarrow> fst (connect cl w) = Inr () \<and> fst (close cl after) = Inr () \<and> rr_ok r) \<and>
    (fst (connect cl w) = Inr () \<and> fst (close cl after) = Inr () \<and> \<not> rr_ok r \<longrightarrow>
      code = 1 \<and> out = OutError (ar_json args) (rr_error r))"
proof -
  obtain rs where "client_read sleep cl [item] None None None worlds completion = Inr rs" "length rs = 1"
    using modbus_transport.client_read_returns [OF assms(1) refl assms(3,4), where items = "[item]" and completion = completion and sleep = sleep and worlds = worlds] assms(2,5,6,10-12) by auto
  then obtain r where r: "client_read sleep cl [item] None None None worlds completion = Inr [r]"
    by (cases rs) auto
  have mod: "\<And>e. fst (connect cl w) = Inl e \<Longrightarrow> is_modbus_error e" "\<And>e. fst (close cl after) = Inl e \<Longrightarrow> is_modbus_error e"
    using modbus_transport.connect_error [OF assms(1,8)] modbus_transport.close_error [OF assms(1,7)]
    by (simp_all add: connect_def close_def)
  show ?thesis
    using mod assms(9) r
    by (cases "connect cl w"; cases "close cl after"; cases "fst (connect cl w)"; cases "fst (close cl after)")
      (auto simp: run_read_def with_client_eq guarded_def refused_def emit_read_result_def py_index_def)
qed

text \<open>Arguments, and an RTU-over-TCP client whose gateway is down, for concrete runs.\<close>

definition demo_args :: cli_args where
  "demo_args = \<lparr>ar_area = COIL, ar_start = 0, ar_count = 1, ar_dtype = Int16, ar_word_order = Big, ar_byte_order = Big,
     ar_bit_index = None, ar_bit_indices = None, ar_bit_numbering = LsbFirst, ar_values = '''', ar_json = False\<rparr>"

definition demo_client :: "(rot \<times> net list) client" where
  "demo_client = make_client RtuOverTcpTransport 1 DEFAULT_TIMEOUT_S None"

theorem read_exit_codes_witness:
  "\<exists>out. run_read (\<lambda>_. []) (\<lambda>_ w. w) demo_args (Inr demo_client) (\<lambda>_. (rot_init, [])) [] (rot_init, []) (rot_init, []) = Inr (out, 2)"
proof -
  have cl: "cl_transport demo_client = RtuOverTcpTransport" "cl_unit_id demo_client = 1" "cl_retry demo_client = default_retry"
    by (simp_all add: demo_client_def make_client_def)
  have "sent_by_read req \<Longrightarrow> rtu_ok (cl_unit_id demo_client) req" for req using sent_by_read_length [of req] cl by auto
  moreover have "finite_delays (cl_retry demo_client)" "1 \<le> max_attempts (cl_retry demo_client)"
    by (auto simp: cl default_retry_def finite_delays_def FLOAT_OVERFLOW_def)
  moreover have "rot_good (rot_init, [])" by (simp add: rot_good_def)
  moreover have "build_read_item demo_args = Inr (Coil 0 1)" by (simp add: build_read_item_def demo_args_def)
  moreover have "fst (connect demo_client (rot_init, [])) = Inl ModbusConnectionError"
    by (simp add: connect_def cl RtuOverTcpTransport_def with_net_def rot_connect_def rot_open_locked_def rot_init_def net_down_def is_os_error_def)
  moreover have "validate_read_item (Coil 0 1) = Inr ()" by (simp add: validate_read_item_def)
  ultimately show ?thesis
    using read_exit_codes [of demo_client rot_good rtu_ok "\<lambda>_ w. w" "\<lambda>_. (rot_init, [])" "(rot_init, [])" "(rot_init, [])" demo_args "Coil 0 1"
        "\<lambda>_. []" "[]"] rot.modbus_transport_axioms
    by (auto simp: cl(1) isinstance_exn_def)
qed

text \<open>
  C35: exit codes of \<open>pymod scan\<close>.  Once the connection is open, a transport error exits with 2 if it is a
  \<open>ModbusConnectionError\<close> and with 1 otherwise, and a response to the read, normal or exceptional, exits
  with 0.  But any other response, an empty one or one with a foreign function code, ends the command
  with an uncaught \<open>ModbusProtocolError\<close>: the response is examined outside the \<open>try\<close>.
\<close>

theorem scan_outcome:
  assumes "connect cl w = (Inr (), w1)" "encode_read_holding_registers (ar_start args) 1 = Inr req"
    and "execute sleep cl req None None None w1 = (r, w2)" "close cl w2 = (Inr (), w3)"
    and "\<And>e. r = Inl e \<Longrightarrow> is_modbus_error e"
  shows "case r of
      Inl e \<Rightarrow> run_scan sleep args (Inr cl) w =
        Inr (OutError (ar_json args) (Some e), if isinstance_exn e C_ModbusConnectionError then 2 else 1)
    | Inr resp \<Rightarrow>
        if resp \<noteq> [] \<and> hd resp = 3 \<or> 2 \<le> length resp \<and> hd resp = 0x83
        then \<exists>out. run_scan sleep args (Inr cl) w = Inr (out, 0)
        else run_scan sleep args (Inr cl) w = Inl ModbusProtocolError"
proof (cases r)
  case (Inl e)
  with assms show ?thesis by (simp add: run_scan_def with_client_eq bindS_def pureS_def guarded_def)
next
  case (Inr resp)
  have "run_scan sleep args (Inr cl) w = bindE (detect_exception resp FC_READ_HOLDING_REGISTERS)
      (\<lambda>exc. Inr (if ar_json args then OutResponsive exc else OutAlive exc, 0))"
    using assms(1-4) Inr by (simp add: run_scan_def with_client_eq bindS_def pureS_def guarded_def)
  moreover have codes: "uint b = 3 \<longleftrightarrow> b = 3" "uint b = 0x83 \<longleftrightarrow> b = 0x83" for b :: byte
    by (simp_all add: word_uint_eq_iff)
  have "detect_exception resp FC_READ_HOLDING_REGISTERS =
      (if resp \<noteq> [] \<and> hd resp = 3 then Inr None
       else if 2 \<le> length resp \<and> hd resp = 0x83 then
         Inr (Some (mk_response (case EXCEPTION_BY_CODE (uint (resp ! 1)) of None \<Rightarrow> SlaveDeviceFailure | Some c \<Rightarrow> c) (Some (uint (resp ! 1)))))
       else Inl ModbusProtocolError)"
    by (cases resp) (simp_all add: detect_exception_def Let_def EXCEPTION_BIT_def FC_READ_HOLDING_REGISTERS_def codes Suc_le_eq)
  ultimately show ?thesis using Inr by auto
qed

theorem scan_outcome_witness:
  "run_scan (\<lambda>_ w. w) demo_args (Inr (make_client scripted 1 DEFAULT_TIMEOUT_S None)) [Inr [7, 0]] = Inl ModbusProtocolError"
proof -
  let ?cl = "make_client scripted 1 DEFAULT_TIMEOUT_S None"
  have "connect ?cl [Inr [7, 0]] = (Inr (), [Inr [7, 0]])" "close ?cl [] = (Inr (), [])"
    by (simp_all add: make_client_def scripted_def connect_def close_def pureS_def)
  moreover have "encode_read_holding_registers (ar_start demo_args) 1 = Inr [3, 0, 0, 0, 1]"
    unfolding demo_args_def by code_simp
  moreover have "execute (\<lambda>_ w. w) ?cl [3, 0, 0, 0, 1] None None None [Inr [7, 0]] = (Inr [7, 0], [])"
    by (simp add: execute_def make_client_def scripted_def default_retry_def wait_before_def upto_rec1)
  ultimately show ?thesis
    using scan_outcome [of ?cl "[Inr [7, 0]]" "[Inr [7, 0]]" demo_args "[3, 0, 0, 0, 1]" "\<lambda>_ w. w" "Inr [7, 0]" "[]" "[]"] by simp
qed

section \<open>Printed values\<close>

text \<open>The width in bits that \<open>_format_value\<close> masks to.\<close>

fun shown_bits :: "dtype \<Rightarrow> nat" where
  "shown_bits d = (if d \<in> {Int64, UInt64} then 64 else if d \<in> {Int32, UInt32} then 32 else 16)"

lemma format_int:
  "format_value float_repr i (PInt v) (Some d) =
     ''['' @ py_str_int (int i) @ '']: '' @ ''0x'' @ py_hex (shown_bits d div 4) (v mod 2 ^ shown_bits d) @
     '' ('' @ py_str_int v @ '')''"
proof -
  have "v AND 0xFFFFFFFFFFFFFFFF = take_bit 64 v" "v AND 0xFFFFFFFF = take_bit 32 v" "v AND 0xFFFF = take_bit 16 v"
    by (simp_all add: take_bit_eq_mask mask_eq_exp_minus_1)
  then show ?thesis by (simp add: format_value_def take_bit_eq_mod Let_def)
qed

lemma build_write_ints:
  assumes "ts \<noteq> []" "list_all2 int_text ts vs" "ar_values args = py_join CHR '','' ts"
    and "ar_area args = HOLDING_REGISTER" "ar_dtype args \<noteq> Float32"
  shows "build_write_item float_of_str args = Inr (WriteHolding \<lparr>wh_start = ar_start args, wh_values = map PInt vs,
    wh_dtype = ar_dtype args, wh_word_order = ar_word_order args, wh_byte_order = ar_byte_order args\<rparr>)"
proof -
  have texts: "\<exists>v. int_text t v" if "t \<in> set ts" for t
    using assms(2) that by (auto simp: list_all2_conv_all_nth in_set_conv_nth)
  then have "py_split CHR '','' (ar_values args) = ts"
    using int_text_facts(4) py_split_join [of ts "CHR '',''"] assms(1,3) by auto
  moreover have "filter (\<lambda>s. py_strip s \<noteq> []) ts = ts" "map py_strip ts = ts"
    using texts int_text_facts(2,3) by (fastforce intro!: filter_True map_idI)+
  moreover have "mapE (\<lambda>s. bindE (int_base0 s) (\<lambda>i. Inr (PInt i))) ts = Inr (map PInt vs)"
    using assms(2) by (induction rule: list_all2_induct) (simp_all add: int_text_facts(1))
  ultimately show ?thesis using assms(1,4,5) by (simp add: build_write_item_def Let_def)
qed

lemma int_texts:
  "list_all2 int_text (map py_str_int vs) vs"
  "list_all2 int_text (map (\<lambda>v. ''0x'' @ py_hex w (v mod 2 ^ n)) vs) (map (\<lambda>v. v mod 2 ^ n) vs)"
  by (auto simp: list_all2_conv_all_nth int_text_def)

text \<open>
  Printed values can be written back.  The line that \<open>pymod read\<close> prints for an integer shows the
  two's complement of the type's width in hexadecimal, zero padded to exactly that width, and the
  value in decimal, and \<open>int(s, 0)\<close> reads both back.  Given the decimal texts of any list of values,
  joined by commas, \<open>pymod write\<close> builds the item that writes exactly these values; so it does for the
  hexadecimal texts, with the values reduced to the width.
\<close>

theorem printed_values_written_back:
  assumes "ar_area args = HOLDING_REGISTER" "ar_dtype args = d" "d \<noteq> Float32" "vs \<noteq> []"
  defines "item \<equiv> \<lambda>ns. WriteHolding \<lparr>wh_start = ar_start args, wh_values = map PInt ns, wh_dtype = d,
    wh_word_order = ar_word_order args, wh_byte_order = ar_byte_order args\<rparr>"
    and "hx \<equiv> \<lambda>v. ''0x'' @ py_hex (shown_bits d div 4) (v mod 2 ^ shown_bits d)"
  shows "(\<forall>i v. format_value float_repr i (PInt v) (Some d) =
        ''['' @ py_str_int (int i) @ '']: '' @ hx v @ '' ('' @ py_str_int v @ '')'' \<and>
        length (hx v) = 2 + shown_bits d div 4) \<and>
    build_write_item float_of_str (args\<lparr>ar_values := py_join CHR '','' (map py_str_int vs)\<rparr>) = Inr (item vs) \<and>
    build_write_item float_of_str (args\<lparr>ar_values := py_join CHR '','' (map hx vs)\<rparr>) =
      Inr (item (map (\<lambda>v. v mod 2 ^ shown_bits d) vs))"
proof (intro conjI allI)
  fix i v
  show "format_value float_repr i (PInt v) (Some d) =
      ''['' @ py_str_int (int i) @ '']: '' @ hx v @ '' ('' @ py_str_int v @ '')''"
    using format_int by (simp add: hx_def)
  show "length (hx v) = 2 + shown_bits d div 4"
    using length_py_hex [of "v mod 2 ^ shown_bits d" "shown_bits d div 4 - 1"] by (simp add: hx_def)
next
  show "build_write_item float_of_str (args\<lparr>ar_values := py_join CHR '','' (map py_str_int vs)\<rparr>) = Inr (item vs)"
    using assms(1-4) build_write_ints [OF _ int_texts(1), of vs]
    by (simp add: item_def)
  show "build_write_item float_of_str (args\<lparr>ar_values := py_join CHR '','' (map hx vs)\<rparr>) =
      Inr (item (map (\<lambda>v. v mod 2 ^ shown_bits d) vs))"
    using assms(1-4) build_write_ints [OF _ int_texts(2) [of "shown_bits d div 4" "shown_bits d" vs],
        of "args\<lparr>ar_values := py_join CHR '','' (map hx vs)\<rparr>"]
    by (simp add: item_def hx_def del: shown_bits.simps)
qed

theorem printed_values_written_back_witness:
  "build_write_item (\<lambda>_. Inl ValueError) (demo_args\<lparr>ar_area := HOLDING_REGISTER, ar_values := ''-1,5''\<rparr>) =
     Inr (WriteHolding \<lparr>wh_start = 0, wh_values = [PInt (-1), PInt 5], wh_dtype = Int16, wh_word_order = Big, wh_byte_order = Big\<rparr>)"
proof -
  have "py_join CHR '','' (map py_str_int [-1, 5]) = ''-1,5''" by code_simp
  with printed_values_written_back [of "demo_args\<lparr>ar_area := HOLDING_REGISTER\<rparr>" Int16 "[-1, 5]" "\<lambda>_. []" "\<lambda>_. Inl ValueError"]
  show ?thesis by (simp add: demo_args_def)
qed

section \<open>The initial state of the simulator\<close>

text \<open>A piece \<open>ADDR=VALUE\<close> of a specification, and a whole specification, empty or not.\<close>

definition piece_text :: "(string \<Rightarrow> pyval \<Rightarrow> bool) \<Rightarrow> string \<Rightarrow> int \<times> pyval \<Rightarrow> bool" where
  "piece_text value_text p e \<longleftrightarrow> (\<exists>ta tv. p = ta @ CHR ''='' # tv \<and> int_text ta (fst e) \<and> value_text tv (snd e))"

definition spec_text :: "(string \<Rightarrow> pyval \<Rightarrow> bool) \<Rightarrow> string \<Rightarrow> (int \<times> pyval) list \<Rightarrow> bool" where
  "spec_text value_text s es \<longleftrightarrow> (\<exists>ps. s = py_join CHR '','' ps \<and> list_all2 (piece_text value_text) ps es)"

text \<open>A parser of values, with texts that it reads and that survive stripping and splitting.\<close>

locale value_syntax =
  fixes parse :: "string \<Rightarrow> pyval result" and value_text :: "string \<Rightarrow> pyval \<Rightarrow> bool"
  assumes parse_text: "value_text t v \<Longrightarrow> parse t = Inr v"
    and text_plain: "value_text t v \<Longrightarrow> t \<noteq> [] \<and> \<not> is_space (last t) \<and> py_strip t = t \<and> CHR '','' \<notin> set t"
begin

lemma piece_facts:
  assumes "piece_text value_text p (a, v)"
  shows "p \<noteq> []" "py_strip p = p" "CHR '','' \<notin> set p"
proof -
  obtain ta tv where p: "p = ta @ CHR ''='' # tv" "int_text ta a" "value_text tv v"
    using assms by (auto simp: piece_text_def)
  note ta = int_text_facts [OF p(2)] and tv = text_plain [OF p(3)]
  have "\<not> is_space (hd p)" using p(1) ta(2) int_text_hd [OF p(2)] by simp
  moreover have "\<not> is_space (last p)" using p(1) tv by simp
  moreover show "p \<noteq> []" using p(1) by simp
  ultimately show "py_strip p = p" by (intro py_strip_id)
  show "CHR '','' \<notin> set p" using p(1) ta(4) tv by simp
qed

lemma parse_piece:
  assumes "piece_text value_text p (a, v)"
  shows "parse_pieces parse (p # ps) out = parse_pieces parse ps (out(a \<mapsto> v))"
proof -
  obtain ta tv where p: "p = ta @ CHR ''='' # tv" "int_text ta a" "value_text tv v"
    using assms by (auto simp: piece_text_def)
  note ta = int_text_facts [OF p(2)] and tv = text_plain [OF p(3)]
  have "py_partition CHR ''='' p = (ta, tv)" using ta(5) p(1) by (simp add: py_partition_append)
  moreover have "CHR ''='' \<in> set p" using p(1) by simp
  ultimately show ?thesis
    using piece_facts [OF assms] ta tv parse_text [OF p(3)] by (simp add: Let_def)
qed

lemma parse_pieces_text:
  assumes "list_all2 (piece_text value_text) ps es"
  shows "parse_pieces parse ps out = Inr (out ++ map_of (rev es))"
  using assms
proof (induction arbitrary: out rule: list_all2_induct)
  case (Cons p ps e es)
  then show ?case
    using parse_piece [of p "fst e" "snd e" ps out] by (cases e) (simp del: parse_pieces.simps add: map_add_def fun_eq_iff split: option.splits)
qed simp

lemma parse_spec:
  assumes "spec_text value_text s es"
  shows "(if py_strip s = [] then Inr Map.empty else parse_pieces parse (py_split CHR '','' s) Map.empty) =
    Inr (map_of (rev es))"
proof -
  obtain ps where ps: "s = py_join CHR '','' ps" "list_all2 (piece_text value_text) ps es" using assms by (auto simp: spec_text_def)
  show ?thesis
  proof (cases ps)
    case Nil
    then show ?thesis using ps by (simp add: py_strip_def)
  next
    case (Cons p qs)
    have facts: "q \<noteq> [] \<and> py_strip q = q \<and> CHR '','' \<notin> set q" if "q \<in> set ps" for q
      using that ps(2) piece_facts by (metis in_set_conv_nth list_all2_nthD prod.collapse)
    then have "py_split CHR '','' s = ps" using ps(1) Cons py_split_join [of ps] by auto
    moreover have "py_strip s \<noteq> []"
      using facts [of p] Cons ps(1) by (cases qs) (auto simp: py_strip_empty is_space_def)
    ultimately show ?thesis using parse_pieces_text [OF ps(2)] by simp
  qed
qed

end

fun int_value :: "string \<Rightarrow> pyval \<Rightarrow> bool" where
  "int_value t (PInt n) = int_text t n"
| "int_value t _ = False"

fun bool_value :: "string \<Rightarrow> pyval \<Rightarrow> bool" where
  "bool_value t (PBool b) = (t \<in> (if b then {''true'', ''1'', ''on'', ''yes''} else {''false'', ''0'', ''off'', ''no''}))"
| "bool_value t _ = False"

interpretation ints: value_syntax "\<lambda>s. bindE (int_base0 s) (\<lambda>i. Inr (PInt i))" int_value
proof
  fix t v assume "int_value t v"
  then obtain n where n: "v = PInt n" "int_text t n" by (cases v) auto
  note facts = int_text_facts [OF n(2)]
  show "bindE (int_base0 t) (\<lambda>i. Inr (PInt i)) = Inr v" using n facts by simp
  have "\<not> is_space (last t)"
    using int_text_chars [OF n(2), of "last t"] facts(2) digit_char_ok(3) by (auto simp: is_space_def)
  with facts show "t \<noteq> [] \<and> \<not> is_space (last t) \<and> py_strip t = t \<and> CHR '','' \<notin> set t" by simp
qed

interpretation bools: value_syntax "\<lambda>s. bindE (parse_bool s) (\<lambda>b. Inr (PBool b))" bool_value
proof
  fix t v assume "bool_value t v"
  then obtain b where b: "v = PBool b"
      "t \<in> (if b then {''true'', ''1'', ''on'', ''yes''} else {''false'', ''0'', ''off'', ''no''})" by (cases v) auto
  then show "bindE (parse_bool t) (\<lambda>b. Inr (PBool b)) = Inr v"
    by (auto simp: parse_bool_def py_lower_def lower_char_def split: if_splits)
  show "t \<noteq> [] \<and> \<not> is_space (last t) \<and> py_strip t = t \<and> CHR '','' \<notin> set t"
    using b(2) by (auto simp: is_space_def py_strip_def split: if_splits)
qed

lemma parse_maps_text:
  "spec_text int_value s es \<Longrightarrow> parse_int_map s = Inr (map_of (rev es))"
  "spec_text bool_value s es \<Longrightarrow> parse_bool_map s = Inr (map_of (rev es))"
  unfolding parse_int_map_def parse_bool_map_def by (rule ints.parse_spec bools.parse_spec; assumption)+

text \<open>What the parsers and the configuration file let into a dictionary.\<close>

lemma ball_ran_upd: "P v \<Longrightarrow> \<forall>w \<in> ran m. P w \<Longrightarrow> \<forall>w \<in> ran (m(a \<mapsto> v)). P w"
  by (auto simp: ran_def)

lemma ball_ran: "(\<forall>w \<in> ran m. P w) \<longleftrightarrow> (\<forall>x w. m x = Some w \<longrightarrow> P w)"
  by (auto simp: ran_def)

lemma ball_ran_add: "\<forall>w \<in> ran m. P w \<Longrightarrow> \<forall>w \<in> ran n. P w \<Longrightarrow> \<forall>w \<in> ran (m ++ n). P w"
  by (auto simp: ran_def map_add_Some_iff)

lemma parse_pieces_ran:
  assumes "parse_pieces parse ps out = Inr m" "\<And>s v. parse s = Inr v \<Longrightarrow> P v" "\<forall>v \<in> ran out. P v"
  shows "\<forall>v \<in> ran m. P v"
  using assms(1,3)
proof (induction ps arbitrary: out)
  case (Cons piece pieces)
  show ?case
  proof (cases "py_strip piece = []")
    case False
    obtain ta tv where tv: "py_partition CHR ''='' (py_strip piece) = (ta, tv)" by fastforce
    from Cons.prems(1) False tv obtain v a where v: "parse (py_strip tv) = Inr v"
      and rest: "parse_pieces parse pieces (out(a \<mapsto> v)) = Inr m"
      by (auto simp: Let_def bindE_eq_Inr split: if_splits)
    show ?thesis by (rule Cons.IH [OF rest ball_ran_upd [OF assms(2) [OF v] Cons.prems(2)]])
  qed (use Cons in simp)
qed simp

lemma load_entries_ran:
  assumes "load_entries conv entries out = Inr m" "\<And>j v. conv j = Inr v \<Longrightarrow> P v" "\<forall>v \<in> ran out. P v"
  shows "\<forall>v \<in> ran m. P v"
  using assms(1,3)
proof (induction entries arbitrary: out)
  case (Cons e entries)
  then obtain x a where x: "conv (snd e) = Inr x" and rest: "load_entries conv entries (out(a \<mapsto> x)) = Inr m"
    by (cases e) (auto simp: bindE_eq_Inr)
  show ?case by (rule Cons.IH [OF rest ball_ran_upd [OF assms(2) [OF x] Cons.prems(2)]])
qed simp

lemma load_section_ran:
  assumes "load_section conv data key Map.empty = Inr m" "\<And>j v. conv j = Inr v \<Longrightarrow> P v"
  shows "\<forall>v \<in> ran m. P v"
  using assms load_entries_ran [of conv _ Map.empty m P]
  by (auto simp: load_section_def split: option.splits json.splits)

fun is_bool :: "pyval \<Rightarrow> bool" where
  "is_bool (PBool b) = True"
| "is_bool _ = False"

fun is_int :: "pyval \<Rightarrow> bool" where
  "is_int (PInt n) = True"
| "is_int _ = False"

lemma parse_maps_ran:
  "parse_int_map s = Inr m \<Longrightarrow> \<forall>v \<in> ran m. is_int v"
  "parse_bool_map s = Inr m \<Longrightarrow> \<forall>v \<in> ran m. is_bool v"
proof -
  show "parse_int_map s = Inr m \<Longrightarrow> \<forall>v \<in> ran m. is_int v"
    unfolding parse_int_map_def
    by (auto simp: bindE_eq_Inr split: if_splits elim!: parse_pieces_ran [where P = is_int, THEN bspec])
  show "parse_bool_map s = Inr m \<Longrightarrow> \<forall>v \<in> ran m. is_bool v"
    unfolding parse_bool_map_def
    by (auto simp: bindE_eq_Inr split: if_splits elim!: parse_pieces_ran [where P = is_bool, THEN bspec])
qed

lemma json_conv:
  "json_int j = Inr v \<Longrightarrow> is_int v \<or> is_bool v" "json_bool j = Inr v \<Longrightarrow> is_bool v"
  by (cases j; auto)+

lemma load_config_ran:
  assumes "load_config_into_state sim_init data = Inr st"
  shows "\<forall>v \<in> ran (sim_holding st). is_int v \<or> is_bool v" "\<forall>v \<in> ran (sim_input st). is_int v \<or> is_bool v"
    "\<forall>v \<in> ran (sim_coil st). is_bool v" "\<forall>v \<in> ran (sim_discrete st). is_bool v"
proof -
  obtain sections where
    "load_section json_int sections ''holding'' Map.empty = Inr (sim_holding st)"
    "load_section json_int sections ''input'' Map.empty = Inr (sim_input st)"
    "load_section json_bool sections ''coil'' Map.empty = Inr (sim_coil st)"
    "load_section json_bool sections ''discrete'' Map.empty = Inr (sim_discrete st)"
    using assms by (cases data) (auto simp: load_config_into_state_def sim_init_def bindE_eq_Inr)
  note loads = this
  show "\<forall>v \<in> ran (sim_holding st). is_int v \<or> is_bool v" "\<forall>v \<in> ran (sim_input st). is_int v \<or> is_bool v"
    by (rule load_section_ran [OF loads(1)] load_section_ran [OF loads(2)], erule json_conv(1))+
  show "\<forall>v \<in> ran (sim_coil st). is_bool v" "\<forall>v \<in> ran (sim_discrete st). is_bool v"
    by (rule load_section_ran [OF loads(3)] load_section_ran [OF loads(4)], erule json_conv(2))+
qed

lemma sim_state_ran:
  assumes "build_sim_state config h i c d = Inr st"
  defines "reg \<equiv> \<lambda>v. is_int v \<or> config \<noteq> None \<and> is_bool v"
  shows "\<forall>v \<in> ran (sim_holding st). reg v" "\<forall>v \<in> ran (sim_input st). reg v"
    "\<forall>v \<in> ran (sim_coil st). is_bool v" "\<forall>v \<in> ran (sim_discrete st). is_bool v"
proof -
  obtain st0 hm im cm dm where
    init: "(case config of None \<Rightarrow> Inr sim_init | Some data \<Rightarrow> load_config_into_state sim_init data) = Inr st0"
    and maps: "parse_int_map h = Inr hm" "parse_int_map i = Inr im" "parse_bool_map c = Inr cm" "parse_bool_map d = Inr dm"
    and st: "st = \<lparr>sim_holding = sim_holding st0 ++ hm, sim_input = sim_input st0 ++ im, sim_coil = sim_coil st0 ++ cm,
            sim_discrete = sim_discrete st0 ++ dm\<rparr>"
    using assms(1) by (auto simp: build_sim_state_def bindE_eq_Inr)
  have "(\<forall>v \<in> ran (sim_holding st0). reg v) \<and> (\<forall>v \<in> ran (sim_input st0). reg v) \<and>
      (\<forall>v \<in> ran (sim_coil st0). is_bool v) \<and> (\<forall>v \<in> ran (sim_discrete st0). is_bool v)"
  proof (cases config)
    case None
    then show ?thesis using init by (auto simp: sim_init_def)
  next
    case (Some data)
    then show ?thesis using init load_config_ran [of data st0] by (simp add: reg_def)
  qed
  then have init_ran: "\<forall>v \<in> ran (sim_holding st0). reg v" "\<forall>v \<in> ran (sim_input st0). reg v"
      "\<forall>v \<in> ran (sim_coil st0). is_bool v" "\<forall>v \<in> ran (sim_discrete st0). is_bool v" by blast+
  have map_ran: "\<forall>v \<in> ran hm. reg v" "\<forall>v \<in> ran im. reg v"
    using parse_maps_ran(1) [OF maps(1)] parse_maps_ran(1) [OF maps(2)] by (simp_all add: reg_def)
  show "\<forall>v \<in> ran (sim_holding st). reg v" "\<forall>v \<in> ran (sim_input st). reg v"
    "\<forall>v \<in> ran (sim_coil st). is_bool v" "\<forall>v \<in> ran (sim_discrete st). is_bool v"
    unfolding st sim_state.simps
    using ball_ran_add [OF init_ran(1) map_ran(1)] ball_ran_add [OF init_ran(2) map_ran(2)]
      ball_ran_add [OF init_ran(3) parse_maps_ran(2) [OF maps(3)]]
      ball_ran_add [OF init_ran(4) parse_maps_ran(2) [OF maps(4)]] by simp_all
qed

lemma is_val_iff: "is_int v \<longleftrightarrow> (\<exists>n. v = PInt n)" "is_bool v \<longleftrightarrow> (\<exists>b. v = PBool b)"
  by (cases v; simp)+

lemma all_areas: "(\<forall>a. P a) \<longleftrightarrow> P HOLDING_REGISTER \<and> P INPUT_REGISTER \<and> P COIL \<and> P DISCRETE_INPUT"
  by (metis area.exhaust)

text \<open>
  C37: the types of the simulator's cells.  Whatever the options and the configuration file say, if the
  simulator starts then every coil and discrete input holds a bool, and every register holds an
  integer or, only if there is a configuration file, a bool that the file gave as a register's value.
  Without a file the state is well typed, as the server requires, exactly if the registers are in
  range; nothing else checks them.
\<close>

theorem sim_state_types:
  assumes "build_sim_state config h i c d = Inr st"
  shows "(\<forall>a \<in> {COIL, DISCRETE_INPUT}. \<forall>x v. sim_store st a x = Some v \<longrightarrow> (\<exists>b. v = PBool b)) \<and>
    (\<forall>a \<in> {HOLDING_REGISTER, INPUT_REGISTER}. \<forall>x v. sim_store st a x = Some v \<longrightarrow>
      (\<exists>n. v = PInt n) \<or> config \<noteq> None \<and> (\<exists>b. v = PBool b)) \<and>
    (config = None \<longrightarrow>
      (sim.typed st \<longleftrightarrow> (\<forall>a \<in> {HOLDING_REGISTER, INPUT_REGISTER}. \<forall>x n. sim_store st a x = Some (PInt n) \<longrightarrow> 0 \<le> n \<and> n \<le> 0xFFFF)))"
proof -
  note cells = sim_state_ran [OF assms, unfolded is_val_iff ball_ran]
  have "config = None \<Longrightarrow> sim.typed st \<longleftrightarrow> (\<forall>a \<in> {HOLDING_REGISTER, INPUT_REGISTER}. \<forall>x n. sim_store st a x = Some (PInt n) \<longrightarrow> 0 \<le> n \<and> n \<le> 0xFFFF)"
    using cells by (simp add: sim.typed_def all_areas) blast
  then show ?thesis using cells by (simp add: all_areas)
qed

text \<open>
  C36: the options of \<open>pymod serve\<close> say the initial state.  For options that list addresses with values,
  decimal or hexadecimal, each dictionary is the one of the configuration file, if there is one,
  with the listed entries on top; a later entry for an address replaces an earlier one.
\<close>

theorem sim_spec_roundtrip:
  assumes "spec_text int_value h hs" "spec_text int_value i is" "spec_text bool_value c cs" "spec_text bool_value d ds"
    and "case config of None \<Rightarrow> st = sim_init | Some data \<Rightarrow> load_config_into_state sim_init data = Inr st"
  shows "build_sim_state config h i c d = Inr \<lparr>sim_holding = sim_holding st ++ map_of (rev hs),
    sim_input = sim_input st ++ map_of (rev is), sim_coil = sim_coil st ++ map_of (rev cs),
    sim_discrete = sim_discrete st ++ map_of (rev ds)\<rparr>"
  using assms(5) parse_maps_text(1) [OF assms(1)] parse_maps_text(1) [OF assms(2)]
    parse_maps_text(2) [OF assms(3)] parse_maps_text(2) [OF assms(4)]
  by (simp add: build_sim_state_def split: option.splits)

theorem sim_spec_roundtrip_witness:
  "build_sim_state None ''0=5,0x01=7,0=6'' '''' ''3=on'' '''' = Inr \<lparr>sim_holding = [0 \<mapsto> PInt 6, 1 \<mapsto> PInt 7],
    sim_input = Map.empty, sim_coil = [3 \<mapsto> PBool True], sim_discrete = Map.empty\<rparr>"
proof -
  have "py_str_int 0 = ''0''" "py_str_int 3 = ''3''" "py_str_int 5 = ''5''" "py_str_int 6 = ''6''" "py_str_int 7 = ''7''" "''01'' = py_hex 2 1"
    by code_simp+
  then have texts: "int_text ''0'' 0" "int_text ''3'' 3" "int_text ''5'' 5" "int_text ''6'' 6" "int_text ''7'' 7" "int_text ''0x01'' 1"
    unfolding int_text_def by auto
  have "piece_text int_value ''0=5'' (0, PInt 5)" "piece_text int_value ''0x01=7'' (1, PInt 7)"
    "piece_text int_value ''0=6'' (0, PInt 6)" "piece_text bool_value ''3=on'' (3, PBool True)"
    unfolding piece_text_def
    by (rule exI2 [of _ "''0''" "''5''"] exI2 [of _ "''0x01''" "''7''"] exI2 [of _ "''0''" "''6''"] exI2 [of _ "''3''" "''on''"],
      simp add: texts)+
  then have "spec_text int_value ''0=5,0x01=7,0=6'' [(0, PInt 5), (1, PInt 7), (0, PInt 6)]"
    "spec_text bool_value ''3=on'' [(3, PBool True)]"
    unfolding spec_text_def
    by (intro exI [of _ "[''0=5'', ''0x01=7'', ''0=6'']"] exI [of _ "[''3=on'']"], simp)+
  moreover have "spec_text int_value '''' []" "spec_text bool_value '''' []"
    unfolding spec_text_def by (rule exI [of _ "[]"], simp)+
  ultimately show ?thesis
    using sim_spec_roundtrip [of "''0=5,0x01=7,0=6''" "[(0, PInt 5), (1, PInt 7), (0, PInt 6)]" "''''" "[]" "''3=on''"
        "[(3, PBool True)]" "''''" "[]" sim_init None]
    by (simp add: sim_init_def fun_eq_iff)
qed

theorem sim_state_types_witness:
  "\<exists>st. build_sim_state None ''1=2'' '''' '''' '''' = Inr st \<and> sim.typed st"
proof -
  have "build_sim_state None ''1=2'' '''' '''' '''' = Inr (sim_init\<lparr>sim_holding := [1 \<mapsto> PInt 2]\<rparr>)"
    by (simp add: build_sim_state_def parse_int_map_def parse_bool_map_def py_strip_def is_space_def py_partition_def
        int_base0_def parse_unsigned_def digit_val_def sim_init_def Let_def)
  from this sim_state_types [OF this] show ?thesis by (auto simp: sim_init_def split: if_splits)
qed

end
