(* ===== verification/Guide_Laws.thy ===== *)
theory Guide_Laws
  imports Cli_Main Cli_Laws
begin

text \<open>
  Laws of the wizard: what it lets through, and that the command line it shows is parsed back to the
  namespace it has built.
\<close>

section \<open>What the wizard lets through\<close>

text \<open>A wizard ends with a value that satisfies \<open>P\<close>, or because the user gave up.\<close>

definition yields :: "'a wizard \<Rightarrow> ('a \<Rightarrow> bool) \<Rightarrow> bool" where
  "yields m P \<longleftrightarrow> (\<forall>evs. case fst (m evs) of Inl e \<Rightarrow> e \<in> {EOFError, KeyboardInterrupt} | Inr x \<Rightarrow> P x)"

lemma yields_pure [intro]: "P x \<Longrightarrow> yields (pureS (Inr x)) P"
  by (simp add: yields_def pureS_def)

lemma yields_bind:
  assumes "yields m Q" "\<And>x. Q x \<Longrightarrow> yields (f x) P"
  shows "yields (bindS m f) P"
  unfolding yields_def
proof
  fix evs
  obtain r evs' where r: "m evs = (r, evs')" by fastforce
  show "case fst (bindS m f evs) of Inl e \<Rightarrow> e \<in> {EOFError, KeyboardInterrupt} | Inr x \<Rightarrow> P x"
  proof (cases r)
    case (Inl e)
    with assms(1) r show ?thesis by (auto simp: yields_def bindS_def dest!: spec [of _ evs])
  next
    case (Inr x)
    with assms(1) r have "Q x" by (auto simp: yields_def dest!: spec [of _ evs])
    from assms(2) [OF this] r Inr show ?thesis by (simp add: yields_def bindS_def)
  qed
qed

lemma yields_mono: "yields m Q \<Longrightarrow> (\<And>x. Q x \<Longrightarrow> P x) \<Longrightarrow> yields m P"
  unfolding yields_def by (metis (no_types, lifting) sum.case_eq_if)

lemma yields_prompt:
  assumes "\<And>raw a. answer raw = Some a \<Longrightarrow> P a"
  shows "yields (prompt answer) P"
  unfolding yields_def
proof
  show "case fst (prompt answer evs) of Inl e \<Rightarrow> e \<in> {EOFError, KeyboardInterrupt} | Inr x \<Rightarrow> P x" for evs
    using assms by (induction answer evs rule: prompt.induct) (auto split: option.splits)
qed

lemma yields_ask: "(\<And>d. dflt = Some d \<Longrightarrow> d \<noteq> []) \<Longrightarrow> yields (ask dflt) (\<lambda>s. s \<noteq> [])"
  unfolding ask_def by (rule yields_prompt) (auto simp: answer_text_def split: if_splits)

lemma yields_ask_int: "yields (ask_int dflt (Some m)) (\<lambda>n. m \<le> n)"
  unfolding ask_int_def by (rule yields_prompt) (auto split: option.splits sum.splits if_splits)

lemma yields_ask_float: "yields (ask_float float_of_str float_repr dflt) (\<lambda>_. True)"
  unfolding ask_float_def by (rule yields_prompt) simp

lemma yields_ask_yes_no: "yields (ask_yes_no dflt) (\<lambda>_. True)"
  unfolding ask_yes_no_def by (rule yields_prompt) simp

lemma yields_ask_choice: "default_index < length choices \<Longrightarrow> yields (ask_choice choices default_index) (\<lambda>v. v \<in> snd ` set choices)"
  unfolding ask_choice_def
proof (rule yields_prompt)
  fix raw v
  assume i: "default_index < length choices" and v: "selection choices default_index raw = Some v"
  have nth: "snd (choices ! k) \<in> snd ` set choices" if "k < length choices" for k using that by simp
  have mp: "map_of choices raw = Some v \<Longrightarrow> v \<in> snd ` set choices" by (force dest: map_of_SomeD)
  show "v \<in> snd ` set choices"
    using v i unfolding selection_def Let_def
    by (auto split: if_splits option.splits sum.splits intro!: nth dest: mp)
qed

lemmas yields_asks = yields_ask yields_ask_int yields_ask_float yields_ask_yes_no yields_ask_choice

definition conn_ok :: "conn_args \<Rightarrow> bool" where
  "conn_ok ns \<longleftrightarrow> ca_bytesize ns = 8 \<and> ca_stopbits ns = PInt 1 \<and> 0 \<le> ca_unit_id ns \<and> 0 \<le> ca_retries ns \<and>
     ((\<exists>p. p \<noteq> [] \<and> ca_rtu ns = Some p \<and> ca_host ns = None \<and> ca_port ns = 502 \<and> \<not> ca_rtu_over_tcp ns \<and>
         300 \<le> ca_baudrate ns \<and> ca_parity ns \<in> snd ` set PARITY_CHOICES) \<or>
      (\<exists>h. h \<noteq> [] \<and> ca_host ns = Some h \<and> ca_rtu ns = None \<and> 1 \<le> ca_port ns \<and> ca_baudrate ns = 9600 \<and> ca_parity ns = ''N''))"

definition read_ok :: "read_args \<Rightarrow> bool" where
  "read_ok ns \<longleftrightarrow> 0 \<le> ra_start ns \<and> 1 \<le> ra_count ns \<and>
     (ra_area ns \<in> {COIL, DISCRETE_INPUT} \<longrightarrow> ra_dtype ns = UInt16) \<and>
     (ra_dtype ns \<notin> set WIDE_DTYPES \<longrightarrow> ra_word_order ns = Big \<and> ra_byte_order ns = Big) \<and>
     (if ra_dtype ns = Bit then (\<exists>i \<ge> 0. ra_bit_index ns = Some i) else ra_bit_index ns = None) \<and>
     (if ra_dtype ns = Bits then (\<exists>s. s \<noteq> [] \<and> ra_bit_indices ns = Some s) else ra_bit_indices ns = None) \<and>
     (ra_dtype ns \<notin> {Bit, Bits} \<longrightarrow> ra_bit_numbering ns = LsbFirst)"

definition write_ok :: "write_args \<Rightarrow> bool" where
  "write_ok ns \<longleftrightarrow> 0 \<le> wa_start ns \<and> wa_values ns \<noteq> [] \<and> wa_area ns \<in> {HOLDING_REGISTER, COIL} \<and>
     wa_dtype ns \<notin> {Bit, Bits} \<and> (wa_area ns = COIL \<longrightarrow> wa_dtype ns = UInt16) \<and>
     (wa_dtype ns \<notin> set WIDE_DTYPES \<longrightarrow> wa_word_order ns = Big \<and> wa_byte_order ns = Big)"

fun command_ok :: "command \<Rightarrow> bool" where
  "command_ok (ReadCmd ca ra) = (conn_ok ca \<and> read_ok ra)"
| "command_ok (WriteCmd ca wa) = (conn_ok ca \<and> write_ok wa)"
| "command_ok (ScanCmd ca sa) = (conn_ok ca \<and> 0 \<le> sa_start sa)"
| "command_ok (ServeCmd sv) = False"

lemma yields_transport:
  "yields ask_transport (\<lambda>ns. conn_ok (ns\<lparr>ca_unit_id := 1, ca_retries := 1\<rparr>))"
  unfolding ask_transport_def Let_def
  by (rule yields_bind [OF yields_ask_choice], simp add: TRANSPORTS_def)
    (auto split: transport_kind.splits simp: conn_ok_def PARITY_CHOICES_def intro!: yields_bind [OF yields_ask] yields_bind [OF yields_ask_int]
      yields_bind [OF yields_ask_choice])

lemma yields_call_args: "conn_ok (ns\<lparr>ca_unit_id := 1, ca_retries := 1\<rparr>) \<Longrightarrow> yields (ask_call_args float_of_str float_repr ns) conn_ok"
  unfolding ask_call_args_def
  by (intro yields_bind [OF yields_ask_int] yields_bind [OF yields_ask_float] yields_pure) (simp add: conn_ok_def)

lemma yields_orders: "yields (ask_orders d) (\<lambda>(w, b). d \<notin> set WIDE_DTYPES \<longrightarrow> w = Big \<and> b = Big)"
  unfolding ask_orders_def
  by (auto simp: ORDER_CHOICES_def intro!: yields_bind [OF yields_ask_choice])

lemma yields_bits: "yields (ask_bits d) (\<lambda>(i, s, n).
    (if d = Bit then (\<exists>k \<ge> 0. i = Some k) else i = None) \<and> (if d = Bits then (\<exists>t. t \<noteq> [] \<and> s = Some t) else s = None) \<and>
    (d \<notin> {Bit, Bits} \<longrightarrow> n = LsbFirst))"
  unfolding ask_bits_def
  by (auto simp: NUMBERING_CHOICES_def intro!: yields_bind [OF yields_ask_choice] yields_bind [OF yields_ask_int] yields_bind [OF yields_ask])

lemma yields_read: "yields ask_read read_ok"
  unfolding ask_read_def
proof (intro yields_bind [OF yields_ask_choice] yields_bind [OF yields_ask_int])
  fix a :: area and s :: int
  assume s: "0 \<le> s"
  show "yields (if a = HOLDING_REGISTER \<or> a = INPUT_REGISTER then
         bindS (ask_int None (Some 1)) (\<lambda>count.
         bindS (ask_choice READ_DTYPES 0) (\<lambda>dtype.
         bindS (ask_orders dtype) (\<lambda>(word_order, byte_order).
         bindS (ask_bits dtype) (\<lambda>(bit_index, bit_indices, bit_numbering).
         bindS (ask_yes_no False) (\<lambda>json.
           pureS (Inr \<lparr>ra_area = a, ra_start = s, ra_count = count, ra_dtype = dtype, ra_word_order = word_order,
             ra_byte_order = byte_order, ra_bit_index = bit_index, ra_bit_indices = bit_indices,
             ra_bit_numbering = bit_numbering, ra_json = json\<rparr>))))))
       else
         bindS (ask_int None (Some 1)) (\<lambda>count.
         bindS (ask_yes_no False) (\<lambda>json.
           pureS (Inr \<lparr>ra_area = a, ra_start = s, ra_count = count, ra_dtype = UInt16, ra_word_order = Big,
             ra_byte_order = Big, ra_bit_index = None, ra_bit_indices = None, ra_bit_numbering = LsbFirst,
             ra_json = json\<rparr>)))) read_ok"
  proof (cases "a = HOLDING_REGISTER \<or> a = INPUT_REGISTER")
    case True
    then show ?thesis using s
      by (auto simp: READ_DTYPES_def read_ok_def simp del: One_nat_def
          intro!: yields_bind [OF yields_ask_int] yields_bind [OF yields_ask_choice] yields_bind [OF yields_orders]
            yields_bind [OF yields_bits] yields_bind [OF yields_ask_yes_no])
  next
    case False
    then show ?thesis using s
      by (auto simp: read_ok_def intro!: yields_bind [OF yields_ask_int] yields_bind [OF yields_ask_yes_no])
  qed
qed (simp add: READ_AREAS_def)

lemma yields_write: "yields ask_write write_ok"
  unfolding ask_write_def
  by (rule yields_bind [OF yields_ask_choice], simp add: WRITE_AREAS_def, rule yields_bind [OF yields_ask_int])
    (auto simp: WRITE_AREAS_def WRITE_DTYPES_def write_ok_def intro!: yields_bind [OF yields_ask_choice]
      yields_bind [OF yields_ask] yields_bind [OF yields_orders] yields_bind [OF yields_ask_yes_no])

lemma yields_scan: "yields ask_scan (\<lambda>sa. 0 \<le> sa_start sa)"
  unfolding ask_scan_def
  by (auto intro!: yields_bind [OF yields_ask_int] yields_bind [OF yields_ask_yes_no])

lemma yields_build:
  "yields (build_namespace float_of_str float_repr)
     (\<lambda>(s, cmd). case cmd of None \<Rightarrow> True | Some c \<Rightarrow> command_ok c \<and> s = equivalent_command float_repr c)"
  unfolding build_namespace_def
proof (rule yields_bind [OF yields_ask_choice], simp add: OPS_def, rule yields_bind [OF yields_transport],
    rule yields_bind [OF yields_call_args], assumption, rule yields_bind [where Q = command_ok])
  fix op and ns :: conn_args assume ns: "conn_ok ns"
  show "yields (case op of OpRead \<Rightarrow> bindS ask_read (\<lambda>ra. pureS (Inr (ReadCmd ns ra)))
       | OpWrite \<Rightarrow> bindS ask_write (\<lambda>wa. pureS (Inr (WriteCmd ns wa)))
       | OpScan \<Rightarrow> bindS ask_scan (\<lambda>sa. pureS (Inr (ScanCmd ns sa)))) command_ok"
    using ns by (cases op) (auto intro!: yields_bind [OF yields_read] yields_bind [OF yields_write] yields_bind [OF yields_scan])
next
  fix cmd assume "command_ok cmd"
  then show "yields (bindS (ask_yes_no True) (\<lambda>execute.
       pureS (Inr (equivalent_command float_repr cmd, if execute then Some cmd else None))))
     (\<lambda>(s, cmd). case cmd of None \<Rightarrow> True | Some c \<Rightarrow> command_ok c \<and> s = equivalent_command float_repr c)"
    by (auto intro!: yields_bind [OF yields_ask_yes_no])
qed

section \<open>The command line that the wizard shows\<close>

definition upd :: "bool \<Rightarrow> string \<Rightarrow> string \<Rightarrow> (string \<rightharpoonup> string) \<Rightarrow> (string \<rightharpoonup> string)" where
  "upd c f v m = (if c then m(f \<mapsto> v) else m)"

lemma upd_apply [simp]: "upd c f v m g = (if g = f \<and> c then Some v else m g)"
  by (simp add: upd_def)

text \<open>How the parser takes the words of one option.\<close>

lemma parse_option:
  "kind f = Some True \<Longrightarrow> parse_words kind (shown c [f, v] @ rest) m =
     (if c \<and> \<not> is_value v then Inl SystemExit else parse_words kind rest (upd c f v m))"
  "kind f = Some True \<Longrightarrow> parse_words kind (f # v # rest) m =
     (if is_value v then parse_words kind rest (upd True f v m) else Inl SystemExit)"
  "kind f = Some False \<Longrightarrow> parse_words kind (shown c [f] @ rest) m = parse_words kind rest (upd c f '''' m)"
  by (simp_all add: shown_def upd_def)

lemma parse_last_flag: "kind f = Some False \<Longrightarrow> parse_words kind (shown c [f]) m = Inr (upd c f '''' m)"
  using parse_option(3) [of kind f c "[]" m] by simp

lemma is_value_str: "0 \<le> n \<Longrightarrow> is_value (py_str_int n)"
proof -
  assume "0 \<le> n"
  have "hd (py_str_int n) \<in> set (digits_of 10 (nat n))"
    using \<open>0 \<le> n\<close> digits_of_chars [of 10 "nat n"] by (simp add: py_str_int_def)
  then obtain d where "hd (py_str_int n) = digit_char d" "d < 10"
    using digits_of_chars [of 10 "nat n"] by auto
  then have "hd (py_str_int n) \<noteq> CHR ''-''" using digit_char_ok(5) [of d] by simp
  then show ?thesis by (simp add: is_value_def)
qed

text \<open>The text of the user that names the device, and the options that \<open>conn_words\<close> gives.\<close>

definition device_text :: "conn_args \<Rightarrow> string" where
  "device_text ns = (case ca_rtu ns of Some p \<Rightarrow> p | None \<Rightarrow> the (ca_host ns))"

definition conn_map :: "(pyfloat \<Rightarrow> string) \<Rightarrow> conn_args \<Rightarrow> (string \<rightharpoonup> string)" where
  "conn_map float_repr ns =
     upd (ca_retries ns \<noteq> 1) ''--retries'' (py_str_int (ca_retries ns))
    (upd (ca_timeout_s ns \<noteq> HALF) ''--timeout'' (float_repr (ca_timeout_s ns))
    (upd (ca_unit_id ns \<noteq> 1) ''--unit-id'' (py_str_int (ca_unit_id ns))
      (if ca_rtu ns \<noteq> None then
         upd (ca_parity ns \<noteq> ''N'') ''--parity'' (ca_parity ns)
        (upd (ca_baudrate ns \<noteq> 9600) ''--baudrate'' (py_str_int (ca_baudrate ns))
        (upd True ''--rtu'' (device_text ns) Map.empty))
       else
         upd (ca_rtu_over_tcp ns) ''--rtu-over-tcp'' ''''
        (upd (ca_port ns \<noteq> 502) ''--port'' (py_str_int (ca_port ns))
        (upd True ''--host'' (device_text ns) Map.empty)))))"

definition conn_plain :: "(pyfloat \<Rightarrow> string) \<Rightarrow> conn_args \<Rightarrow> bool" where
  "conn_plain float_repr ns \<longleftrightarrow>
     is_value (device_text ns) \<and> (ca_timeout_s ns \<noteq> HALF \<longrightarrow> is_value (float_repr (ca_timeout_s ns)))"

lemma parse_conn_words:
  assumes "conn_ok ns" "\<And>f b. map_of (TRANSPORT_OPTIONS @ CALL_OPTIONS) f = Some b \<Longrightarrow> kind f = Some b"
  shows "parse_words kind (conn_words id float_repr ns @ rest) Map.empty =
    (if conn_plain float_repr ns then parse_words kind rest (conn_map float_repr ns) else Inl SystemExit)"
proof -
  have kinds: "kind ''--host'' = Some True" "kind ''--port'' = Some True" "kind ''--rtu'' = Some True"
    "kind ''--baudrate'' = Some True" "kind ''--parity'' = Some True" "kind ''--rtu-over-tcp'' = Some False"
    "kind ''--unit-id'' = Some True" "kind ''--timeout'' = Some True" "kind ''--retries'' = Some True"
    by (rule assms(2), simp add: TRANSPORT_OPTIONS_def CALL_OPTIONS_def)+
  have parity: "is_value p" if "p \<in> snd ` set PARITY_CHOICES" for p
    using that by (auto simp: PARITY_CHOICES_def is_value_def)
  show ?thesis
  proof (cases "ca_rtu ns")
    case None
    with assms(1) obtain h where "ca_host ns = Some h" "1 \<le> ca_port ns" "0 \<le> ca_unit_id ns" "0 \<le> ca_retries ns"
      by (auto simp: conn_ok_def)
    with None show ?thesis
      by (simp add: conn_words_def conn_map_def conn_plain_def device_text_def parse_option kinds is_value_str del: parse_words.simps)
  next
    case (Some p)
    with assms(1) have "p \<noteq> []" "300 \<le> ca_baudrate ns" "ca_parity ns \<in> snd ` set PARITY_CHOICES" "0 \<le> ca_unit_id ns" "0 \<le> ca_retries ns"
      by (auto simp: conn_ok_def)
    with Some parity show ?thesis
      by (simp add: conn_words_def conn_map_def conn_plain_def device_text_def parse_option kinds is_value_str del: parse_words.simps)
  qed
qed

lemma arg_simps [simp]:
  "m f = None \<Longrightarrow> arg m f conv dflt = dflt"
  "m f = Some s \<Longrightarrow> conv s = Inr v \<Longrightarrow> arg m f conv dflt = Inr v"
  by (simp_all add: arg_def)

lemma arg_if: "m f = (if c then Some s else None) \<Longrightarrow> (c \<Longrightarrow> conv s = Inr v) \<Longrightarrow> (\<not> c \<Longrightarrow> dflt = Inr v) \<Longrightarrow> arg m f conv dflt = Inr v"
  by (cases c) (simp_all add: arg_def)

lemma add_args_conn_map:
  assumes "conn_ok ns" "float_of_str (float_repr (ca_timeout_s ns)) = Inr (ca_timeout_s ns)"
    and "\<And>f. f \<in> set (map fst (TRANSPORT_OPTIONS @ CALL_OPTIONS)) \<Longrightarrow> m f = conn_map float_repr ns f"
  shows "add_transport_and_call_args float_of_str m = Inr ns"
proof -
  have at: "m ''--host'' = (if ca_rtu ns = None then Some (device_text ns) else None)"
    "m ''--port'' = (if ca_rtu ns = None \<and> ca_port ns \<noteq> 502 then Some (py_str_int (ca_port ns)) else None)"
    "m ''--rtu'' = (if ca_rtu ns \<noteq> None then Some (device_text ns) else None)"
    "m ''--baudrate'' = (if ca_rtu ns \<noteq> None \<and> ca_baudrate ns \<noteq> 9600 then Some (py_str_int (ca_baudrate ns)) else None)"
    "m ''--bytesize'' = None"
    "m ''--parity'' = (if ca_rtu ns \<noteq> None \<and> ca_parity ns \<noteq> ''N'' then Some (ca_parity ns) else None)"
    "m ''--stopbits'' = None"
    "m ''--rtu-over-tcp'' = (if ca_rtu ns = None \<and> ca_rtu_over_tcp ns then Some '''' else None)"
    "m ''--unit-id'' = (if ca_unit_id ns \<noteq> 1 then Some (py_str_int (ca_unit_id ns)) else None)"
    "m ''--timeout'' = (if ca_timeout_s ns \<noteq> HALF then Some (float_repr (ca_timeout_s ns)) else None)"
    "m ''--retries'' = (if ca_retries ns \<noteq> 1 then Some (py_str_int (ca_retries ns)) else None)"
    by (subst assms(3), simp add: TRANSPORT_OPTIONS_def CALL_OPTIONS_def, simp add: conn_map_def)+
  have ok: "ca_bytesize ns = 8" "ca_stopbits ns = PInt 1" "0 \<le> ca_unit_id ns" "0 \<le> ca_retries ns" using assms(1) by (auto simp: conn_ok_def)
  have parity: "choice PARITY_CHOICES (ca_parity ns) = Inr (ca_parity ns)" "0 \<le> ca_port ns" "0 \<le> ca_baudrate ns"
    using assms(1) by (auto simp: conn_ok_def PARITY_CHOICES_def choice_def)
  have dev: "ca_rtu ns \<noteq> None \<Longrightarrow> Some (device_text ns) = ca_rtu ns" "ca_rtu ns \<noteq> None \<Longrightarrow> None = ca_host ns"
    "ca_rtu ns = None \<Longrightarrow> Some (device_text ns) = ca_host ns" "\<not> (ca_rtu ns = None \<and> ca_port ns \<noteq> 502) \<Longrightarrow> 502 = ca_port ns"
    "\<not> (ca_rtu ns \<noteq> None \<and> ca_baudrate ns \<noteq> 9600) \<Longrightarrow> 9600 = ca_baudrate ns"
    "\<not> (ca_rtu ns \<noteq> None \<and> ca_parity ns \<noteq> ''N'') \<Longrightarrow> ''N'' = ca_parity ns"
    "(ca_rtu ns = None \<and> ca_rtu_over_tcp ns) = ca_rtu_over_tcp ns"
    using assms(1) by (auto simp: conn_ok_def device_text_def)
  have "arg m ''--host'' (\<lambda>s. Inr (Some s)) (Inr None) = Inr (ca_host ns)"
    by (rule arg_if, rule at) (drule dev(3), simp, drule dev(2), simp)
  moreover have "arg m ''--port'' int_base10 (Inr 502) = Inr (ca_port ns)"
    by (rule arg_if, rule at) (simp add: int_base10_str parity(2), drule dev(4), simp)
  moreover have "arg m ''--rtu'' (\<lambda>s. Inr (Some s)) (Inr None) = Inr (ca_rtu ns)"
    by (rule arg_if, rule at) (drule dev(1), simp, simp)
  moreover have "arg m ''--baudrate'' int_base10 (Inr 9600) = Inr (ca_baudrate ns)"
    by (rule arg_if, rule at) (simp add: int_base10_str parity(3), drule dev(5), simp)
  moreover have "arg m ''--parity'' (choice PARITY_CHOICES) (Inr ''N'') = Inr (ca_parity ns)"
    by (rule arg_if, rule at, rule parity(1)) (drule dev(6), simp)
  moreover have "arg m ''--unit-id'' int_base10 (Inr 1) = Inr (ca_unit_id ns)"
    by (rule arg_if, rule at) (simp_all add: int_base10_str ok)
  moreover have "arg m ''--timeout'' float_of_str (Inr HALF) = Inr (ca_timeout_s ns)"
    by (rule arg_if, rule at) (simp_all add: assms(2))
  moreover have "arg m ''--retries'' int_base10 (Inr 1) = Inr (ca_retries ns)"
    by (rule arg_if, rule at) (simp_all add: int_base10_str ok)
  moreover have "(m ''--rtu-over-tcp'' \<noteq> None) = ca_rtu_over_tcp ns" using dev(7) by (simp only: at) simp
  ultimately show ?thesis using ok by (simp add: add_transport_and_call_args_def at)
qed

lemma conn_map_none [simp]:
  "f \<notin> set (map fst (TRANSPORT_OPTIONS @ CALL_OPTIONS)) \<Longrightarrow> conn_map float_repr ns f = None"
  by (auto simp: conn_map_def TRANSPORT_OPTIONS_def CALL_OPTIONS_def)

text \<open>The names in the choices stand for their values, and can be values of an option.\<close>

lemma names [simp]:
  "choice AREA_CHOICES_READ (name_of READ_AREAS a) = Inr a" "is_value (name_of READ_AREAS a)"
  "b \<in> {HOLDING_REGISTER, COIL} \<Longrightarrow> choice AREA_CHOICES_WRITE (name_of WRITE_AREAS b) = Inr b"
  "b \<in> {HOLDING_REGISTER, COIL} \<Longrightarrow> is_value (name_of WRITE_AREAS b)"
  "choice DTYPE_CHOICES_READ (name_of READ_DTYPES d) = Inr d" "is_value (name_of READ_DTYPES d)"
  "d \<notin> {Bit, Bits} \<Longrightarrow> choice DTYPE_CHOICES_WRITE (name_of WRITE_DTYPES d) = Inr d"
  "d \<notin> {Bit, Bits} \<Longrightarrow> is_value (name_of WRITE_DTYPES d)"
  "choice ORDER_CHOICES (name_of ORDER_CHOICES w) = Inr w" "is_value (name_of ORDER_CHOICES w)"
  "choice NUMBERING_CHOICES (name_of NUMBERING_CHOICES n) = Inr n" "is_value (name_of NUMBERING_CHOICES n)"
proof -
  show "choice AREA_CHOICES_READ (name_of READ_AREAS a) = Inr a" "is_value (name_of READ_AREAS a)"
    by (cases a; simp add: choice_def AREA_CHOICES_READ_def name_of_def READ_AREAS_def is_value_def)+
  show "b \<in> {HOLDING_REGISTER, COIL} \<Longrightarrow> choice AREA_CHOICES_WRITE (name_of WRITE_AREAS b) = Inr b"
    "b \<in> {HOLDING_REGISTER, COIL} \<Longrightarrow> is_value (name_of WRITE_AREAS b)"
    by (cases b; simp add: choice_def AREA_CHOICES_WRITE_def name_of_def WRITE_AREAS_def is_value_def)+
  show "choice DTYPE_CHOICES_READ (name_of READ_DTYPES d) = Inr d" "is_value (name_of READ_DTYPES d)"
    by (cases d; simp add: choice_def DTYPE_CHOICES_READ_def DTYPE_CHOICES_WRITE_def name_of_def READ_DTYPES_def is_value_def)+
  show "d \<notin> {Bit, Bits} \<Longrightarrow> choice DTYPE_CHOICES_WRITE (name_of WRITE_DTYPES d) = Inr d"
    "d \<notin> {Bit, Bits} \<Longrightarrow> is_value (name_of WRITE_DTYPES d)"
    by (cases d; simp add: choice_def DTYPE_CHOICES_WRITE_def name_of_def WRITE_DTYPES_def is_value_def)+
  show "choice ORDER_CHOICES (name_of ORDER_CHOICES w) = Inr w" "is_value (name_of ORDER_CHOICES w)"
    by (cases w; simp add: choice_def ORDER_CHOICES_def name_of_def is_value_def)+
  show "choice NUMBERING_CHOICES (name_of NUMBERING_CHOICES n) = Inr n" "is_value (name_of NUMBERING_CHOICES n)"
    by (cases n; simp add: choice_def NUMBERING_CHOICES_def name_of_def is_value_def)+
qed

definition read_map :: "read_args \<Rightarrow> (string \<rightharpoonup> string) \<Rightarrow> (string \<rightharpoonup> string)" where
  "read_map ns m =
     upd (ra_json ns) ''--json'' ''''
    (upd (ra_bit_numbering ns \<noteq> LsbFirst) ''--bit-numbering'' (name_of NUMBERING_CHOICES (ra_bit_numbering ns))
    (upd (ra_bit_indices ns \<noteq> None) ''--bit-indices'' (the (ra_bit_indices ns))
    (upd (ra_bit_index ns \<noteq> None) ''--bit-index'' (py_str_int (the (ra_bit_index ns)))
    (upd (ra_byte_order ns \<noteq> Big) ''--byte-order'' (name_of ORDER_CHOICES (ra_byte_order ns))
    (upd (ra_word_order ns \<noteq> Big) ''--word-order'' (name_of ORDER_CHOICES (ra_word_order ns))
    (upd (ra_dtype ns \<noteq> UInt16) ''--dtype'' (name_of READ_DTYPES (ra_dtype ns))
    (upd True ''--count'' (py_str_int (ra_count ns))
    (upd True ''--start'' (py_str_int (ra_start ns))
    (upd True ''--area'' (name_of READ_AREAS (ra_area ns)) m)))))))))"

lemma parse_read_words:
  assumes "read_ok ns"
  shows "parse_words (map_of READ_OPTIONS) (read_words id ns) m =
    (if ra_bit_indices ns \<noteq> None \<longrightarrow> is_value (the (ra_bit_indices ns)) then Inr (read_map ns m) else Inl SystemExit)"
proof -
  let ?k = "map_of READ_OPTIONS"
  have kinds: "?k ''--area'' = Some True" "?k ''--start'' = Some True" "?k ''--count'' = Some True" "?k ''--dtype'' = Some True"
    "?k ''--word-order'' = Some True" "?k ''--byte-order'' = Some True" "?k ''--bit-index'' = Some True"
    "?k ''--bit-indices'' = Some True" "?k ''--bit-numbering'' = Some True" "?k ''--json'' = Some False"
    by (simp_all add: READ_OPTIONS_def TRANSPORT_OPTIONS_def CALL_OPTIONS_def)
  have ok: "0 \<le> ra_start ns" "0 \<le> ra_count ns" "ra_bit_index ns = None \<or> is_value (py_str_int (the (ra_bit_index ns)))"
    using assms by (auto simp: read_ok_def is_value_str split: if_splits)
  show ?thesis
    using ok(3) by (simp add: read_words_def read_map_def parse_option parse_last_flag kinds is_value_str ok(1,2) del: parse_words.simps)
qed

lemma read_parser_map:
  assumes "read_ok ns" "\<And>f. f \<in> set (map fst READ_OPTIONS) - set (map fst (TRANSPORT_OPTIONS @ CALL_OPTIONS)) \<Longrightarrow> m f = None"
  shows "read_parser (read_map ns m) = Inr ns"
proof -
  let ?m = "read_map ns m"
  have none: "m ''--dtype'' = None" "m ''--word-order'' = None" "m ''--byte-order'' = None" "m ''--bit-index'' = None"
    "m ''--bit-indices'' = None" "m ''--bit-numbering'' = None" "m ''--json'' = None"
    by (rule assms(2), simp add: READ_OPTIONS_def TRANSPORT_OPTIONS_def CALL_OPTIONS_def)+
  have i: "int_base10 (py_str_int (the (ra_bit_index ns))) = Inr (the (ra_bit_index ns))" if "ra_bit_index ns \<noteq> None"
    using assms(1) that by (auto simp: read_ok_def int_base10_str split: if_splits)
  have "arg ?m ''--area'' (choice AREA_CHOICES_READ) required = Inr (ra_area ns)" by (rule arg_simps(2)) (simp add: read_map_def)+
  moreover have "arg ?m ''--start'' int_auto required = Inr (ra_start ns)"
    by (rule arg_simps(2)) (simp add: read_map_def int_auto_def int_base0_str)+
  moreover have "arg ?m ''--count'' int_base10 required = Inr (ra_count ns)"
    using assms(1) by (intro arg_simps(2)) (simp add: read_map_def int_base10_str read_ok_def)+
  moreover have "arg ?m ''--dtype'' (choice DTYPE_CHOICES_READ) (Inr UInt16) = Inr (ra_dtype ns)"
    by (rule arg_if [where c = "ra_dtype ns \<noteq> UInt16" and s = "name_of READ_DTYPES (ra_dtype ns)"]) (simp_all add: read_map_def none)
  moreover have "arg ?m ''--word-order'' (choice ORDER_CHOICES) (Inr Big) = Inr (ra_word_order ns)"
    by (rule arg_if [where c = "ra_word_order ns \<noteq> Big" and s = "name_of ORDER_CHOICES (ra_word_order ns)"]) (simp_all add: read_map_def none)
  moreover have "arg ?m ''--byte-order'' (choice ORDER_CHOICES) (Inr Big) = Inr (ra_byte_order ns)"
    by (rule arg_if [where c = "ra_byte_order ns \<noteq> Big" and s = "name_of ORDER_CHOICES (ra_byte_order ns)"]) (simp_all add: read_map_def none)
  moreover have "arg ?m ''--bit-index'' (\<lambda>s. bindE (int_base10 s) (\<lambda>i. Inr (Some i))) (Inr None) = Inr (ra_bit_index ns)"
    by (rule arg_if [where c = "ra_bit_index ns \<noteq> None" and s = "py_str_int (the (ra_bit_index ns))"]) (simp_all add: read_map_def none i)
  moreover have "arg ?m ''--bit-indices'' (\<lambda>s. Inr (Some s)) (Inr None) = Inr (ra_bit_indices ns)"
    by (rule arg_if [where c = "ra_bit_indices ns \<noteq> None" and s = "the (ra_bit_indices ns)"]) (simp_all add: read_map_def none)
  moreover have "arg ?m ''--bit-numbering'' (choice NUMBERING_CHOICES) (Inr LsbFirst) = Inr (ra_bit_numbering ns)"
    by (rule arg_if [where c = "ra_bit_numbering ns \<noteq> LsbFirst" and s = "name_of NUMBERING_CHOICES (ra_bit_numbering ns)"]) (simp_all add: read_map_def none)
  moreover have "(?m ''--json'' \<noteq> None) = ra_json ns" by (simp add: read_map_def none)
  ultimately show ?thesis by (simp add: read_parser_def)
qed

definition write_map :: "write_args \<Rightarrow> (string \<rightharpoonup> string) \<Rightarrow> (string \<rightharpoonup> string)" where
  "write_map ns m =
     upd (wa_json ns) ''--json'' ''''
    (upd (wa_byte_order ns \<noteq> Big) ''--byte-order'' (name_of ORDER_CHOICES (wa_byte_order ns))
    (upd (wa_word_order ns \<noteq> Big) ''--word-order'' (name_of ORDER_CHOICES (wa_word_order ns))
    (upd (wa_dtype ns \<noteq> UInt16) ''--dtype'' (name_of WRITE_DTYPES (wa_dtype ns))
    (upd True ''--values'' (wa_values ns)
    (upd True ''--start'' (py_str_int (wa_start ns))
    (upd True ''--area'' (name_of WRITE_AREAS (wa_area ns)) m))))))"

lemma parse_write_words:
  assumes "write_ok ns"
  shows "parse_words (map_of WRITE_OPTIONS) (write_words id ns) m =
    (if is_value (wa_values ns) then Inr (write_map ns m) else Inl SystemExit)"
proof -
  let ?k = "map_of WRITE_OPTIONS"
  have kinds: "?k ''--area'' = Some True" "?k ''--start'' = Some True" "?k ''--values'' = Some True" "?k ''--dtype'' = Some True"
    "?k ''--word-order'' = Some True" "?k ''--byte-order'' = Some True" "?k ''--json'' = Some False"
    by (simp_all add: WRITE_OPTIONS_def TRANSPORT_OPTIONS_def CALL_OPTIONS_def)
  have ok: "0 \<le> wa_start ns" "wa_area ns \<in> {HOLDING_REGISTER, COIL}" "wa_dtype ns \<notin> {Bit, Bits}"
    using assms by (simp_all add: write_ok_def)
  show ?thesis
    by (simp add: write_words_def write_map_def parse_option parse_last_flag kinds is_value_str ok(1)
        names(4) [OF ok(2)] names(8) [OF ok(3)] del: parse_words.simps)
qed

lemma write_parser_map:
  assumes "write_ok ns" "\<And>f. f \<in> set (map fst WRITE_OPTIONS) - set (map fst (TRANSPORT_OPTIONS @ CALL_OPTIONS)) \<Longrightarrow> m f = None"
  shows "write_parser (write_map ns m) = Inr ns"
proof -
  let ?m = "write_map ns m"
  have none: "m ''--dtype'' = None" "m ''--word-order'' = None" "m ''--byte-order'' = None" "m ''--json'' = None"
    by (rule assms(2), simp add: WRITE_OPTIONS_def TRANSPORT_OPTIONS_def CALL_OPTIONS_def)+
  have ok: "wa_area ns \<in> {HOLDING_REGISTER, COIL}" "wa_dtype ns \<notin> {Bit, Bits}"
    using assms by (simp_all add: write_ok_def)
  have "arg ?m ''--area'' (choice AREA_CHOICES_WRITE) required = Inr (wa_area ns)"
    by (rule arg_simps(2)) (simp add: write_map_def names(3) [OF ok(1)])+
  moreover have "arg ?m ''--start'' int_auto required = Inr (wa_start ns)"
    by (rule arg_simps(2)) (simp add: write_map_def int_auto_def int_base0_str)+
  moreover have "arg ?m ''--values'' Inr required = Inr (wa_values ns)"
    by (rule arg_simps(2)) (simp add: write_map_def)+
  moreover have "arg ?m ''--dtype'' (choice DTYPE_CHOICES_WRITE) (Inr UInt16) = Inr (wa_dtype ns)"
    by (rule arg_if [where c = "wa_dtype ns \<noteq> UInt16" and s = "name_of WRITE_DTYPES (wa_dtype ns)"])
      (simp_all add: write_map_def none names(7) [OF ok(2)])
  moreover have "arg ?m ''--word-order'' (choice ORDER_CHOICES) (Inr Big) = Inr (wa_word_order ns)"
    by (rule arg_if [where c = "wa_word_order ns \<noteq> Big" and s = "name_of ORDER_CHOICES (wa_word_order ns)"])
      (simp_all add: write_map_def none)
  moreover have "arg ?m ''--byte-order'' (choice ORDER_CHOICES) (Inr Big) = Inr (wa_byte_order ns)"
    by (rule arg_if [where c = "wa_byte_order ns \<noteq> Big" and s = "name_of ORDER_CHOICES (wa_byte_order ns)"])
      (simp_all add: write_map_def none)
  moreover have "(?m ''--json'' \<noteq> None) = wa_json ns" by (simp add: write_map_def none)
  ultimately show ?thesis by (simp add: write_parser_def)
qed

definition scan_map :: "scan_args \<Rightarrow> (string \<rightharpoonup> string) \<Rightarrow> (string \<rightharpoonup> string)" where
  "scan_map ns m = upd (sa_json ns) ''--json'' '''' (upd (sa_start ns \<noteq> 0) ''--start'' (py_str_int (sa_start ns)) m)"

lemma parse_scan_words:
  assumes "0 \<le> sa_start ns"
  shows "parse_words (map_of SCAN_OPTIONS) (scan_words ns) m = Inr (scan_map ns m)"
proof -
  have "map_of SCAN_OPTIONS ''--start'' = Some True" "map_of SCAN_OPTIONS ''--json'' = Some False"
    by (simp_all add: SCAN_OPTIONS_def TRANSPORT_OPTIONS_def CALL_OPTIONS_def)
  with assms show ?thesis
    by (simp add: scan_words_def scan_map_def parse_option parse_last_flag is_value_str del: parse_words.simps)
qed

lemma scan_parser_map:
  assumes "m ''--start'' = None" "m ''--json'' = None"
  shows "scan_parser (scan_map ns m) = Inr ns"
proof -
  have "arg (scan_map ns m) ''--start'' int_auto (Inr 0) = Inr (sa_start ns)"
    by (rule arg_if [where c = "sa_start ns \<noteq> 0" and s = "py_str_int (sa_start ns)"])
      (simp_all add: scan_map_def assms int_auto_def int_base0_str)
  then show ?thesis by (simp add: scan_parser_def scan_map_def assms)
qed

text \<open>The texts of the user that the command line shows can be values of an option.\<close>

fun plain :: "(pyfloat \<Rightarrow> string) \<Rightarrow> command \<Rightarrow> bool" where
  "plain float_repr (ReadCmd ca ra) =
     (conn_plain float_repr ca \<and> (ra_bit_indices ra \<noteq> None \<longrightarrow> is_value (the (ra_bit_indices ra))))"
| "plain float_repr (WriteCmd ca wa) = (conn_plain float_repr ca \<and> is_value (wa_values wa))"
| "plain float_repr (ScanCmd ca sa) = conn_plain float_repr ca"
| "plain float_repr (ServeCmd sv) = True"

fun command_conn :: "command \<Rightarrow> conn_args" where
  "command_conn (ReadCmd ca ra) = ca"
| "command_conn (WriteCmd ca wa) = ca"
| "command_conn (ScanCmd ca sa) = ca"
| "command_conn (ServeCmd sv) = undefined"

lemma other_options:
  assumes "f \<in> set (map fst (TRANSPORT_OPTIONS @ CALL_OPTIONS))"
  shows "read_map ra m f = m f" "write_map wa m f = m f" "scan_map sa m f = m f"
proof -
  have "f \<notin> {''--area'', ''--start'', ''--count'', ''--dtype'', ''--word-order'', ''--byte-order'', ''--bit-index'',
      ''--bit-indices'', ''--bit-numbering'', ''--json'', ''--values''}"
    using assms by (auto simp: TRANSPORT_OPTIONS_def CALL_OPTIONS_def)
  then show "read_map ra m f = m f" "write_map wa m f = m f" "scan_map sa m f = m f"
    by (simp_all add: read_map_def write_map_def scan_map_def)
qed

lemma option_kinds:
  assumes "map_of (TRANSPORT_OPTIONS @ CALL_OPTIONS) f = Some b"
  shows "map_of READ_OPTIONS f = Some b" "map_of WRITE_OPTIONS f = Some b" "map_of SCAN_OPTIONS f = Some b"
  using assms unfolding READ_OPTIONS_def WRITE_OPTIONS_def SCAN_OPTIONS_def append_assoc [symmetric] map_of_append
  by (simp_all add: map_add_def)

lemma parse_command_words:
  assumes "command_ok cmd" "float_of_str (float_repr (ca_timeout_s (command_conn cmd))) = Inr (ca_timeout_s (command_conn cmd))"
  shows "parse_command float_of_str (command_words id float_repr cmd) =
    (if plain float_repr cmd then Inr cmd else Inl SystemExit)"
proof (cases cmd)
  case (ReadCmd ca ra)
  then have ok: "conn_ok ca" "read_ok ra" "float_of_str (float_repr (ca_timeout_s ca)) = Inr (ca_timeout_s ca)" using assms by simp_all
  have "add_transport_and_call_args float_of_str (read_map ra (conn_map float_repr ca)) = Inr ca"
    by (rule add_args_conn_map [where float_repr = float_repr and float_of_str = float_of_str, OF ok(1,3)]) (rule other_options(1))
  moreover have "read_parser (read_map ra (conn_map float_repr ca)) = Inr ra"
    by (rule read_parser_map [OF ok(2)]) (simp del: map_append set_append)
  moreover have "parse_words (map_of READ_OPTIONS) (conn_words id float_repr ca @ read_words id ra) Map.empty =
      (if conn_plain float_repr ca \<and> (ra_bit_indices ra \<noteq> None \<longrightarrow> is_value (the (ra_bit_indices ra))) then Inr (read_map ra (conn_map float_repr ca)) else Inl SystemExit)"
    by (subst parse_conn_words [OF ok(1)], erule option_kinds(1), simp add: parse_read_words [OF ok(2)])
  ultimately show ?thesis using ReadCmd by (auto simp: parse_command_def)
next
  case (WriteCmd ca wa)
  then have ok: "conn_ok ca" "write_ok wa" "float_of_str (float_repr (ca_timeout_s ca)) = Inr (ca_timeout_s ca)" using assms by simp_all
  have "add_transport_and_call_args float_of_str (write_map wa (conn_map float_repr ca)) = Inr ca"
    by (rule add_args_conn_map [where float_repr = float_repr and float_of_str = float_of_str, OF ok(1,3)]) (rule other_options(2))
  moreover have "write_parser (write_map wa (conn_map float_repr ca)) = Inr wa"
    by (rule write_parser_map [OF ok(2)]) (simp del: map_append set_append)
  moreover have "parse_words (map_of WRITE_OPTIONS) (conn_words id float_repr ca @ write_words id wa) Map.empty =
      (if conn_plain float_repr ca \<and> is_value (wa_values wa) then Inr (write_map wa (conn_map float_repr ca)) else Inl SystemExit)"
    by (subst parse_conn_words [OF ok(1)], erule option_kinds(2), simp add: parse_write_words [OF ok(2)])
  ultimately show ?thesis using WriteCmd by (simp add: parse_command_def)
next
  case (ScanCmd ca sa)
  then have ok: "conn_ok ca" "0 \<le> sa_start sa" "float_of_str (float_repr (ca_timeout_s ca)) = Inr (ca_timeout_s ca)" using assms by simp_all
  have "add_transport_and_call_args float_of_str (scan_map sa (conn_map float_repr ca)) = Inr ca"
    by (rule add_args_conn_map [where float_repr = float_repr and float_of_str = float_of_str, OF ok(1,3)]) (rule other_options(3))
  moreover have "scan_parser (scan_map sa (conn_map float_repr ca)) = Inr sa"
    by (rule scan_parser_map) (simp_all add: TRANSPORT_OPTIONS_def CALL_OPTIONS_def)
  moreover have "parse_words (map_of SCAN_OPTIONS) (conn_words id float_repr ca @ scan_words sa) Map.empty =
      (if conn_plain float_repr ca then Inr (scan_map sa (conn_map float_repr ca)) else Inl SystemExit)"
    by (subst parse_conn_words [OF ok(1)], erule option_kinds(3), simp add: parse_scan_words [OF ok(2)])
  ultimately show ?thesis using ScanCmd by (simp add: parse_command_def)
qed (use assms in simp)

section \<open>Properties\<close>

text \<open>
  The wizard builds a usable namespace.  Whatever the user types, the wizard ends: the user gives up,
  declines, or there is a namespace.  Then its numbers are in range and its choices are ones the parser
  offers (no bit type for a write, a bit index exactly for \<open>bit\<close>, bit indices exactly for \<open>bits\<close>, orders and
  numbering only where they matter), it names exactly one device, and making a client from it cannot
  end in the \<open>SystemExit\<close> for a missing device.
\<close>

theorem guide_namespace_ok:
  "case fst (build_namespace float_of_str float_repr evs) of
     Inl e \<Rightarrow> e \<in> {EOFError, KeyboardInterrupt}
   | Inr (s, None) \<Rightarrow> True
   | Inr (s, Some cmd) \<Rightarrow> command_ok cmd \<and>
       (\<exists>ca c. command_conn cmd = ca \<and> choose_client (ca_rtu ca) (ca_host ca) (ca_rtu_over_tcp ca) (ca_retries ca) = Inr c)"
proof -
  have client: "\<exists>c. choose_client (ca_rtu ca) (ca_host ca) (ca_rtu_over_tcp ca) (ca_retries ca) = Inr c" if "conn_ok ca" for ca
    using that by (auto simp: conn_ok_def choose_client_def Let_def)
  have "\<exists>ca c. command_conn cmd = ca \<and> choose_client (ca_rtu ca) (ca_host ca) (ca_rtu_over_tcp ca) (ca_retries ca) = Inr c"
    if "command_ok cmd" for cmd
    using that client by (cases cmd) auto
  with yields_build [of float_of_str float_repr] show ?thesis
    by (fastforce simp: yields_def split: sum.splits option.splits prod.splits)
qed

text \<open>
  C38: the command that the wizard shows is the one it runs.  Let the wizard end with a namespace and show
  a command line, and let the timeout's text be read back as the timeout.  If none of the texts that
  the user typed looks like an option to the parser, the words of the line are parsed to exactly the
  namespace, and \<open>pymod\<close> with these words gives the same output and exit code as \<open>pymod --guide\<close>.
  Otherwise the shown command line is refused, although the wizard runs it: values such as \<open>-1,2\<close> cannot
  be given to \<open>--values\<close> as a word of its own.
\<close>

theorem guide_shows_what_it_runs:
  assumes "fst (build_namespace (en_float_of_str env) (en_float_repr env) evs) = Inr (line, Some cmd)"
    and "en_float_of_str env (en_float_repr env (ca_timeout_s (command_conn cmd))) = Inr (ca_timeout_s (command_conn cmd))"
  defines "argv \<equiv> command_words id (en_float_repr env) cmd"
  shows "line = py_join CHR '' '' (''pymod'' # command_words quote (en_float_repr env) cmd) \<and>
    (if plain (en_float_repr env) cmd
     then parse_command (en_float_of_str env) argv = Inr cmd \<and> cli_main env argv evs' = cli_main env [''--guide''] evs
     else parse_command (en_float_of_str env) argv = Inl SystemExit \<and> cli_main env argv evs' = Inl SystemExit)"
proof -
  have ok: "command_ok cmd" "line = equivalent_command (en_float_repr env) cmd"
    using yields_build [of "en_float_of_str env" "en_float_repr env"] assms(1)
    by (auto simp: yields_def dest!: spec [of _ evs])
  have parse: "parse_command (en_float_of_str env) argv = (if plain (en_float_repr env) cmd then Inr cmd else Inl SystemExit)"
    unfolding argv_def using ok(1) assms(2) by (rule parse_command_words)
  have "parse_args (en_float_of_str env) argv = bindE (parse_command (en_float_of_str env) argv) (\<lambda>cmd. Inr (False, Some cmd))"
    unfolding argv_def using ok(1) by (cases cmd) simp_all
  then have argv: "cli_main env argv evs' = (if plain (en_float_repr env) cmd then interrupted (run_command env cmd) else Inl SystemExit)"
    using parse by (simp add: cli_main_def)
  have "cli_main env [''--guide''] evs = interrupted (run_command env cmd)"
    using assms(1) by (simp add: cli_main_def dispatch_guide_def)
  with argv parse ok(2) show ?thesis by (simp add: equivalent_command_def)
qed

text \<open>A run of the wizard on a write of two values, and the command line it shows.\<close>

definition demo_float_of_str :: "string \<Rightarrow> pyfloat result" where
  "demo_float_of_str s = (if s = ''0.5'' then Inr HALF else Inl ValueError)"

definition demo_float_repr :: "pyfloat \<Rightarrow> string" where
  "demo_float_repr f = (if f = HALF then ''0.5'' else ''nan'')"

definition demo_write :: command where
  "demo_write = WriteCmd
     \<lparr>ca_host = Some ''127.0.0.1'', ca_port = 502, ca_rtu = None, ca_baudrate = 9600, ca_bytesize = 8, ca_parity = ''N'',
       ca_stopbits = PInt 1, ca_rtu_over_tcp = False, ca_unit_id = 1, ca_timeout_s = HALF, ca_retries = 1\<rparr>
     \<lparr>wa_area = HOLDING_REGISTER, wa_start = 3, wa_values = ''-1,2'', wa_dtype = Int16, wa_word_order = Big,
       wa_byte_order = Big, wa_json = False\<rparr>"

lemmas prompt_eval = ask_def ask_int_def ask_float_def ask_yes_no_def ask_choice_def answer_text_def selection_def
  py_strip_def is_space_def int_base0_def parse_unsigned_def digit_val_def is_digit_def py_lower_def lower_char_def
  bindS_def pureS_def

lemma demo_numbers: "py_str_int 502 = ''502''" "py_str_int 1 = ''1''" "py_str_int 3 = ''3''"
  by (simp_all add: py_str_int_def digits_of.simps digit_char_def char_of_eq_iff take_bit_eq_mod)

lemma demo_transport: "ask_transport (map Line ['''', '''', ''''] @ evs) =
    (Inr \<lparr>ca_host = Some ''127.0.0.1'', ca_port = 502, ca_rtu = None, ca_baudrate = 9600, ca_bytesize = 8, ca_parity = ''N'',
       ca_stopbits = PInt 1, ca_rtu_over_tcp = False, ca_unit_id = 0, ca_timeout_s = 0, ca_retries = 0\<rparr>, evs)"
  by (simp add: ask_transport_def prompt_eval demo_numbers TRANSPORTS_def)

lemma demo_call: "ask_call_args demo_float_of_str demo_float_repr ns (map Line ['''', '''', ''''] @ evs) =
    (Inr (ns\<lparr>ca_unit_id := 1, ca_timeout_s := HALF, ca_retries := 1\<rparr>), evs)"
  by (simp add: ask_call_args_def prompt_eval demo_numbers demo_float_of_str_def demo_float_repr_def)

lemma demo_ask_write: "ask_write (map Line ['''', ''3'', ''int16'', ''-1,2'', ''''] @ evs) =
    (Inr \<lparr>wa_area = HOLDING_REGISTER, wa_start = 3, wa_values = ''-1,2'', wa_dtype = Int16, wa_word_order = Big,
       wa_byte_order = Big, wa_json = False\<rparr>, evs)"
  by (simp add: ask_write_def ask_orders_def prompt_eval WRITE_AREAS_def WRITE_DTYPES_def WIDE_DTYPES_def)

lemma demo_wizard:
  "fst (build_namespace demo_float_of_str demo_float_repr
     (map Line [''write''] @ map Line ['''', '''', ''''] @ map Line ['''', '''', ''''] @
      map Line ['''', ''3'', ''int16'', ''-1,2'', ''''] @ map Line [''y''])) =
   Inr (''pymod write --host 127.0.0.1 --area holding --start 3 --values -1,2 --dtype int16'', Some demo_write)"
proof -
  have "ask_choice OPS 0 (map Line [''write''] @ evs) = (Inr OpWrite, evs)" for evs
    by (simp add: prompt_eval OPS_def)
  moreover have "ask_yes_no True (map Line [''y'']) = (Inr True, [])" by (simp add: prompt_eval)
  moreover have "equivalent_command demo_float_repr demo_write =
      ''pymod write --host 127.0.0.1 --area holding --start 3 --values -1,2 --dtype int16''"
    by (simp add: equivalent_command_def demo_write_def conn_words_def write_words_def shown_def name_of_def WRITE_AREAS_def
        WRITE_DTYPES_def quote_def demo_numbers char_of_eq_iff take_bit_eq_mod)
  ultimately show ?thesis
    unfolding build_namespace_def bindS_def demo_transport demo_call demo_ask_write
    by (simp add: demo_transport [unfolded list.map append.simps] demo_call [unfolded list.map append.simps]
        demo_ask_write [unfolded list.map append.simps] bindS_def pureS_def demo_write_def)
qed

definition demo_env :: "(rot \<times> net list) cli_env" where
  "demo_env = \<lparr>en_float_of_str = demo_float_of_str, en_float_repr = demo_float_repr, en_sleep = (\<lambda>_ w. w),
     en_client = (\<lambda>_ _. Inr demo_client), en_worlds = (\<lambda>_. (rot_init, [])), en_completion = [],
     en_after = (rot_init, []), en_world = (rot_init, []), en_config = (\<lambda>_. Inl OSError)\<rparr>"

theorem guide_shows_what_it_runs_witness:
  "cli_main demo_env [''write'', ''--host'', ''127.0.0.1'', ''--area'', ''holding'', ''--start'', ''3'',
     ''--values'', ''-1,2'', ''--dtype'', ''int16''] [] = Inl SystemExit"
proof -
  have "\<not> plain demo_float_repr demo_write"
    by (simp add: demo_write_def is_value_def negative_number_def is_digit_def)
  moreover have "command_words id demo_float_repr demo_write = [''write'', ''--host'', ''127.0.0.1'', ''--area'', ''holding'',
      ''--start'', ''3'', ''--values'', ''-1,2'', ''--dtype'', ''int16'']"
    by (simp add: demo_write_def conn_words_def write_words_def shown_def name_of_def WRITE_AREAS_def WRITE_DTYPES_def demo_numbers)
  moreover have "en_float_of_str demo_env (en_float_repr demo_env (ca_timeout_s (command_conn demo_write))) =
      Inr (ca_timeout_s (command_conn demo_write))"
    by (simp add: demo_env_def demo_write_def demo_float_of_str_def demo_float_repr_def)
  ultimately show ?thesis
    using guide_shows_what_it_runs [of demo_env _ _ demo_write "[]"] demo_wizard by (auto simp: demo_env_def)
qed

end
