(* ===== verification/Tcp_Transport.thy ===== *)
theory Tcp_Transport
  imports Mbap_Stream Effects
begin

text \<open>
  The transport of \<open>src/pymod/transport/tcp.py\<close>: calls, connections, read loops and teardowns run as
  concurrent tasks on one object, so the transport is a step relation.  A step is what a task does
  between two awaits.  Calls and connections are named by numbers.  Without pipelining the serial lock
  only removes some of the orders of steps.  The laws follow in \<open>Tcp_Laws\<close>.
\<close>

section \<open>Transaction ids\<close>

text \<open>The loop of \<open>_allocate_tid\<close> with the number of rounds left; it gives the id and the new \<open>_next_tid\<close>.\<close>

primrec probe :: "nat \<Rightarrow> int \<Rightarrow> (int \<rightharpoonup> 'f) \<Rightarrow> int result \<times> int" where
  "probe 0 next_tid pending = (Inl ModbusError, next_tid)"
| "probe (Suc n) next_tid pending =
     (let tid = next_tid; next_tid' = (next_tid + 1) AND 0xFFFF
      in if pending tid = None then (Inr tid, next_tid') else probe n next_tid' pending)"

definition allocate_tid :: "int \<Rightarrow> (int \<rightharpoonup> 'f) \<Rightarrow> int result \<times> int" where
  "allocate_tid next_tid pending = probe 0x10000 next_tid pending"

section \<open>State\<close>

text \<open>
  A call in flight has registered a future under its transaction id.  \<open>tc_request\<close> is its argument \<open>pdu\<close> and
  \<open>unit_id\<close>.  \<open>tc_seen\<close> is not part of the program: it records the responses that have been read since the
  call registered.
\<close>

record tcp_call =
  tc_tid :: int
  tc_request :: "int \<times> bytes"
  tc_future :: "bytes result option"
  tc_seen :: "(int \<times> bytes) list"

text \<open>The task that runs a teardown, and the await it is suspended in.\<close>

datatype owner = ReadLoop nat | Closer

datatype teardown = ClosingWriter | Cancelling nat | Finishing

record tcp_state =
  tt_connected :: bool
  tt_closed :: bool
  tt_connecting :: bool          \<comment> \<open>a task holds \<open>_connection_lock\<close> and awaits \<open>open_connection\<close>\<close>
  tt_writer :: "nat option"      \<comment> \<open>the connection of \<open>_writer\<close> and \<open>_reader\<close>\<close>
  tt_read_task :: "nat option"   \<comment> \<open>the connection whose read loop is \<open>_read_task\<close>\<close>
  tt_next_tid :: int
  tt_pending :: "int \<rightharpoonup> nat"
  tt_calls :: "nat \<rightharpoonup> tcp_call"
  tt_loops :: "nat \<rightharpoonup> bytes"     \<comment> \<open>the running read loops with their unread bytes\<close>
  tt_conns :: nat                \<comment> \<open>connections opened so far\<close>
  tt_teardowns :: "owner \<rightharpoonup> teardown"
  tt_wire :: "(nat \<times> bytes) list"  \<comment> \<open>frames written, with their connection\<close>
  tt_lost :: "nat set"           \<comment> \<open>connections that the peer or the network has ended\<close>

definition tcp_init :: tcp_state where
  "tcp_init = \<lparr>tt_connected = False, tt_closed = False, tt_connecting = False, tt_writer = None, tt_read_task = None,
     tt_next_tid = 0, tt_pending = Map.empty, tt_calls = Map.empty, tt_loops = Map.empty, tt_conns = 0,
     tt_teardowns = Map.empty, tt_wire = [], tt_lost = {}\<rparr>"

section \<open>Connecting\<close>

text \<open>\<open>_ensure_connected\<close> up to the await of \<open>open_connection\<close>, and after it.\<close>

definition connect_begin :: "(tcp_state, bool) effect" where
  "connect_begin st =
     (if tt_connected st then (Inr True, st)
      else if tt_closed st then (Inl ModbusError, st)
      else (Inr False, st\<lparr>tt_connecting := True\<rparr>))"

text \<open>The entry of \<open>connect\<close> and \<open>send_and_receive\<close>.\<close>

definition checked_connect :: "(tcp_state, bool) effect" where
  "checked_connect st = (if tt_closed st then (Inl ModbusError, st) else connect_begin st)"

definition connect_done :: "unit result \<Rightarrow> (tcp_state, unit) effect" where
  "connect_done opened st =
     (case opened of
        Inl e \<Rightarrow> (if e = AsyncTimeoutError then Inl ModbusConnectionError
                 else if e = OSError then Inl ModbusConnectionError else Inl e, st\<lparr>tt_connecting := False\<rparr>)
      | Inr _ \<Rightarrow> let c = tt_conns st in
          (Inr (), st\<lparr>tt_connecting := False, tt_writer := Some c, tt_connected := True, tt_read_task := Some c,
                     tt_loops := (tt_loops st)(c \<mapsto> []), tt_conns := Suc c\<rparr>))"

section \<open>Calls\<close>

text \<open>\<open>_send_and_receive_unlocked\<close> from the return of \<open>_ensure_connected\<close> to the await of \<open>drain\<close>.\<close>

definition call_begin :: "nat \<Rightarrow> bytes \<Rightarrow> int \<Rightarrow> (tcp_state, unit) effect" where
  "call_begin k pdu unit_id st =
     (let (alloc, next_tid) = allocate_tid (tt_next_tid st) (tt_pending st);
          st1 = st\<lparr>tt_next_tid := next_tid\<rparr>
      in case alloc of
           Inl e \<Rightarrow> (Inl e, st1)
         | Inr tid \<Rightarrow>
             (case tt_writer st of
                None \<Rightarrow> (Inl ModbusConnectionError, st1)
              | Some c \<Rightarrow>
                  (case encode_mbap_frame tid unit_id pdu of
                     Inl e \<Rightarrow> (Inl e, st1)
                   | Inr frame \<Rightarrow>
                       (Inr (), st1\<lparr>tt_pending := (tt_pending st)(tid \<mapsto> k),
                          tt_calls := (tt_calls st)(k \<mapsto> \<lparr>tc_tid = tid, tc_request = (unit_id, pdu), tc_future = None, tc_seen = []\<rparr>),
                          tt_wire := tt_wire st @ [(c, frame)]\<rparr>))))"

text \<open>The end of a call, with the \<open>finally\<close> clause: by its future, by a timeout or by a failed \<open>drain\<close>.\<close>

datatype call_exit = Resolved | TimedOut | SendFailed

primrec call_outcome :: "call_exit \<Rightarrow> tcp_call \<Rightarrow> bytes result option" where
  "call_outcome Resolved c = tc_future c"
| "call_outcome TimedOut c = Some (Inl ModbusTimeoutError)"
| "call_outcome SendFailed c = Some (Inl ModbusConnectionError)"

definition call_end :: "nat \<Rightarrow> tcp_call \<Rightarrow> tcp_state \<Rightarrow> tcp_state" where
  "call_end k c st = st\<lparr>tt_pending := (tt_pending st)(tc_tid c := None), tt_calls := (tt_calls st)(k := None)\<rparr>"

section \<open>The read loop\<close>

text \<open>A response is handed to the future registered under its transaction id, if there is one.\<close>

definition resolve :: "bytes result \<Rightarrow> tcp_call \<Rightarrow> tcp_call" where
  "resolve r c = (if tc_future c = None then c\<lparr>tc_future := Some r\<rparr> else c)"

definition deliver :: "int \<Rightarrow> bytes \<Rightarrow> tcp_state \<Rightarrow> tcp_state" where
  "deliver tid pdu st =
     (let calls = (case tt_pending st tid of
                     None \<Rightarrow> tt_calls st
                   | Some k \<Rightarrow> (tt_calls st)(k := map_option (resolve (Inr pdu)) (tt_calls st k)))
      in st\<lparr>tt_calls := (\<lambda>k. map_option (\<lambda>c. c\<lparr>tc_seen := tc_seen c @ [(tid, pdu)]\<rparr>) (calls k))\<rparr>)"

text \<open>
  The \<open>while True\<close> loop of \<open>_read_loop\<close> on the bytes that have arrived: the bytes it still waits to
  complete, or the exception that ends it.
\<close>

function read_loop :: "bytes \<Rightarrow> tcp_state \<Rightarrow> bytes result \<times> tcp_state" where
  "read_loop buf st =
     (case next_frame buf of
        Inl e \<Rightarrow> (Inl e, st)
      | Inr None \<Rightarrow> (Inr buf, st)
      | Inr (Some (frame, rest)) \<Rightarrow>
          (case decode_mbap_frame frame of
             Inl e \<Rightarrow> if isinstance_exn e C_ModbusProtocolError then read_loop rest st else (Inl e, st)
           | Inr (tid, uid, pdu) \<Rightarrow> read_loop rest (deliver tid pdu st)))"
  by pat_completeness auto
termination
  by (relation "measure (\<lambda>(buf, st). length buf)") (auto dest: next_frame_smaller)

declare read_loop.simps [simp del]

section \<open>Teardown\<close>

text \<open>\<open>_teardown\<close> up to the close of the writer, up to the cancelled read task, and its end.\<close>

definition teardown_begin :: "owner \<Rightarrow> tcp_state \<Rightarrow> tcp_state" where
  "teardown_begin who st =
     st\<lparr>tt_connected := False, tt_writer := None, tt_teardowns := (tt_teardowns st)(who \<mapsto> ClosingWriter)\<rparr>"

definition teardown_cancel :: "owner \<Rightarrow> tcp_state \<Rightarrow> tcp_state" where
  "teardown_cancel who st =
     st\<lparr>tt_teardowns := (tt_teardowns st)(who \<mapsto>
        (case tt_read_task st of
           None \<Rightarrow> Finishing
         | Some c \<Rightarrow> if who \<noteq> ReadLoop c \<and> (tt_loops st c \<noteq> None \<or> tt_teardowns st (ReadLoop c) \<noteq> None)
                     then Cancelling c else Finishing))\<rparr>"

definition teardown_finish :: "owner \<Rightarrow> tcp_state \<Rightarrow> tcp_state" where
  "teardown_finish who st =
     st\<lparr>tt_read_task := None,
        tt_calls := (\<lambda>k. map_option (\<lambda>c. if tt_pending st (tc_tid c) = Some k
                                       then resolve (Inl ModbusConnectionError) c else c) (tt_calls st k)),
        tt_pending := Map.empty,
        tt_teardowns := (tt_teardowns st)(who := None)\<rparr>"

text \<open>The read loop ends, by an exception or cancelled, and its \<open>finally\<close> starts a teardown.\<close>

definition loop_end :: "nat \<Rightarrow> tcp_state \<Rightarrow> tcp_state" where
  "loop_end c st = teardown_begin (ReadLoop c) (st\<lparr>tt_loops := (tt_loops st)(c := None)\<rparr>)"

text \<open>The read loop of \<open>c\<close> runs on the bytes that have arrived for it.\<close>

definition loop_reads :: "nat \<Rightarrow> bytes \<Rightarrow> bytes \<Rightarrow> tcp_state \<Rightarrow> tcp_state" where
  "loop_reads c buf data st =
     (let (r, st') = read_loop (buf @ data) st
      in case r of Inl e \<Rightarrow> loop_end c st' | Inr rest \<Rightarrow> st'\<lparr>tt_loops := (tt_loops st')(c \<mapsto> rest)\<rparr>)"

definition close_begin :: "tcp_state \<Rightarrow> tcp_state" where
  "close_begin st = teardown_begin Closer (st\<lparr>tt_closed := True\<rparr>)"

section \<open>Steps\<close>

text \<open>The steps of the calls, of the connections and of the teardowns.\<close>

inductive tcp_task :: "tcp_state \<Rightarrow> tcp_state \<Rightarrow> bool" where
  step_connect: "\<not> tt_connecting st \<Longrightarrow> tcp_task st (snd (checked_connect st))"
| step_reconnect: "\<not> tt_connecting st \<Longrightarrow> tcp_task st (snd (connect_begin st))"
| step_connected: "tt_connecting st \<Longrightarrow> tcp_task st (snd (connect_done opened st))"
| step_call: "tt_calls st k = None \<Longrightarrow> tcp_task st (snd (call_begin k pdu unit_id st))"
| step_return: "tt_calls st k = Some c \<Longrightarrow> call_outcome how c = Some r \<Longrightarrow> tcp_task st (call_end k c st)"
| step_lost: "tt_loops st c = Some buf \<Longrightarrow> tcp_task st (loop_end c (st\<lparr>tt_lost := insert c (tt_lost st)\<rparr>))"
| step_loop_cancelled: "tt_teardowns st who = Some (Cancelling c) \<Longrightarrow> tt_loops st c = Some buf \<Longrightarrow>
    tcp_task st (loop_end c st)"
| step_teardown_cancelled: "tt_teardowns st who = Some (Cancelling c) \<Longrightarrow>
    tt_teardowns st (ReadLoop c) = Some ClosingWriter \<Longrightarrow>
    tcp_task st (st\<lparr>tt_teardowns := (tt_teardowns st)(ReadLoop c := None)\<rparr>)"
| step_close: "tt_teardowns st Closer = None \<Longrightarrow> tcp_task st (close_begin st)"
| step_cancel: "tt_teardowns st who = Some ClosingWriter \<Longrightarrow> tcp_task st (teardown_cancel who st)"
| step_finish: "tt_teardowns st who = Some Finishing \<Longrightarrow> tcp_task st (teardown_finish who st)"
| step_cancelled: "tt_teardowns st who = Some (Cancelling c) \<Longrightarrow> tt_loops st c = None \<Longrightarrow>
    tt_teardowns st (ReadLoop c) = None \<Longrightarrow> tcp_task st (teardown_finish who st)"

text \<open>The steps of the transport: those, and a read loop that runs on bytes that have arrived.\<close>

inductive tcp_step :: "tcp_state \<Rightarrow> tcp_state \<Rightarrow> bool" where
  step_task: "tcp_task st st' \<Longrightarrow> tcp_step st st'"
| step_data: "tt_loops st c = Some buf \<Longrightarrow> tcp_step st (loop_reads c buf data st)"

inductive_cases tcp_stepE: "tcp_step st st'"

lemmas tcp_task_step = tcp_task.intros [THEN tcp_step.step_task]

end
