(* ===== verification/Tcp_Laws.thy ===== *)
theory Tcp_Laws
  imports Tcp_Transport
begin

text \<open>
  Laws of the TCP transport: allocation of transaction ids, the invariant behind the demultiplexing of
  responses, and the races between a teardown and a new connection.
\<close>

section \<open>Transaction ids\<close>

lemma and_FFFF: "(x :: int) AND 0xFFFF = x mod 65536"
  using take_bit_eq_mask [of 16 x] by (simp add: take_bit_eq_mod mask_eq_exp_minus_1)

lemma probe_cases:
  assumes "0 \<le> t" "t < 65536"
  obtains (free) i where "i < n" "pending ((t + int i) mod 65536) = None"
      "\<And>j. j < i \<Longrightarrow> pending ((t + int j) mod 65536) \<noteq> None"
      "probe n t pending = (Inr ((t + int i) mod 65536), (t + int i + 1) mod 65536)"
  | (full) "\<And>j. j < n \<Longrightarrow> pending ((t + int j) mod 65536) \<noteq> None" "probe n t pending = (Inl ModbusError, (t + int n) mod 65536)"
  using assms
proof (induction n arbitrary: t thesis)
  case 0
  then show ?case by simp
next
  case (Suc n)
  show ?case
  proof (cases "pending t = None")
    case True
    with Suc.prems show ?thesis by (intro Suc.prems(1) [of 0]) (simp_all add: and_FFFF Let_def)
  next
    case False
    have shift: "((t + 1) mod 65536 + int j) mod 65536 = (t + int (Suc j)) mod 65536" for j
      by (simp add: mod_simps ac_simps)
    have taken: "pending ((t + int j) mod 65536) \<noteq> None"
      if "\<And>j'. Suc j' = j \<Longrightarrow> pending ((t + int (Suc j')) mod 65536) \<noteq> None" for j
      using that False Suc.prems(3,4) by (cases j) auto
    have "probe (Suc n) t pending = probe n ((t + 1) mod 65536) pending"
      using False by (auto simp: and_FFFF Let_def)
    moreover have "0 \<le> (t + 1) mod 65536" "(t + 1) mod 65536 < 65536" by simp_all
    ultimately show ?thesis
    proof (cases rule: Suc.IH [of "(t + 1) mod 65536", case_names free full])
      case (free i)
      have "(t + int (Suc i) + 1) mod 65536 = ((t + 1) mod 65536 + int i + 1) mod 65536"
        using mod_add_left_eq [of "t + 1" 65536 "int i + 1"] by (simp add: algebra_simps)
      note nxt = this
      show ?thesis
      proof (rule Suc.prems(1) [of "Suc i"])
        show "pending ((t + int j) mod 65536) \<noteq> None" if "j < Suc i" for j
        proof (rule taken)
          fix j' assume "Suc j' = j"
          with that have "j' < i" by simp
          from free(3) [OF this] show "pending ((t + int (Suc j')) mod 65536) \<noteq> None" unfolding shift .
        qed
        show "probe (Suc n) t pending = (Inr ((t + int (Suc i)) mod 65536), (t + int (Suc i) + 1) mod 65536)"
          using \<open>probe (Suc n) t pending = _\<close> free(4) by (simp only: nxt shift)
      qed (use free(1,2) in \<open>simp_all only: shift Suc_less_eq\<close>)
    next
      case full
      show ?thesis
      proof (rule Suc.prems(2))
        show "pending ((t + int j) mod 65536) \<noteq> None" if "j < Suc n" for j
        proof (rule taken)
          fix j' assume "Suc j' = j"
          with that have "j' < n" by simp
          from full(1) [OF this] show "pending ((t + int (Suc j')) mod 65536) \<noteq> None" unfolding shift .
        qed
      qed (use \<open>probe (Suc n) t pending = _\<close> full(2) in \<open>simp only: shift\<close>)
    qed
  qed
qed

section \<open>Invariant\<close>

text \<open>
  Every registered future belongs to a call in flight under its own id.  A future that is not resolved
  and is registered has seen no response with its id; one resolved with a response has the first.
\<close>

definition call_ok :: "(int \<rightharpoonup> nat) \<Rightarrow> nat \<Rightarrow> tcp_call \<Rightarrow> bool" where
  "call_ok pending k c \<longleftrightarrow>
     (tc_future c = None \<and> pending (tc_tid c) = Some k \<longrightarrow> map_of (tc_seen c) (tc_tid c) = None) \<and>
     (\<forall>pdu. tc_future c = Some (Inr pdu) \<longrightarrow> map_of (tc_seen c) (tc_tid c) = Some pdu) \<and>
     (\<forall>e. tc_future c = Some (Inl e) \<longrightarrow> e = ModbusConnectionError)"

definition tcp_inv :: "tcp_state \<Rightarrow> bool" where
  "tcp_inv st \<longleftrightarrow>
     0 \<le> tt_next_tid st \<and> tt_next_tid st \<le> 0xFFFF \<and>
     (\<forall>t k. tt_pending st t = Some k \<longrightarrow> 0 \<le> t \<and> t \<le> 0xFFFF \<and> (\<exists>c. tt_calls st k = Some c \<and> tc_tid c = t)) \<and>
     (\<forall>k c. tt_calls st k = Some c \<longrightarrow> call_ok (tt_pending st) k c)"

lemma tcp_inv_cong:
  "tcp_inv st \<Longrightarrow> tt_next_tid st' = tt_next_tid st \<Longrightarrow> tt_pending st' = tt_pending st \<Longrightarrow> tt_calls st' = tt_calls st \<Longrightarrow>
   tcp_inv st'"
  by (simp add: tcp_inv_def)

lemma allocate_tid_fresh:
  assumes "0 \<le> t" "t \<le> 0xFFFF" "allocate_tid t pending = (r, t')"
  shows "0 \<le> t' \<and> t' \<le> 0xFFFF \<and> (case r of Inr tid \<Rightarrow> 0 \<le> tid \<and> tid \<le> 0xFFFF \<and> pending tid = None | Inl e \<Rightarrow> e = ModbusError)"
proof -
  have m: "x mod 65536 \<le> 65535" for x :: int using pos_mod_bound [of 65536 x] by simp
  have "t < 65536" using assms(2) by simp
  with assms(1) show ?thesis
    by (cases rule: probe_cases [where n = 65536 and pending = pending])
      (use assms(3) m in \<open>auto simp: allocate_tid_def\<close>)
qed

lemma tcp_inv_call_begin:
  assumes inv: "tcp_inv st" and k: "tt_calls st k = None"
  shows "tcp_inv (snd (call_begin k pdu unit_id st))"
proof -
  obtain r t where a: "allocate_tid (tt_next_tid st) (tt_pending st) = (r, t)" by fastforce
  have fresh: "0 \<le> t \<and> t \<le> 0xFFFF"
      "case r of Inr tid \<Rightarrow> 0 \<le> tid \<and> tid \<le> 0xFFFF \<and> tt_pending st tid = None | Inl e \<Rightarrow> e = ModbusError"
    using allocate_tid_fresh [OF _ _ a] inv by (auto simp: tcp_inv_def)
  have next_only: "tcp_inv (st\<lparr>tt_next_tid := t\<rparr>)" using inv fresh(1) by (simp add: tcp_inv_def)
  have "tcp_inv (st\<lparr>tt_next_tid := t, tt_pending := (tt_pending st)(tid \<mapsto> k),
      tt_calls := (tt_calls st)(k \<mapsto> \<lparr>tc_tid = tid, tc_request = (unit_id, pdu), tc_future = None, tc_seen = []\<rparr>), tt_wire := w\<rparr>)"
    if "r = Inr tid" for tid w
    using inv fresh k that by (auto simp: tcp_inv_def call_ok_def) (metis option.distinct(1))
  with a next_only show ?thesis
    by (auto simp: call_begin_def Let_def split: sum.split option.split)
qed

lemma tcp_inv_call_end: "tcp_inv st \<Longrightarrow> tt_calls st k = Some c \<Longrightarrow> tcp_inv (call_end k c st)"
  by (auto simp: tcp_inv_def call_end_def call_ok_def) (metis option.inject)

lemma call_ok_seen:
  assumes "call_ok pending k c" "tc_future c = None \<and> pending (tc_tid c) = Some k \<longrightarrow> tid \<noteq> tc_tid c"
  shows "call_ok pending k (c\<lparr>tc_seen := tc_seen c @ [(tid, pdu)]\<rparr>)"
  using assms by (auto simp: call_ok_def map_add_def)

lemma call_ok_resolved:
  assumes "call_ok pending k c" "pending (tc_tid c) = Some k"
  shows "call_ok pending k ((resolve (Inr pdu) c)\<lparr>tc_seen := tc_seen c @ [(tc_tid c, pdu)]\<rparr>)"
  using assms by (auto simp: call_ok_def resolve_def map_add_def)

lemma resolve_simps [simp]: "tc_tid (resolve r c) = tc_tid c" "tc_seen (resolve r c) = tc_seen c"
  by (simp_all add: resolve_def)

lemma tcp_inv_deliver:
  assumes inv: "tcp_inv st"
  shows "tcp_inv (deliver tid pdu st)"
proof -
  have ok: "call_ok (tt_pending st) k c'" if c': "tt_calls (deliver tid pdu st) k = Some c'" for k c'
  proof -
    from c' obtain c where c: "tt_calls st k = Some c"
      "c' = (if tt_pending st tid = Some k then resolve (Inr pdu) c else c)\<lparr>tc_seen := tc_seen c @ [(tid, pdu)]\<rparr>"
      by (auto simp: deliver_def Let_def split: option.splits if_splits)
    have okc: "call_ok (tt_pending st) k c" using inv c(1) by (simp add: tcp_inv_def)
    show ?thesis
    proof (cases "tt_pending st tid = Some k")
      case True
      with inv c(1) have "tc_tid c = tid" by (fastforce simp: tcp_inv_def)
      with call_ok_resolved [OF okc] True c(2) show ?thesis by simp
    next
      case False
      then have "tc_future c = None \<and> tt_pending st (tc_tid c) = Some k \<longrightarrow> tid \<noteq> tc_tid c" by auto
      from call_ok_seen [OF okc this] False c(2) show ?thesis by simp
    qed
  qed
  have "\<exists>c'. tt_calls (deliver tid pdu st) k = Some c' \<and> tc_tid c' = tc_tid c" if "tt_calls st k = Some c" for k c
    using that by (auto simp: deliver_def Let_def split: option.splits)
  with ok inv show ?thesis
    by (fastforce simp: tcp_inv_def deliver_def Let_def)
qed

lemma tcp_inv_read_loop: "tcp_inv st \<Longrightarrow> tcp_inv (snd (read_loop buf st))"
proof (induction buf st rule: read_loop.induct)
  case (1 buf st)
  show ?case
    using 1 tcp_inv_deliver by (subst read_loop.simps) (auto split: sum.split option.split)
qed

lemma tcp_inv_finish: "tcp_inv st \<Longrightarrow> tcp_inv (teardown_finish who st)"
  by (auto simp: tcp_inv_def teardown_finish_def call_ok_def resolve_def split: if_splits)

lemma tcp_inv_loop_end: "tcp_inv st \<Longrightarrow> tcp_inv (loop_end c st)"
  by (erule tcp_inv_cong) (simp_all add: loop_end_def teardown_begin_def)

lemma tcp_inv_loop_reads: "tcp_inv st \<Longrightarrow> tcp_inv (loop_reads c buf data st)"
  using tcp_inv_read_loop [of st "buf @ data"]
  by (auto simp: loop_reads_def Let_def tcp_inv_loop_end split: prod.split sum.split intro: tcp_inv_cong)

lemma tcp_inv_init: "tcp_inv tcp_init"
  by (simp add: tcp_inv_def tcp_init_def)

lemma tcp_inv_task: "tcp_task st st' \<Longrightarrow> tcp_inv st \<Longrightarrow> tcp_inv st'"
proof (induction rule: tcp_task.induct)
  case (step_connect st)
  then show ?case by (elim tcp_inv_cong) (simp_all add: checked_connect_def connect_begin_def)
next
  case (step_reconnect st)
  then show ?case by (elim tcp_inv_cong) (simp_all add: connect_begin_def)
next
  case (step_connected st opened)
  then show ?case by (elim tcp_inv_cong) (simp_all add: connect_done_def Let_def split: sum.split)
next
  case (step_call st k pdu unit_id)
  then show ?case by (intro tcp_inv_call_begin)
next
  case (step_return st k c how r)
  then show ?case by (intro tcp_inv_call_end)
next
  case (step_lost st c buf)
  then show ?case by (intro tcp_inv_loop_end) (auto elim: tcp_inv_cong)
next
  case (step_loop_cancelled st who c buf)
  then show ?case by (intro tcp_inv_loop_end)
next
  case (step_teardown_cancelled st who c)
  then show ?case by (elim tcp_inv_cong) simp_all
next
  case (step_close st)
  then show ?case by (elim tcp_inv_cong) (simp_all add: close_begin_def teardown_begin_def)
next
  case (step_cancel st who)
  then show ?case by (elim tcp_inv_cong) (simp_all add: teardown_cancel_def)
qed (auto intro: tcp_inv_finish)

lemma tcp_inv_step: "tcp_step st st' \<Longrightarrow> tcp_inv st \<Longrightarrow> tcp_inv st'"
  by (elim tcp_stepE) (auto intro: tcp_inv_task tcp_inv_loop_reads)

lemma tcp_reachable_inv: "tcp_step\<^sup>*\<^sup>* tcp_init st \<Longrightarrow> tcp_inv st"
  by (induction rule: rtranclp_induct) (auto intro: tcp_inv_init tcp_inv_step)

section \<open>Properties\<close>

text \<open>
  C29: allocation of transaction ids.  From any 16-bit counter, \<open>_allocate_tid\<close> returns the first id from
  there on, wrapping around at 65536, that no call in flight holds, and moves the counter behind it;
  it raises \<open>ModbusError\<close> exactly if all 65536 ids are held.
\<close>

theorem allocate_tid_correct:
  assumes "0 \<le> t" "t \<le> 0xFFFF"
  shows "if \<exists>tid. 0 \<le> tid \<and> tid \<le> 0xFFFF \<and> pending tid = None
    then \<exists>i < 65536. pending ((t + int i) mod 65536) = None \<and>
      (\<forall>j < i. pending ((t + int j) mod 65536) \<noteq> None) \<and>
      allocate_tid t pending = (Inr ((t + int i) mod 65536), (t + int i + 1) mod 65536)
    else allocate_tid t pending = (Inl ModbusError, t)"
proof -
  have t: "0 \<le> t" "t < 65536" using assms by simp_all
  have m: "x mod 65536 \<le> 65535" for x :: int using pos_mod_bound [of 65536 x] by simp
  from t show ?thesis
  proof (cases rule: probe_cases [where n = 65536 and pending = pending])
    case (free i)
    then have "\<exists>tid. 0 \<le> tid \<and> tid \<le> 0xFFFF \<and> pending tid = None"
      using m by (intro exI [of _ "(t + int i) mod 65536"]) auto
    with free show ?thesis by (auto simp: allocate_tid_def)
  next
    case full
    have taken: "pending tid \<noteq> None" if "0 \<le> tid" "tid \<le> 0xFFFF" for tid
    proof -
      have "(t + int (nat ((tid - t) mod 65536))) mod 65536 = tid mod 65536" by (simp add: mod_simps)
      also have "\<dots> = tid" using that by simp
      finally show ?thesis
        using full(1) [of "nat ((tid - t) mod 65536)"] pos_mod_bound [of 65536 "tid - t"] by (simp add: nat_less_iff)
    qed
    have "(t + int 65536) mod 65536 = t" using t by simp
    with taken full(2) show ?thesis by (auto simp: allocate_tid_def)
  qed
qed

theorem allocate_tid_correct_witness:
  "\<exists>i < 65536. allocate_tid 65535 [65535 \<mapsto> ()] = (Inr ((65535 + int i) mod 65536), (65535 + int i + 1) mod 65536)"
proof -
  have "\<exists>tid. 0 \<le> tid \<and> tid \<le> 0xFFFF \<and> [65535 :: int \<mapsto> ()] tid = None" by (intro exI [of _ 0]) simp
  with allocate_tid_correct [of 65535 "[65535 \<mapsto> ()]"] show ?thesis by auto
qed

text \<open>Whatever arrives, the read loop leaves the registrations alone.\<close>

lemma read_loop_pending: "tt_pending (snd (read_loop buf st)) = tt_pending st"
proof (induction buf st rule: read_loop.induct)
  case (1 buf st)
  then show ?case by (subst read_loop.simps) (auto simp: deliver_def Let_def split: sum.split option.split)
qed

text \<open>A call that begins gets an id that no registered call holds.\<close>

lemma call_begin_registers:
  assumes "tcp_inv st" "call_begin k pdu unit_id st = (Inr (), st')"
  obtains t c where "tt_pending st t = None" "tt_pending st' = (tt_pending st)(t \<mapsto> k)" "tt_calls st' = (tt_calls st)(k \<mapsto> c)"
    "tc_tid c = t" "tc_request c = (unit_id, pdu)" "tc_future c = None"
proof -
  obtain r n where a: "allocate_tid (tt_next_tid st) (tt_pending st) = (r, n)" by fastforce
  with assms(2) obtain t where t: "r = Inr t" by (cases r) (auto simp: call_begin_def Let_def)
  with allocate_tid_fresh [OF _ _ a] assms(1) have "tt_pending st t = None" by (simp add: tcp_inv_def)
  with assms(2) a t show thesis
    by (intro that [of t]) (auto simp: call_begin_def Let_def split: option.splits sum.splits)
qed

text \<open>What can end a registration: the call has returned, its future is resolved, or another call under its id has returned.\<close>

definition registration_ended :: "int \<Rightarrow> nat \<Rightarrow> tcp_state \<Rightarrow> tcp_state \<Rightarrow> bool" where
  "registration_ended t k st st' \<longleftrightarrow>
     tt_calls st' k = None \<or> (\<exists>c. tt_calls st' k = Some c \<and> tc_future c \<noteq> None) \<or>
     (\<exists>i c. i \<noteq> k \<and> tt_calls st i = Some c \<and> tc_tid c = t \<and> tt_calls st' i = None)"

lemma registration_kept:
  assumes inv: "tcp_inv st" and step: "tcp_step st st'" and k: "tt_pending st t = Some k"
  shows "tt_pending st' t = Some k \<or> registration_ended t k st st'"
proof -
  obtain call where call: "tt_calls st k = Some call" "tc_tid call = t" using inv k by (auto simp: tcp_inv_def)
  have finish: "registration_ended t k st (teardown_finish who st)" for who
    using call k by (auto simp: registration_ended_def teardown_finish_def resolve_def)
  from step show ?thesis
  proof (cases rule: tcp_step.cases)
    case (step_data c buf data)
    with k read_loop_pending [of "buf @ data" st] show ?thesis
      by (auto simp: loop_reads_def Let_def loop_end_def teardown_begin_def split: prod.splits sum.splits)
  next
    case step_task
    then show ?thesis
    proof (cases rule: tcp_task.cases)
      case (step_call i pdu unit_id)
      obtain r n where a: "allocate_tid (tt_next_tid st) (tt_pending st) = (r, n)" by fastforce
      with allocate_tid_fresh [OF _ _ a] inv k have "r \<noteq> Inr t" by (auto simp: tcp_inv_def)
      with step_call a k show ?thesis by (auto simp: call_begin_def Let_def split: sum.splits option.splits)
    next
      case (step_return i c how r)
      show ?thesis
      proof (cases "tc_tid c = t")
        case False
        with step_return k show ?thesis by (simp add: call_end_def)
      next
        case True
        with step_return show ?thesis by (cases "i = k") (auto simp: registration_ended_def call_end_def)
      qed
    next
      case (step_connected opened)
      with k show ?thesis by (auto simp: connect_done_def Let_def split: sum.splits)
    next
      case step_finish
      with finish show ?thesis by simp
    next
      case step_cancelled
      with finish show ?thesis by simp
    qed (use k in \<open>auto simp: checked_connect_def connect_begin_def loop_end_def teardown_begin_def close_begin_def teardown_cancel_def\<close>)
  qed
qed


text \<open>Two concrete runs: a call on a connection, and a connection opened while the transport closes.\<close>

lemma tcp_run:
  assumes "tcp_step\<^sup>*\<^sup>* s0 st" "tcp_step st st'"
  shows "tcp_step\<^sup>*\<^sup>* s0 st'"
  using assms by (rule rtranclp.rtrancl_into_rtrancl)

definition tcp_up :: tcp_state where
  "tcp_up = snd (connect_done (Inr ()) (snd (checked_connect tcp_init)))"

lemma tcp_up_reached: "tcp_step\<^sup>*\<^sup>* tcp_init tcp_up"
proof -
  have "tcp_step\<^sup>*\<^sup>* tcp_init (snd (checked_connect tcp_init))"
    by (rule r_into_rtranclp) (rule tcp_task_step(1), simp add: tcp_init_def)
  then show ?thesis
    unfolding tcp_up_def
    by (rule tcp_run) (rule tcp_task_step(3), simp add: tcp_init_def checked_connect_def connect_begin_def)
qed

lemma allocate_tid_free: "pending t = None \<Longrightarrow> allocate_tid t pending = (Inr t, (t + 1) mod 65536)"
proof -
  assume "pending t = None"
  then have "probe (Suc 65535) t pending = (Inr t, (t + 1) mod 65536)"
    unfolding probe.simps by (simp add: and_FFFF Let_def)
  then show ?thesis by (simp add: allocate_tid_def)
qed


text \<open>
  C30: races of \<open>_teardown\<close>.  A teardown looks at \<open>_read_task\<close> only after it has awaited the close of its own
  writer.  If a new call has connected again in between, the teardown of the lost connection cancels
  the read loop of the new one: the new call fails with \<open>ModbusConnectionError\<close> although its connection
  was never lost and the transport was not closed.  And \<open>_ensure_connected\<close> does not look at \<open>_closed\<close>
  again when the connection has opened: a transport whose \<open>close\<close> has finished can become connected,
  with a running read loop.
\<close>

theorem tcp_teardown_races:
  "(\<exists>st c frame. tcp_step\<^sup>*\<^sup>* tcp_init st \<and> \<not> tt_closed st \<and> tt_lost st = {0} \<and> tt_wire st = [(1, frame)] \<and>
      tt_calls st 7 = Some c \<and> call_outcome Resolved c = Some (Inl ModbusConnectionError)) \<and>
   (\<exists>st. tcp_step\<^sup>*\<^sup>* tcp_init st \<and> tt_closed st \<and> tt_teardowns st = Map.empty \<and> tt_connected st \<and>
      tt_loops st 0 = Some [])"
proof
  define s1 where "s1 = loop_end 0 (tcp_up\<lparr>tt_lost := insert 0 (tt_lost tcp_up)\<rparr>)"
  define s2 where "s2 = snd (connect_begin s1)"
  define s3 where "s3 = snd (connect_done (Inr ()) s2)"
  define s4 where "s4 = snd (call_begin 7 [3, 0, 0, 0, 1] 1 s3)"
  define s5 where "s5 = teardown_cancel (ReadLoop 0) s4"
  define s6 where "s6 = loop_end 1 s5"
  define s7 where "s7 = teardown_cancel (ReadLoop 1) s6"
  define s8 where "s8 = teardown_finish (ReadLoop 1) s7"
  have enc: "encode_mbap_frame 0 1 [3, 0, 0, 0, 1] = Inr [0, 0, 0, 0, 0, 6, 1, 3, 0, 0, 0, 1]"
    by (simp add: encode_mbap_frame_eq)
  note ops = tcp_up_def connect_done_def checked_connect_def connect_begin_def tcp_init_def loop_end_def teardown_begin_def
    call_begin_def teardown_cancel_def teardown_finish_def
  note defs = s1_def s2_def s3_def s4_def s5_def s6_def s7_def s8_def ops
  have "tcp_step\<^sup>*\<^sup>* tcp_init s1"
    unfolding s1_def by (rule tcp_run [OF tcp_up_reached]) (rule tcp_task_step(6) [where buf = "[]"], simp add: ops)
  then have "tcp_step\<^sup>*\<^sup>* tcp_init s2"
    unfolding s2_def by (rule tcp_run) (rule tcp_task_step(2), simp add: defs)
  then have "tcp_step\<^sup>*\<^sup>* tcp_init s3"
    unfolding s3_def by (rule tcp_run) (rule tcp_task_step(3), simp add: defs)
  then have "tcp_step\<^sup>*\<^sup>* tcp_init s4"
    unfolding s4_def by (rule tcp_run) (rule tcp_task_step(4), simp add: defs)
  then have "tcp_step\<^sup>*\<^sup>* tcp_init s5"
    unfolding s5_def by (rule tcp_run) (rule tcp_task_step(10), simp add: defs allocate_tid_free enc)
  then have "tcp_step\<^sup>*\<^sup>* tcp_init s6"
    unfolding s6_def
    by (rule tcp_run) (rule tcp_task_step(7) [where who = "ReadLoop 0" and buf = "[]"];
      simp add: defs allocate_tid_free enc)
  then have "tcp_step\<^sup>*\<^sup>* tcp_init s7"
    unfolding s7_def by (rule tcp_run) (rule tcp_task_step(10), simp add: defs)
  then have "tcp_step\<^sup>*\<^sup>* tcp_init s8"
    unfolding s8_def by (rule tcp_run) (rule tcp_task_step(11), simp add: defs allocate_tid_free enc)
  moreover have "\<not> tt_closed s8" "tt_lost s8 = {0}" "\<exists>frame. tt_wire s8 = [(1, frame)]"
      "\<exists>c. tt_calls s8 7 = Some c \<and> call_outcome Resolved c = Some (Inl ModbusConnectionError)"
    by (simp_all add: defs allocate_tid_free enc resolve_def)
  ultimately show "\<exists>st c frame. tcp_step\<^sup>*\<^sup>* tcp_init st \<and> \<not> tt_closed st \<and> tt_lost st = {0} \<and> tt_wire st = [(1, frame)] \<and>
      tt_calls st 7 = Some c \<and> call_outcome Resolved c = Some (Inl ModbusConnectionError)" by blast
next
  define s1 where "s1 = snd (checked_connect tcp_init)"
  define s2 where "s2 = close_begin s1"
  define s3 where "s3 = teardown_cancel Closer s2"
  define s4 where "s4 = teardown_finish Closer s3"
  define s5 where "s5 = snd (connect_done (Inr ()) s4)"
  note defs = s1_def s2_def s3_def s4_def s5_def connect_done_def checked_connect_def connect_begin_def tcp_init_def
    close_begin_def teardown_begin_def teardown_cancel_def teardown_finish_def
  have "tcp_step\<^sup>*\<^sup>* tcp_init s1"
    unfolding s1_def by (rule r_into_rtranclp) (rule tcp_task_step(1), simp add: tcp_init_def)
  then have "tcp_step\<^sup>*\<^sup>* tcp_init s2"
    unfolding s2_def by (rule tcp_run) (rule tcp_task_step(9), simp add: defs)
  then have "tcp_step\<^sup>*\<^sup>* tcp_init s3"
    unfolding s3_def by (rule tcp_run) (rule tcp_task_step(10), simp add: defs)
  then have "tcp_step\<^sup>*\<^sup>* tcp_init s4"
    unfolding s4_def by (rule tcp_run) (rule tcp_task_step(11), simp add: defs)
  then have "tcp_step\<^sup>*\<^sup>* tcp_init s5"
    unfolding s5_def by (rule tcp_run) (rule tcp_task_step(3), simp add: defs)
  moreover have "tt_closed s5" "tt_teardowns s5 = Map.empty" "tt_connected s5" "tt_loops s5 0 = Some []"
    by (simp_all add: defs)
  ultimately show "\<exists>st. tcp_step\<^sup>*\<^sup>* tcp_init st \<and> tt_closed st \<and> tt_teardowns st = Map.empty \<and> tt_connected st \<and>
      tt_loops st 0 = Some []" by blast
qed

end
