(* ===== verification/Tcp_System.thy ===== *)
theory Tcp_System
  imports Tcp_Laws Server_Laws "HOL-Library.Sublist"
begin

text \<open>
  The TCP transport of a client connected to the TCP server of \<open>src/pymod/server.py\<close>: bytes travel in
  both directions of every connection in pieces of any size and at any time, between the steps of the
  transport and those of the server.  The host may change its store between any two of them.
\<close>

section \<open>The system\<close>

text \<open>
  For each connection: the number of bytes that have arrived at the server, those it has not handled,
  whether its handler still runs, and the bytes sent back that the client has not read.  \<open>sys_served\<close> is not
  part of the program: the requests handled so far, with their connection and the store they met.
\<close>

record 's tcp_system =
  sys_client :: tcp_state
  sys_store :: 's
  sys_arrived :: "nat \<Rightarrow> nat"
  sys_unread :: "nat \<Rightarrow> bytes"
  sys_open :: "nat \<Rightarrow> bool"
  sys_answers :: "nat \<Rightarrow> bytes"
  sys_served :: "(nat \<times> bytes \<times> 's) list"

definition system_init :: "'s \<Rightarrow> 's tcp_system" where
  "system_init st = \<lparr>sys_client = tcp_init, sys_store = st, sys_arrived = (\<lambda>_. 0), sys_unread = (\<lambda>_. []),
     sys_open = (\<lambda>_. True), sys_answers = (\<lambda>_. []), sys_served = []\<rparr>"

text \<open>What the client has written on a connection.\<close>

definition frames_on :: "nat \<Rightarrow> (nat \<times> bytes) list \<Rightarrow> bytes list" where
  "frames_on c wire = map snd (filter (\<lambda>x. fst x = c) wire)"

text \<open>The handler of a connection takes one frame from the bytes that have arrived.\<close>

definition server_handles :: "'s server \<Rightarrow> nat \<Rightarrow> bytes \<Rightarrow> bytes \<Rightarrow> 's tcp_system \<Rightarrow> 's tcp_system" where
  "server_handles srv c frame rest sys =
     (let (sent, status, st) = serve_buffer srv frame (sys_store sys)
      in sys\<lparr>sys_store := st, sys_unread := (sys_unread sys)(c := rest),
             sys_open := (sys_open sys)(c := (case status of Reading _ \<Rightarrow> True | Dropped _ \<Rightarrow> False)),
             sys_answers := (sys_answers sys)(c := sys_answers sys c @ concat sent),
             sys_served := sys_served sys @ [(c, frame, sys_store sys)]\<rparr>)"

inductive system_step :: "'s server \<Rightarrow> 's tcp_system \<Rightarrow> 's tcp_system \<Rightarrow> bool" for srv where
  system_client: "tcp_task (sys_client sys) cl \<Longrightarrow> system_step srv sys (sys\<lparr>sys_client := cl\<rparr>)"
| system_arrive: "sys_arrived sys c + length data \<le> length (concat (frames_on c (tt_wire (sys_client sys)))) \<Longrightarrow>
    data = take (length data) (drop (sys_arrived sys c) (concat (frames_on c (tt_wire (sys_client sys))))) \<Longrightarrow>
    system_step srv sys (sys\<lparr>sys_arrived := (sys_arrived sys)(c := sys_arrived sys c + length data),
      sys_unread := (sys_unread sys)(c := sys_unread sys c @ data)\<rparr>)"
| system_serve: "sys_open sys c \<Longrightarrow> next_frame (sys_unread sys c) = Inr (Some (frame, rest)) \<Longrightarrow>
    system_step srv sys (server_handles srv c frame rest sys)"
| system_answer: "tt_loops (sys_client sys) c = Some buf \<Longrightarrow> sys_answers sys c = data @ later \<Longrightarrow>
    system_step srv sys (sys\<lparr>sys_client := loop_reads c buf data (sys_client sys), sys_answers := (sys_answers sys)(c := later)\<rparr>)"
| system_host: "system_step srv sys (sys\<lparr>sys_store := st\<rparr>)"

inductive_cases system_stepE: "system_step srv sys sys'"

text \<open>The client of a system makes the steps of the transport.\<close>

lemma system_client_steps:
  assumes "(system_step srv)\<^sup>*\<^sup>* (system_init st) sys"
  shows "tcp_step\<^sup>*\<^sup>* tcp_init (sys_client sys)"
  using assms
proof (induction rule: rtranclp_induct)
  case base
  then show ?case by (simp add: system_init_def)
next
  case (step sys sys')
  from step.hyps(2) have "sys_client sys' = sys_client sys \<or> tcp_step (sys_client sys) (sys_client sys')"
    by (elim system_stepE) (auto simp: server_handles_def split: prod.split intro: tcp_step.intros)
  with step.IH show ?case using rtranclp.rtrancl_into_rtrancl by metis
qed

section \<open>What the steps of the transport change\<close>

text \<open>
  From \<open>st\<close> to \<open>st'\<close> the client has only read responses of \<open>S\<close>; a running read loop, a registered call and a
  written frame stay what they are.
\<close>

definition only_read :: "(int \<times> bytes) set \<Rightarrow> tcp_state \<Rightarrow> tcp_state \<Rightarrow> bool" where
  "only_read S st st' \<longleftrightarrow>
     tt_wire st' = tt_wire st \<and> tt_conns st' = tt_conns st \<and> tt_loops st' = tt_loops st \<and> tt_writer st' = tt_writer st \<and>
     (\<forall>k call'. tt_calls st' k = Some call' \<longrightarrow> (\<exists>call. tt_calls st k = Some call \<and> tc_tid call' = tc_tid call \<and>
        tc_request call' = tc_request call \<and> set (tc_seen call') \<subseteq> set (tc_seen call) \<union> S))"

lemma only_read_refl: "only_read S st st"
  by (auto simp: only_read_def)

lemma only_read_call:
  assumes "only_read S st st'" "tt_calls st' k = Some call'"
  obtains call where "tt_calls st k = Some call" "tc_tid call' = tc_tid call" "tc_request call' = tc_request call"
    "set (tc_seen call') \<subseteq> set (tc_seen call) \<union> S"
  using assms unfolding only_read_def by blast

lemma only_read_trans:
  assumes "only_read S st st'" "only_read S st' st''"
  shows "only_read S st st''"
proof -
  have "\<exists>call. tt_calls st k = Some call \<and> tc_tid call'' = tc_tid call \<and> tc_request call'' = tc_request call \<and>
      set (tc_seen call'') \<subseteq> set (tc_seen call) \<union> S" if "tt_calls st'' k = Some call''" for k call''
  proof -
    from assms(2) that obtain call' where 1: "tt_calls st' k = Some call'" "tc_tid call'' = tc_tid call'"
      "tc_request call'' = tc_request call'" "set (tc_seen call'') \<subseteq> set (tc_seen call') \<union> S" by (rule only_read_call)
    from assms(1) 1(1) obtain call where "tt_calls st k = Some call" "tc_tid call' = tc_tid call"
      "tc_request call' = tc_request call" "set (tc_seen call') \<subseteq> set (tc_seen call) \<union> S" by (rule only_read_call)
    with 1 show ?thesis by auto
  qed
  with assms show ?thesis by (simp add: only_read_def)
qed

lemma only_read_deliver: "(tid, pdu) \<in> S \<Longrightarrow> only_read S st (deliver tid pdu st)"
proof -
  assume S: "(tid, pdu) \<in> S"
  have "\<exists>call. tt_calls st k = Some call \<and> tc_tid call' = tc_tid call \<and> tc_request call' = tc_request call \<and>
      set (tc_seen call') = insert (tid, pdu) (set (tc_seen call))"
    if "tt_calls (deliver tid pdu st) k = Some call'" for k call'
  proof -
    have "tt_calls (deliver tid pdu st) k = map_option (\<lambda>c. c\<lparr>tc_seen := tc_seen c @ [(tid, pdu)]\<rparr>)
        (map_option (if tt_pending st tid = Some k then resolve (Inr pdu) else id) (tt_calls st k))"
      by (simp add: deliver_def Let_def option.map_id split: option.split)
    with that obtain call where "tt_calls st k = Some call"
      "call' = (let c = (if tt_pending st tid = Some k then resolve (Inr pdu) else id) call in c\<lparr>tc_seen := tc_seen c @ [(tid, pdu)]\<rparr>)"
      by (auto simp: Let_def)
    then show ?thesis by (simp add: Let_def resolve_def)
  qed
  moreover have "tt_wire (deliver tid pdu st) = tt_wire st \<and> tt_conns (deliver tid pdu st) = tt_conns st \<and>
      tt_loops (deliver tid pdu st) = tt_loops st \<and> tt_writer (deliver tid pdu st) = tt_writer st"
    by (simp add: deliver_def Let_def)
  ultimately show ?thesis using S unfolding only_read_def by fastforce
qed

text \<open>A read loop on the first bytes of a sequence of response frames delivers the complete ones.\<close>

lemma read_loop_frames:
  assumes "x @ y = concat R" "\<forall>f \<in> set R. \<exists>tid uid pdu. encode_mbap_frame tid uid pdu = Inr f \<and> (tid, pdu) \<in> S"
  shows "\<exists>rest R' st'. read_loop x st = (Inr rest, st') \<and> rest @ y = concat R' \<and> set R' \<subseteq> set R \<and> only_read S st st'"
  using assms
proof (induction R arbitrary: x st)
  case Nil
  then show ?case by (auto simp: read_loop.simps next_frame_short only_read_refl)
next
  case (Cons f R)
  from Cons.prems(2) obtain tid uid pdu where f: "encode_mbap_frame tid uid pdu = Inr f" "(tid, pdu) \<in> S" by auto
  show ?case
  proof (rule next_frame_cases [of x])
    assume "next_frame x = Inr None"
    with Cons.prems(1) show ?thesis by (subst read_loop.simps) (auto intro!: only_read_refl exI [of _ "f # R"])
  next
    fix frame rest
    assume nf: "next_frame x = Inr (Some (frame, rest))"
    from next_frame_append [OF nf, of y] next_frame_encoded(1) [OF f(1), of "concat R"] Cons.prems(1)
    have rest: "frame = f" "rest @ y = concat R" by auto
    have "read_loop x st = read_loop rest (deliver tid pdu st)"
      using nf rest(1) next_frame_encoded(2) [OF f(1)] by (subst read_loop.simps) simp
    with Cons.IH [OF rest(2), of "deliver tid pdu st"] Cons.prems(2) only_read_deliver [OF f(2), of st]
    show ?thesis by (fastforce intro: only_read_trans)
  qed
qed

text \<open>Every other step writes at most one frame, and registers the call that wrote it.\<close>

definition task_keeps :: "tcp_state \<Rightarrow> tcp_state \<Rightarrow> bool" where
  "task_keeps st st' \<longleftrightarrow>
     (tt_wire st' = tt_wire st \<or> (\<exists>c tid uid pdu f. tt_writer st = Some c \<and> encode_mbap_frame tid uid pdu = Inr f \<and>
        tt_wire st' = tt_wire st @ [(c, f)])) \<and>
     tt_conns st \<le> tt_conns st' \<and>
     (\<forall>c. tt_writer st' = Some c \<longrightarrow> tt_writer st = Some c \<or> c = tt_conns st \<and> c < tt_conns st') \<and>
     (\<forall>c buf. tt_loops st' c = Some buf \<longrightarrow> tt_loops st c = Some buf \<or> c = tt_conns st \<and> c < tt_conns st' \<and> buf = []) \<and>
     (\<forall>k call'. tt_calls st' k = Some call' \<longrightarrow>
        (\<exists>call. tt_calls st k = Some call \<and> tc_tid call' = tc_tid call \<and> tc_request call' = tc_request call \<and>
           tc_seen call' = tc_seen call) \<or>
        tc_seen call' = [] \<and> (\<exists>c f. (c, f) \<in> set (tt_wire st') \<and>
           encode_mbap_frame (tc_tid call') (fst (tc_request call')) (snd (tc_request call')) = Inr f))"

lemma task_keeps_loop_end: "task_keeps st (loop_end c st)"
  by (auto simp: task_keeps_def loop_end_def teardown_begin_def split: if_splits)

lemma task_keeps_finish: "task_keeps st (teardown_finish who st)"
  by (auto simp: task_keeps_def teardown_finish_def resolve_def split: if_splits)

lemma task_keeps_call: "task_keeps st (snd (call_begin k pdu unit_id st))"
  by (auto simp: task_keeps_def call_begin_def Let_def split: prod.split sum.split option.split if_splits)

lemma tcp_task_keeps: "tcp_task st st' \<Longrightarrow> task_keeps st st'"
proof (induction rule: tcp_task.induct)
  case (step_lost st c buf)
  show ?case
    using task_keeps_loop_end [of "st\<lparr>tt_lost := insert c (tt_lost st)\<rparr>" c] by (simp add: task_keeps_def)
next
  case (step_connected st opened)
  show ?case by (auto simp: task_keeps_def connect_done_def Let_def split: sum.split if_splits)
next
  case (step_connect st)
  show ?case by (auto simp: task_keeps_def checked_connect_def connect_begin_def)
next
  case (step_reconnect st)
  show ?case by (auto simp: task_keeps_def connect_begin_def)
next
  case (step_return st k c how r)
  show ?case by (auto simp: task_keeps_def call_end_def)
next
  case (step_close st)
  show ?case by (auto simp: task_keeps_def close_begin_def teardown_begin_def)
next
  case (step_cancel st who)
  show ?case by (auto simp: task_keeps_def teardown_cancel_def)
next
  case (step_teardown_cancelled st who c)
  show ?case by (auto simp: task_keeps_def)
qed (rule task_keeps_call task_keeps_loop_end task_keeps_finish)+

section \<open>The invariant of the system\<close>

text \<open>The server has handled a request with this transaction id and answered it so.\<close>

definition answered :: "'s server \<Rightarrow> (nat \<times> bytes \<times> 's) list \<Rightarrow> nat \<Rightarrow> int \<Rightarrow> bytes \<Rightarrow> bool" where
  "answered srv served c tid resp \<longleftrightarrow>
     (\<exists>uid req frame st. (c, frame, st) \<in> set served \<and> encode_mbap_frame tid uid req = Inr frame \<and>
        fst (dispatch srv uid req st) = Inr resp)"

definition served_on :: "nat \<Rightarrow> (nat \<times> bytes \<times> 's) list \<Rightarrow> bytes list" where
  "served_on c served = map (\<lambda>x. fst (snd x)) (filter (\<lambda>x. fst x = c) served)"

text \<open>Frames are written on connections that exist, and each is the encoding of a request.\<close>

definition wire_ok :: "tcp_state \<Rightarrow> bool" where
  "wire_ok cl \<longleftrightarrow>
     (\<forall>(c, f) \<in> set (tt_wire cl). c < tt_conns cl \<and> (\<exists>tid uid pdu. encode_mbap_frame tid uid pdu = Inr f)) \<and>
     (\<forall>c. tt_writer cl = Some c \<longrightarrow> c < tt_conns cl)"

text \<open>On each connection the server handles the frames that the client writes, in order.\<close>

definition in_order :: "'s tcp_system \<Rightarrow> nat \<Rightarrow> bool" where
  "in_order sys c \<longleftrightarrow> sys_arrived sys c \<le> length (concat (frames_on c (tt_wire (sys_client sys)))) \<and> (\<exists>later.
     frames_on c (tt_wire (sys_client sys)) = served_on c (sys_served sys) @ later \<and>
     concat (served_on c (sys_served sys)) @ sys_unread sys c =
       take (sys_arrived sys c) (concat (frames_on c (tt_wire (sys_client sys)))))"

lemma in_orderE:
  assumes "in_order sys c"
  obtains later where "sys_arrived sys c \<le> length (concat (frames_on c (tt_wire (sys_client sys))))"
    "frames_on c (tt_wire (sys_client sys)) = served_on c (sys_served sys) @ later"
    "concat (served_on c (sys_served sys)) @ sys_unread sys c =
       take (sys_arrived sys c) (concat (frames_on c (tt_wire (sys_client sys))))"
  using assms by (auto simp: in_order_def)

lemma in_orderI:
  "sys_arrived sys c \<le> length (concat (frames_on c (tt_wire (sys_client sys)))) \<Longrightarrow>
   frames_on c (tt_wire (sys_client sys)) = served_on c (sys_served sys) @ later \<Longrightarrow>
   concat (served_on c (sys_served sys)) @ sys_unread sys c =
     take (sys_arrived sys c) (concat (frames_on c (tt_wire (sys_client sys)))) \<Longrightarrow> in_order sys c"
  by (auto simp: in_order_def)

definition responses :: "'s server \<Rightarrow> (nat \<times> bytes \<times> 's) list \<Rightarrow> nat \<Rightarrow> bytes list \<Rightarrow> bool" where
  "responses srv served c R \<longleftrightarrow>
     (\<forall>f \<in> set R. \<exists>tid uid resp. encode_mbap_frame tid uid resp = Inr f \<and> answered srv served c tid resp)"

lemma responses_append [simp]: "responses srv served c (R @ R') \<longleftrightarrow> responses srv served c R \<and> responses srv served c R'"
  by (auto simp: responses_def)

lemma responses_Nil [simp]: "responses srv served c []"
  by (simp add: responses_def)

text \<open>What is on its way back, with what the client's read loop has kept, are whole responses.\<close>

definition answers_ok :: "'s server \<Rightarrow> 's tcp_system \<Rightarrow> nat \<Rightarrow> bool" where
  "answers_ok srv sys c \<longleftrightarrow>
     (tt_conns (sys_client sys) \<le> c \<longrightarrow> sys_answers sys c = []) \<and>
     (\<forall>buf. tt_loops (sys_client sys) c = Some buf \<longrightarrow>
        (\<exists>R. buf @ sys_answers sys c = concat R \<and> responses srv (sys_served sys) c R))"

text \<open>A call has written its request, and has seen only responses that the server has given.\<close>

definition calls_ok :: "'s server \<Rightarrow> 's tcp_system \<Rightarrow> bool" where
  "calls_ok srv sys \<longleftrightarrow> (\<forall>k call. tt_calls (sys_client sys) k = Some call \<longrightarrow>
     (\<forall>(tid, resp) \<in> set (tc_seen call). \<exists>c. answered srv (sys_served sys) c tid resp) \<and>
     (\<exists>c f. (c, f) \<in> set (tt_wire (sys_client sys)) \<and>
        encode_mbap_frame (tc_tid call) (fst (tc_request call)) (snd (tc_request call)) = Inr f))"

lemma calls_okD:
  "calls_ok srv sys \<Longrightarrow> tt_calls (sys_client sys) k = Some call \<Longrightarrow>
   (\<forall>(tid, resp) \<in> set (tc_seen call). \<exists>c. answered srv (sys_served sys) c tid resp) \<and>
   (\<exists>c f. (c, f) \<in> set (tt_wire (sys_client sys)) \<and>
      encode_mbap_frame (tc_tid call) (fst (tc_request call)) (snd (tc_request call)) = Inr f)"
  unfolding calls_ok_def by blast

definition system_inv :: "'s server \<Rightarrow> 's tcp_system \<Rightarrow> bool" where
  "system_inv srv sys \<longleftrightarrow> wire_ok (sys_client sys) \<and> (\<forall>c. in_order sys c \<and> answers_ok srv sys c) \<and> calls_ok srv sys"

lemma answered_mono: "answered srv served c tid resp \<Longrightarrow> set served \<subseteq> set served' \<Longrightarrow> answered srv served' c tid resp"
  unfolding answered_def by blast

lemma responses_mono: "responses srv served c R \<Longrightarrow> set served \<subseteq> set served' \<Longrightarrow> responses srv served' c R"
  unfolding responses_def by (meson answered_mono)

lemma frames_on_append: "frames_on c (w @ w') = frames_on c w @ frames_on c w'"
  by (simp add: frames_on_def)

lemma system_inv_init: "system_inv srv (system_init st)"
  by (simp add: system_inv_def system_init_def tcp_init_def wire_ok_def in_order_def answers_ok_def calls_ok_def
      frames_on_def served_on_def)

text \<open>One lemma per step.\<close>

lemma system_inv_client:
  assumes inv: "system_inv srv sys" and keeps: "task_keeps (sys_client sys) cl"
  shows "system_inv srv (sys\<lparr>sys_client := cl\<rparr>)"
proof -
  let ?old = "sys_client sys"
  obtain new where wire: "tt_wire cl = tt_wire ?old @ new"
    and new: "\<forall>(c, f) \<in> set new. tt_writer ?old = Some c \<and> (\<exists>tid uid pdu. encode_mbap_frame tid uid pdu = Inr f)"
    using keeps unfolding task_keeps_def by (elim conjE disjE exE) (force, force)
  have conns: "tt_conns ?old \<le> tt_conns cl" using keeps by (simp add: task_keeps_def)
  have "wire_ok cl"
    using inv keeps conns new unfolding system_inv_def wire_ok_def wire task_keeps_def by fastforce
  moreover have "in_order (sys\<lparr>sys_client := cl\<rparr>) c" for c
  proof -
    have "in_order sys c" using inv by (simp add: system_inv_def)
    then show ?thesis by (elim in_orderE) (rule in_orderI, simp_all add: wire frames_on_append)
  qed
  moreover have "answers_ok srv (sys\<lparr>sys_client := cl\<rparr>) c" for c
  proof -
    have old: "answers_ok srv sys c" using inv by (simp add: system_inv_def)
    have "tt_loops cl c = Some buf \<Longrightarrow> tt_loops ?old c = Some buf \<or> c = tt_conns ?old \<and> buf = []" for buf
      using keeps by (auto simp: task_keeps_def)
    with old conns show ?thesis unfolding answers_ok_def by (fastforce intro: exI [of _ "[]"])
  qed
  moreover have "calls_ok srv (sys\<lparr>sys_client := cl\<rparr>)"
    unfolding calls_ok_def
  proof (intro allI impI)
    fix k call' assume c': "tt_calls (sys_client (sys\<lparr>sys_client := cl\<rparr>)) k = Some call'"
    then consider (old) call where "tt_calls ?old k = Some call" "tc_tid call' = tc_tid call" "tc_request call' = tc_request call"
        "tc_seen call' = tc_seen call"
      | (new) c f where "tc_seen call' = []" "(c, f) \<in> set (tt_wire cl)"
          "encode_mbap_frame (tc_tid call') (fst (tc_request call')) (snd (tc_request call')) = Inr f"
      using keeps unfolding task_keeps_def by simp blast
    then show "(\<forall>(tid, resp) \<in> set (tc_seen call'). \<exists>c. answered srv (sys_served (sys\<lparr>sys_client := cl\<rparr>)) c tid resp) \<and>
      (\<exists>c f. (c, f) \<in> set (tt_wire (sys_client (sys\<lparr>sys_client := cl\<rparr>))) \<and>
        encode_mbap_frame (tc_tid call') (fst (tc_request call')) (snd (tc_request call')) = Inr f)"
    proof cases
      case old
      have "calls_ok srv sys" using inv by (simp add: system_inv_def)
      from calls_okD [OF this old(1)] show ?thesis by (auto simp: old wire)
    qed auto
  qed
  ultimately show ?thesis by (simp add: system_inv_def)
qed

lemma system_inv_arrive:
  assumes inv: "system_inv srv sys"
    and data: "sys_arrived sys c + length data \<le> length (concat (frames_on c (tt_wire (sys_client sys))))"
      "data = take (length data) (drop (sys_arrived sys c) (concat (frames_on c (tt_wire (sys_client sys)))))"
  shows "system_inv srv (sys\<lparr>sys_arrived := (sys_arrived sys)(c := sys_arrived sys c + length data),
    sys_unread := (sys_unread sys)(c := sys_unread sys c @ data)\<rparr>)"
proof -
  let ?sys = "sys\<lparr>sys_arrived := (sys_arrived sys)(c := sys_arrived sys c + length data),
    sys_unread := (sys_unread sys)(c := sys_unread sys c @ data)\<rparr>"
  have "in_order ?sys d" for d
  proof -
    have "in_order sys d" using inv by (simp add: system_inv_def)
    then show ?thesis
    proof (rule in_orderE)
      fix later
      assume *: "sys_arrived sys d \<le> length (concat (frames_on d (tt_wire (sys_client sys))))"
        "frames_on d (tt_wire (sys_client sys)) = served_on d (sys_served sys) @ later"
        "concat (served_on d (sys_served sys)) @ sys_unread sys d =
           take (sys_arrived sys d) (concat (frames_on d (tt_wire (sys_client sys))))"
      have "concat (served_on c (sys_served sys)) @ sys_unread sys c @ data =
          take (sys_arrived sys c + length data) (concat (frames_on c (tt_wire (sys_client sys))))" if "d = c"
        using *(3) data(2) that unfolding take_add by (metis append.assoc)
      with * data(1) show ?thesis by (intro in_orderI [of _ _ later]) auto
    qed
  qed
  with inv show ?thesis by (simp add: system_inv_def answers_ok_def calls_ok_def)
qed

text \<open>The next frame that the server handles is the next that the client has written.\<close>

lemma next_served:
  assumes inv: "system_inv srv sys" and nf: "next_frame (sys_unread sys c) = Inr (Some (frame, rest))"
  obtains later tid uid req where "(c, frame) \<in> set (tt_wire (sys_client sys))" "encode_mbap_frame tid uid req = Inr frame"
    "frames_on c (tt_wire (sys_client sys)) = served_on c (sys_served sys) @ frame # later" "sys_unread sys c = frame @ rest"
proof -
  let ?wire = "tt_wire (sys_client sys)"
  have "in_order sys c" using inv by (simp add: system_inv_def)
  then obtain later where l: "frames_on c ?wire = served_on c (sys_served sys) @ later"
      "concat (served_on c (sys_served sys)) @ sys_unread sys c = take (sys_arrived sys c) (concat (frames_on c ?wire))"
    by (rule in_orderE)
  then have "concat (frames_on c ?wire) = concat (served_on c (sys_served sys)) @ sys_unread sys c @ drop (sys_arrived sys c) (concat (frames_on c ?wire))"
    by (metis append.assoc append_take_drop_id)
  with l(1) have later: "concat later = sys_unread sys c @ drop (sys_arrived sys c) (concat (frames_on c ?wire))" by simp
  from next_frame_append [OF nf, of "drop (sys_arrived sys c) (concat (frames_on c ?wire))"] later
  have nf': "next_frame (concat later) = Inr (Some (frame, rest @ drop (sys_arrived sys c) (concat (frames_on c ?wire))))" by simp
  have buf: "sys_unread sys c = frame @ rest" using nf by (rule_tac next_frame_cases [of "sys_unread sys c"]) auto
  show thesis
  proof (cases later)
    case Nil
    with nf' show ?thesis by (simp add: next_frame_short)
  next
    case (Cons f fs)
    then have "f \<in> set (frames_on c ?wire)" using l(1) by simp
    then have f: "(c, f) \<in> set ?wire" by (auto simp: frames_on_def)
    then obtain tid uid req where enc: "encode_mbap_frame tid uid req = Inr f"
      using inv by (fastforce simp: system_inv_def wire_ok_def)
    from next_frame_encoded(1) [OF enc, of "concat fs"] nf' Cons have "f = frame" by simp
    with that f enc buf l(1) Cons show ?thesis by blast
  qed
qed

lemma system_inv_serve:
  assumes inv: "system_inv srv sys" and nf: "next_frame (sys_unread sys c) = Inr (Some (frame, rest))"
  shows "system_inv srv (server_handles srv c frame rest sys)"
proof -
  let ?sys = "server_handles srv c frame rest sys"
  let ?served = "sys_served sys @ [(c, frame, sys_store sys)]"
  obtain later tid uid req where frame: "(c, frame) \<in> set (tt_wire (sys_client sys))" "encode_mbap_frame tid uid req = Inr frame"
    "frames_on c (tt_wire (sys_client sys)) = served_on c (sys_served sys) @ frame # later" "sys_unread sys c = frame @ rest"
    using next_served [OF inv nf] .
  obtain sent status st where sb: "serve_buffer srv frame (sys_store sys) = (sent, status, st)" by (cases "serve_buffer srv frame (sys_store sys)")
  have same: "sys_client ?sys = sys_client sys" "sys_arrived ?sys = sys_arrived sys" "sys_served ?sys = ?served"
      "sys_unread ?sys = (sys_unread sys)(c := rest)" "sys_answers ?sys = (sys_answers sys)(c := sys_answers sys c @ concat sent)"
    by (simp_all add: server_handles_def sb)
  have mono: "answered srv (sys_served sys) d t r \<Longrightarrow> answered srv ?served d t r" for d t r
    by (erule answered_mono) auto
  have "in_order ?sys d" for d
  proof -
    have "in_order sys d" using inv by (simp add: system_inv_def)
    then show ?thesis
      using frame(3,4) by (elim in_orderE) (rule in_orderI [of _ _ "if d = c then later else _"], auto simp: same served_on_def)
  qed
  moreover have "answers_ok srv ?sys d" for d
  proof -
    have ans: "answered srv ?served c tid resp" if "dispatch srv uid req (sys_store sys) = (Inr resp, st1)" for resp st1
      unfolding answered_def by (rule exI [of _ uid], rule exI [of _ req]) (use that frame(2) in auto)
    have sent: "responses srv ?served c sent"
      using sb ans unfolding serve_one_frame [OF frame(2)] responses_def
      by (auto split: prod.splits sum.splits) blast
    have mono: "responses srv (sys_served sys) d R \<Longrightarrow> responses srv ?served d R" for R
      by (erule responses_mono) auto
    have "c < tt_conns (sys_client sys)" using inv frame(1) by (auto simp: system_inv_def wire_ok_def)
    moreover have "answers_ok srv sys d" using inv by (simp add: system_inv_def)
    ultimately show ?thesis
      using sent mono unfolding answers_ok_def same by (cases "d = c") (fastforce intro: exI [of _ "_ @ sent"], fastforce)
  qed
  moreover have "calls_ok srv ?sys"
    using inv mono unfolding system_inv_def calls_ok_def same by fast
  ultimately show ?thesis using inv by (simp add: system_inv_def same)
qed

lemma system_inv_answer:
  assumes inv: "system_inv srv sys" and loop: "tt_loops (sys_client sys) c = Some buf" and data: "sys_answers sys c = data @ later"
  shows "system_inv srv (sys\<lparr>sys_client := loop_reads c buf data (sys_client sys), sys_answers := (sys_answers sys)(c := later)\<rparr>)"
proof -
  let ?cl = "sys_client sys"
  define S where "S = {(tid, resp). answered srv (sys_served sys) c tid resp}"
  have "answers_ok srv sys c" using inv by (simp add: system_inv_def)
  with loop data obtain R where R: "(buf @ data) @ later = concat R" "responses srv (sys_served sys) c R"
    unfolding answers_ok_def by auto
  then have "\<forall>f \<in> set R. \<exists>tid uid pdu. encode_mbap_frame tid uid pdu = Inr f \<and> (tid, pdu) \<in> S"
    by (auto simp: responses_def S_def)
  from read_loop_frames [OF R(1) this, of ?cl] obtain rest R' cl where
    rl: "read_loop (buf @ data) ?cl = (Inr rest, cl)" "rest @ later = concat R'" "set R' \<subseteq> set R" "only_read S ?cl cl" by blast
  define cl' where "cl' = cl\<lparr>tt_loops := (tt_loops cl)(c \<mapsto> rest)\<rparr>"
  let ?sys = "sys\<lparr>sys_client := cl', sys_answers := (sys_answers sys)(c := later)\<rparr>"
  have same: "tt_wire cl' = tt_wire ?cl" "tt_conns cl' = tt_conns ?cl" "tt_loops cl' = (tt_loops ?cl)(c \<mapsto> rest)" "tt_writer cl' = tt_writer ?cl"
      "tt_calls cl' = tt_calls cl"
    using rl(4) by (simp_all add: only_read_def cl'_def)
  have reads: "loop_reads c buf data ?cl = cl'" by (simp add: loop_reads_def rl(1) cl'_def)
  have "wire_ok cl'" using inv by (simp add: system_inv_def wire_ok_def same)
  moreover have "in_order ?sys d" for d using inv by (simp add: system_inv_def in_order_def same)
  moreover have "answers_ok srv ?sys d" for d
  proof (cases "d = c")
    case True
    have "responses srv (sys_served sys) c R'" using R(2) rl(3) by (auto simp: responses_def)
    moreover have "tt_conns ?cl \<le> c \<longrightarrow> later = []" using \<open>answers_ok srv sys c\<close> data by (auto simp: answers_ok_def)
    ultimately show ?thesis using True rl(2) by (auto simp: answers_ok_def same)
  next
    case False
    then show ?thesis using inv by (simp add: system_inv_def answers_ok_def same)
  qed
  moreover have "calls_ok srv ?sys"
    unfolding calls_ok_def
  proof (intro allI impI)
    fix k call' assume "tt_calls (sys_client ?sys) k = Some call'"
    then have "tt_calls cl k = Some call'" by (simp add: same)
    with rl(4) obtain call where call: "tt_calls ?cl k = Some call" "tc_tid call' = tc_tid call" "tc_request call' = tc_request call"
      "set (tc_seen call') \<subseteq> set (tc_seen call) \<union> S" by (rule only_read_call)
    have "calls_ok srv sys" using inv by (simp add: system_inv_def)
    from calls_okD [OF this call(1)] call(4)
    show "(\<forall>(tid, resp) \<in> set (tc_seen call'). \<exists>c. answered srv (sys_served ?sys) c tid resp) \<and>
      (\<exists>c f. (c, f) \<in> set (tt_wire (sys_client ?sys)) \<and>
        encode_mbap_frame (tc_tid call') (fst (tc_request call')) (snd (tc_request call')) = Inr f)"
      by (auto simp: call(2,3) same S_def)
  qed
  ultimately show ?thesis by (simp add: system_inv_def reads)
qed

lemma system_inv_step: "system_step srv sys sys' \<Longrightarrow> system_inv srv sys \<Longrightarrow> system_inv srv sys'"
proof (induction rule: system_step.induct)
  case (system_client sys cl)
  then show ?case by (intro system_inv_client tcp_task_keeps)
next
  case (system_arrive sys c data)
  then show ?case by (intro system_inv_arrive)
next
  case (system_serve sys c frame rest)
  then show ?case by (intro system_inv_serve)
next
  case (system_answer sys c buf data later)
  then show ?case by (intro system_inv_answer)
next
  case (system_host sys st)
  then show ?case by (simp add: system_inv_def in_order_def answers_ok_def calls_ok_def)
qed

lemma system_reachable_inv: "(system_step srv)\<^sup>*\<^sup>* (system_init st) sys \<Longrightarrow> system_inv srv sys"
  by (induction rule: rtranclp_induct) (auto intro: system_inv_init system_inv_step)

section \<open>Calls get the answers to their own requests\<close>

text \<open>The transaction id of a frame.\<close>

definition tid_of :: "bytes \<Rightarrow> int option" where
  "tid_of f = (case decode_mbap_frame f of Inl _ \<Rightarrow> None | Inr (tid, _, _) \<Rightarrow> Some tid)"

lemma tid_of_encoded: "encode_mbap_frame tid uid pdu = Inr f \<Longrightarrow> tid_of f = Some tid"
  by (simp add: tid_of_def next_frame_encoded(2))

lemma filter_unique:
  assumes "distinct (map g (filter P xs))" "x \<in> set xs" "P x" "\<And>y. y \<in> set xs \<Longrightarrow> g y = g x \<Longrightarrow> P y"
  shows "filter (\<lambda>y. g y = g x) xs = [x]"
  using assms
proof (induction xs)
  case (Cons y ys)
  show ?case
  proof (cases "y = x")
    case True
    have "g z \<noteq> g x" if z: "z \<in> set ys" for z
    proof
      assume gz: "g z = g x"
      with Cons.prems(4) [of z] z have "z \<in> set (filter P ys)" by simp
      then have "g z \<in> g ` set (filter P ys)" by (rule imageI)
      with gz Cons.prems(1,3) True show False by simp
    qed
    with True show ?thesis by (simp add: filter_empty_conv)
  next
    case False
    with Cons.prems have "x \<in> set ys" by simp
    have "g y \<noteq> g x"
    proof
      assume gy: "g y = g x"
      have "g x \<in> g ` set (filter P ys)" using \<open>x \<in> set ys\<close> Cons.prems(3) by simp
      with gy Cons.prems(1) Cons.prems(4) [of y] show False by simp
    qed
    with Cons \<open>x \<in> set ys\<close> show ?thesis by (simp split: if_splits)
  qed
qed simp

lemma served_in_order: "system_inv srv sys \<Longrightarrow> prefix (served_on c (sys_served sys)) (frames_on c (tt_wire (sys_client sys)))"
  by (auto simp: system_inv_def in_order_def prefix_def)

lemma distinct_frames:
  assumes "distinct (map (\<lambda>x. tid_of (snd x)) wire)"
  shows "distinct (frames_on c wire)"
    and "(c, f) \<in> set wire \<Longrightarrow> (d, f') \<in> set wire \<Longrightarrow> tid_of f = tid_of f' \<Longrightarrow> c = d \<and> f = f'"
proof -
  show "distinct (frames_on c wire)"
    using assms by (induction wire) (auto simp: frames_on_def)
  show "(c, f) \<in> set wire \<Longrightarrow> (d, f') \<in> set wire \<Longrightarrow> tid_of f = tid_of f' \<Longrightarrow> c = d \<and> f = f'"
    using assms inj_onD [of "\<lambda>x. tid_of (snd x)" "set wire" "(c, f)" "(d, f')"] by (simp add: distinct_map)
qed

text \<open>
  C3: calls over TCP.  A client and a server exchange bytes over any number of connections, in pieces of
  any size and with any interleaving of calls, timeouts, lost connections, teardowns, reconnections and
  changes of the store.  On every connection the server handles requests in the order in which they
  were written, each at most once.  And as long as no transaction id has been used a second time, a
  call that returns a response has had its own request handled exactly once, and returns what the
  server's dispatch of that request gave on the store it met.
\<close>

theorem tcp_calls_answered:
  assumes "(system_step srv)\<^sup>*\<^sup>* (system_init st0) sys"
    and "distinct (map (\<lambda>x. tid_of (snd x)) (tt_wire (sys_client sys)))"
    and "tt_calls (sys_client sys) k = Some call" "call_outcome how call = Some (Inr resp)" "tc_request call = (uid, req)"
  shows "prefix (served_on c (sys_served sys)) (frames_on c (tt_wire (sys_client sys))) \<and>
    (\<exists>d frame st. encode_mbap_frame (tc_tid call) uid req = Inr frame \<and> (d, frame) \<in> set (tt_wire (sys_client sys)) \<and>
      filter (\<lambda>(_, f, _). f = frame) (sys_served sys) = [(d, frame, st)] \<and> fst (dispatch srv uid req st) = Inr resp)"
proof -
  let ?wire = "tt_wire (sys_client sys)"
  have inv: "system_inv srv sys" by (rule system_reachable_inv [OF assms(1)])
  have served: "(d, f) \<in> set ?wire" if "(d, f, st) \<in> set (sys_served sys)" for d f st
  proof -
    have "f \<in> set (served_on d (sys_served sys))" using that by (force simp: served_on_def)
    with served_in_order [OF inv, of d] have "f \<in> set (frames_on d ?wire)" using set_mono_prefix by blast
    then show ?thesis by (auto simp: frames_on_def)
  qed
  have "call_ok (tt_pending (sys_client sys)) k call"
    using tcp_reachable_inv [OF system_client_steps [OF assms(1)]] assms(3) by (simp add: tcp_inv_def)
  with assms(4) have "(tc_tid call, resp) \<in> set (tc_seen call)"
    by (cases how) (auto simp: call_ok_def dest: map_of_SomeD)
  moreover have "calls_ok srv sys" using inv by (simp add: system_inv_def)
  note calls_okD [OF this assms(3)]
  ultimately obtain d d' f' where "answered srv (sys_served sys) d (tc_tid call) resp"
    and f': "(d', f') \<in> set ?wire" "encode_mbap_frame (tc_tid call) uid req = Inr f'" using assms(5) by auto
  then obtain uid' req' frame st where s: "(d, frame, st) \<in> set (sys_served sys)"
    "encode_mbap_frame (tc_tid call) uid' req' = Inr frame" "fst (dispatch srv uid' req' st) = Inr resp"
    by (auto simp: answered_def)
  have "tid_of frame = tid_of f'" using tid_of_encoded [OF s(2)] tid_of_encoded [OF f'(2)] by simp
  with distinct_frames(2) [OF assms(2) served [OF s(1)] f'(1)] have same: "d = d'" "f' = frame" by auto
  have own: "uid' = uid" "req' = req"
    using next_frame_encoded(2) [OF s(2)] next_frame_encoded(2) [OF f'(2)] same(2) by simp_all
  have "filter (\<lambda>y. fst (snd y) = fst (snd (d, frame, st))) (sys_served sys) = [(d, frame, st)]"
  proof (rule filter_unique [where P = "\<lambda>y. fst y = d", OF _ s(1)])
    have "distinct (frames_on d ?wire)" by (rule distinct_frames(1) [OF assms(2)])
    with served_in_order [OF inv, of d] show "distinct (map (\<lambda>y. fst (snd y)) (filter (\<lambda>y. fst y = d) (sys_served sys)))"
      by (auto simp: served_on_def prefix_def)
    fix y assume y: "y \<in> set (sys_served sys)" "fst (snd y) = fst (snd (d, frame, st))"
    then have "(fst y, frame) \<in> set ?wire" using served [of "fst y" frame "snd (snd y)"] by (metis fst_conv prod.collapse snd_conv)
    with distinct_frames(2) [OF assms(2) served [OF s(1)] this] show "fst y = d" by simp
  qed simp
  then have "filter (\<lambda>(_, f, _). f = frame) (sys_served sys) = [(d, frame, st)]" by (simp add: case_prod_unfold)
  with served_in_order [OF inv] f' same own s(3) show ?thesis by blast
qed

text \<open>A run: connect, a call that reads one register, its frame handled, the answer read.\<close>

definition sevens_server :: "unit server" where
  "sevens_server = \<lparr>srv_on_read = \<lambda>a s n st. (Inr (replicate (nat n) (PInt 7)), st), srv_on_write = None,
     srv_unit_id = None, srv_max_connections = 1\<rparr>"

lemma sevens_dispatch: "dispatch sevens_server 1 [3, 0, 0, 0, 1] () = (Inr [3, 2, 0, 7], ())"
  by code_simp

definition run_called :: "unit tcp_system" where
  "run_called = (system_init ())\<lparr>sys_client := snd (call_begin 5 [3, 0, 0, 0, 1] 1 tcp_up)\<rparr>"

definition run_handled :: "unit tcp_system" where
  "run_handled = server_handles sevens_server 0 [0, 0, 0, 0, 0, 6, 1, 3, 0, 0, 0, 1] []
     (run_called\<lparr>sys_arrived := (\<lambda>_. 0)(0 := 12), sys_unread := (\<lambda>_. [])(0 := [0, 0, 0, 0, 0, 6, 1, 3, 0, 0, 0, 1])\<rparr>)"

definition run_answered :: "unit tcp_system" where
  "run_answered = run_handled\<lparr>sys_client := loop_reads 0 [] [0, 0, 0, 0, 0, 5, 1, 3, 2, 0, 7] (sys_client run_handled),
     sys_answers := (sys_answers run_handled)(0 := [])\<rparr>"

lemma run_frames:
  "encode_mbap_frame 0 1 [3, 0, 0, 0, 1] = Inr [0, 0, 0, 0, 0, 6, 1, 3, 0, 0, 0, 1]"
  "encode_mbap_frame 0 1 [3, 2, 0, 7] = Inr [0, 0, 0, 0, 0, 5, 1, 3, 2, 0, 7]"
  by (simp_all add: encode_mbap_frame_eq)

lemma run_client:
  "tt_wire (sys_client run_called) = [(0, [0, 0, 0, 0, 0, 6, 1, 3, 0, 0, 0, 1])]"
  "tt_loops (sys_client run_called) 0 = Some []" "tt_pending (sys_client run_called) 0 = Some 5"
  "tt_calls (sys_client run_called) 5 = Some \<lparr>tc_tid = 0, tc_request = (1, [3, 0, 0, 0, 1]), tc_future = None, tc_seen = []\<rparr>"
  by (simp_all add: run_called_def call_begin_def tcp_up_def connect_done_def checked_connect_def connect_begin_def tcp_init_def
      allocate_tid_free run_frames)

lemma run_server:
  "sys_client run_handled = sys_client run_called" "sys_answers run_handled 0 = [0, 0, 0, 0, 0, 5, 1, 3, 2, 0, 7]"
  by (simp_all add: run_handled_def server_handles_def serve_one_frame [OF run_frames(1)] run_called_def system_init_def
      sevens_dispatch run_frames(2))

lemma run_steps: "(system_step sevens_server)\<^sup>*\<^sup>* (system_init ()) run_answered"
proof -
  let ?S = "system_step sevens_server" and ?f = "[0, 0, 0, 0, 0, 6, 1, 3, 0, 0, 0, 1] :: bytes"
  let ?s1 = "(system_init ())\<lparr>sys_client := snd (checked_connect tcp_init)\<rparr>"
  have "?S (system_init ()) ?s1"
    by (rule system_client) (auto simp: system_init_def tcp_init_def intro: tcp_task.intros)
  moreover have "?S ?s1 ((system_init ())\<lparr>sys_client := tcp_up\<rparr>)"
    using system_client [OF step_connected, of ?s1 sevens_server "Inr ()"]
    by (simp add: tcp_up_def checked_connect_def connect_begin_def tcp_init_def)
  moreover have "?S ((system_init ())\<lparr>sys_client := tcp_up\<rparr>) run_called"
    using system_client [OF step_call, of "(system_init ())\<lparr>sys_client := tcp_up\<rparr>" 5 sevens_server "[3, 0, 0, 0, 1]" 1]
    by (simp add: run_called_def tcp_up_def connect_done_def checked_connect_def connect_begin_def tcp_init_def)
  moreover have "?S run_called (run_called\<lparr>sys_arrived := (\<lambda>_. 0)(0 := 12), sys_unread := (\<lambda>_. [])(0 := ?f)\<rparr>)"
    using system_arrive [of run_called 0 ?f sevens_server]
    by (simp add: run_client frames_on_def) (simp add: run_called_def system_init_def eval_nat_numeral)
  moreover have "?S (run_called\<lparr>sys_arrived := (\<lambda>_. 0)(0 := 12), sys_unread := (\<lambda>_. [])(0 := ?f)\<rparr>) run_handled"
    unfolding run_handled_def
    by (rule system_serve) (simp_all add: next_frame_encoded(1) [OF run_frames(1), of "[]", simplified] run_called_def system_init_def)
  moreover have "?S run_handled run_answered"
    unfolding run_answered_def by (rule system_answer) (simp_all add: run_server run_client)
  ultimately show ?thesis by (meson rtranclp.rtrancl_refl rtranclp.rtrancl_into_rtrancl)
qed

theorem tcp_calls_answered_witness:
  "\<exists>d st. filter (\<lambda>(_, f, _). f = [0, 0, 0, 0, 0, 6, 1, 3, 0, 0, 0, 1]) (sys_served run_answered) =
      [(d, [0, 0, 0, 0, 0, 6, 1, 3, 0, 0, 0, 1], st)] \<and> fst (dispatch sevens_server 1 [3, 0, 0, 0, 1] st) = Inr [3, 2, 0, 7]"
proof -
  have rl: "read_loop [0, 0, 0, 0, 0, 5, 1, 3, 2, 0, 7] st = (Inr [], deliver 0 [3, 2, 0, 7] st)" for st
    using next_frame_encoded(1) [OF run_frames(2), of "[]"] next_frame_encoded(2) [OF run_frames(2)]
    by (simp add: read_loop.simps [of "[0, 0, 0, 0, 0, 5, 1, 3, 2, 0, 7]"] read_loop.simps [of "[]"] next_frame_short)
  have client: "tt_wire (sys_client run_answered) = [(0, [0, 0, 0, 0, 0, 6, 1, 3, 0, 0, 0, 1])]"
    "tt_calls (sys_client run_answered) 5 = Some \<lparr>tc_tid = 0, tc_request = (1, [3, 0, 0, 0, 1]),
       tc_future = Some (Inr [3, 2, 0, 7]), tc_seen = [(0, [3, 2, 0, 7])]\<rparr>"
    by (simp_all add: run_answered_def loop_reads_def rl run_server run_client deliver_def Let_def resolve_def)
  show ?thesis
    using tcp_calls_answered [OF run_steps _ client(2), where how = Resolved and resp = "[3, 2, 0, 7]" and uid = 1 and req = "[3, 0, 0, 0, 1]"]
    by (auto simp: client(1) run_frames)
qed

end
