(* ===== verification/Example_Server.thy ===== *)
theory Example_Server
  imports Gateway
begin

text \<open>
  The example programs: the server of \<open>src/examples/sim_server.py\<close> with its initial data and callbacks, and
  the items, the output and one round of the loop of \<open>src/examples/poll_loop_tcp.py\<close>.  The server's store is
  an instance of \<open>host_store\<close>.
\<close>

section \<open>The store of the example server\<close>

text \<open>The dictionary of the four dictionaries.\<close>

record example_state =
  ex_holding :: "int \<rightharpoonup> pyval"
  ex_input :: "int \<rightharpoonup> pyval"
  ex_coil :: "int \<rightharpoonup> pyval"
  ex_discrete :: "int \<rightharpoonup> pyval"

text \<open>The float literal \<open>3.14159\<close>.\<close>

definition pi_literal :: pyfloat where
  "pi_literal = 0x400921F9F01B866E"

definition build_state :: "example_state result" where
  "build_state =
     (let ladder = foldl (\<lambda>m i. m(i \<mapsto> PInt ((i + 1) * 100))) Map.empty (py_range 10) in
      bindE (encode_registers [PFloat pi_literal] Float32 Big Big) (\<lambda>pi_regs.
      bindE (py_index pi_regs 0) (\<lambda>p0. bindE (py_index pi_regs 1) (\<lambda>p1.
      bindE (encode_registers [PInt 0x12345678] UInt32 Big Big) (\<lambda>u32_regs.
      bindE (py_index u32_regs 0) (\<lambda>u0. bindE (py_index u32_regs 1) (\<lambda>u1.
      Inr \<lparr>ex_holding = foldl (\<lambda>m i. m(20 + i \<mapsto> PInt 0))
             (ladder(10 \<mapsto> PInt p0, 11 \<mapsto> PInt p1, 12 \<mapsto> PInt u0, 13 \<mapsto> PInt u1)) (py_range 10),
           ex_input = [0 \<mapsto> PInt 25, 1 \<mapsto> PInt 50, 2 \<mapsto> PInt 75, 3 \<mapsto> PInt 100, 4 \<mapsto> PInt 999],
           ex_coil = foldl (\<lambda>m i. m(i \<mapsto> PBool (i mod 2 = 0))) Map.empty (py_range 10),
           ex_discrete = foldl (\<lambda>m i. m(i \<mapsto> PBool (i mod 3 = 0))) Map.empty (py_range 10)\<rparr>)))))))"

section \<open>The callbacks\<close>

fun example_store :: "example_state \<Rightarrow> area \<Rightarrow> int \<rightharpoonup> pyval" where
  "example_store st HOLDING_REGISTER = ex_holding st"
| "example_store st INPUT_REGISTER = ex_input st"
| "example_store st COIL = ex_coil st"
| "example_store st DISCRETE_INPUT = ex_discrete st"

text \<open>The loop of \<open>on_read\<close> over the indices that are left, with the list \<open>out\<close>.\<close>

primrec read_cells :: "(int \<rightharpoonup> pyval) \<Rightarrow> int \<Rightarrow> int list \<Rightarrow> pyval list \<Rightarrow> pyval list result" where
  "read_cells store address [] out = Inr out"
| "read_cells store address (i # is) out =
     (let addr = address + i
      in case store addr of None \<Rightarrow> Inl illegal_data_address | Some v \<Rightarrow> read_cells store address is (out @ [v]))"

definition example_on_read :: "area \<Rightarrow> int \<Rightarrow> int \<Rightarrow> (example_state, pyval list) effect" where
  "example_on_read area address count st = (read_cells (example_store st area) address (py_range count) [], st)"

text \<open>The areas that are not in the dictionary of \<open>on_write\<close> raise \<open>KeyError\<close>.\<close>

definition store_cells :: "(int \<rightharpoonup> pyval) \<Rightarrow> int \<Rightarrow> pyval list \<Rightarrow> int \<rightharpoonup> pyval" where
  "store_cells store address values = foldl (\<lambda>m (i, v). m(address + int i \<mapsto> v)) store (enumerate 0 values)"

fun example_on_write :: "area \<Rightarrow> int \<Rightarrow> pyval list \<Rightarrow> (example_state, unit) effect" where
  "example_on_write HOLDING_REGISTER address values st =
     (Inr (), st\<lparr>ex_holding := store_cells (ex_holding st) address values\<rparr>)"
| "example_on_write COIL address values st = (Inr (), st\<lparr>ex_coil := store_cells (ex_coil st) address values\<rparr>)"
| "example_on_write _ address values st = (Inl KeyError, st)"

text \<open>The server of \<open>amain\<close>, with the defaults of \<open>Server\<close>.\<close>

definition example_server :: "example_state server result" where
  "example_server = make_server example_on_read (Some example_on_write) None 32"

section \<open>The poll loop\<close>

definition poll_items :: "read_item list" where
  "poll_items = [Holding ((default_reg 0 10)\<lparr>ri_dtype := Int16\<rparr>), Input ((default_reg 0 5)\<lparr>ri_dtype := Int16\<rparr>),
     Coil 0 5, Discrete 0 5]"

text \<open>\<open>_format_result\<close>: the values, or the error.\<close>

datatype poll_line = Polled string "pyval list" | Poll_Error string "py_exn option"

definition format_result :: "string \<Rightarrow> read_result \<Rightarrow> poll_line" where
  "format_result label result = (if rr_ok result then Polled label (rr_values result) else Poll_Error label (rr_error result))"

text \<open>What one round of the loop prints for the results of \<open>read\<close>: exactly four are unpacked.\<close>

fun poll_round :: "read_result list \<Rightarrow> poll_line list result" where
  "poll_round [holding, inputs, coils, discrete] =
     Inr [format_result ''holding[0..9] int16:'' holding, format_result ''input[0..4] int16:'' inputs,
          format_result ''coils[0..4]:'' coils, format_result ''discrete[0..4]:'' discrete]"
| "poll_round _ = Inl ValueError"

fun_cases poll_roundE: "poll_round rs = Inr ls"

section \<open>The store is a host store\<close>

lemma read_cells_eq:
  "read_cells store address is out =
     (if \<forall>i \<in> set is. store (address + i) \<noteq> None then Inr (out @ map (\<lambda>i. the (store (address + i))) is)
      else Inl illegal_data_address)"
  by (induction "is" arbitrary: out) (auto simp: Let_def split: option.split)

lemma store_cells_at:
  "store_cells store s vs x = (if s \<le> x \<and> x < s + int (length vs) then Some (vs ! nat (x - s)) else store x)"
proof -
  have "foldl (\<lambda>m (i, v). m(s + int i \<mapsto> v)) m (enumerate k vs) x =
      (if s + int k \<le> x \<and> x < s + int k + int (length vs) then Some (vs ! nat (x - s - int k)) else m x)" for m k
  proof (induction vs arbitrary: m k)
    case (Cons v vs)
    have "(v # vs) ! nat (x - s - int k) = vs ! nat (x - s - int (Suc k))" if "s + int (Suc k) \<le> x"
    proof -
      have "nat (x - s - int k) = Suc (nat (x - s - int (Suc k)))" using that by simp
      then show ?thesis by simp
    qed
    with Cons show ?case by auto
  qed auto
  from this [of store 0] show ?thesis by (simp add: store_cells_def)
qed

lemma map_py_range: "map (\<lambda>i. f (s + i)) (py_range n) = map f [s..s + n - 1]"
proof -
  have "map ((+) s) (py_range n) = [s..s + n - 1]"
    by (rule nth_equalityI) (auto simp: py_range_def)
  then show ?thesis by (metis (no_types, lifting) comp_apply list.map_comp map_cong)
qed

interpretation example: host_store example_on_read example_on_write example_store
proof
  fix s n :: int and a :: area and st :: example_state and vs
  have cells: "(\<forall>i \<in> set (py_range n). example_store st a (s + i) \<noteq> None) \<longleftrightarrow> (\<forall>x \<in> {s..<s + n}. example_store st a x \<noteq> None)"
  proof (intro iffI ballI)
    fix x assume "\<forall>i \<in> set (py_range n). example_store st a (s + i) \<noteq> None" "x \<in> {s..<s + n}"
    then show "example_store st a x \<noteq> None" by (auto simp: set_py_range dest: bspec [of _ _ "x - s"])
  qed (auto simp: set_py_range)
  then show "\<forall>x \<in> {s..<s + n}. example_store st a x \<noteq> None \<Longrightarrow>
      example_on_read a s n st = (Inr (map (\<lambda>x. the (example_store st a x)) [s..s + n - 1]), st)"
    using map_py_range [of "\<lambda>x. the (example_store st a x)" s n] by (simp add: example_on_read_def read_cells_eq)
  show "\<exists>x \<in> {s..<s + n}. example_store st a x = None \<Longrightarrow> example_on_read a s n st = (Inl illegal_data_address, st)"
    using cells by (auto simp: example_on_read_def read_cells_eq)
  assume "a \<in> {COIL, HOLDING_REGISTER}"
  moreover have "example_store (st\<lparr>ex_coil := m\<rparr>) b x = (if b = COIL then m x else example_store st b x)"
    "example_store (st\<lparr>ex_holding := m\<rparr>) b x = (if b = HOLDING_REGISTER then m x else example_store st b x)" for m b x
    by (cases b; simp)+
  ultimately show "\<exists>st'. example_on_write a s vs st = (Inr (), st') \<and> (\<forall>b x. example_store st' b x =
      (if b = a \<and> s \<le> x \<and> x < s + int (length vs) then Some (vs ! nat (x - s)) else example_store st b x))"
    by (auto simp: store_cells_at)
qed

section \<open>The initial data\<close>

lemma pi_registers: "encode_registers [PFloat pi_literal] Float32 Big Big = Inr [0x4049, 0x0FD0]"
  and u32_registers: "encode_registers [PInt 0x12345678] UInt32 Big Big = Inr [0x1234, 0x5678]"
proof -
  have bytes: "be_bytes 4 1078530000 = [0x40, 0x49, 0x0F, 0xD0]" "be_bytes 4 305419896 = [0x12, 0x34, 0x56, 0x78]"
    by (simp_all only: numeral_nat One_nat_def plus_nat.add_Suc add_0_left be_bytes.simps) simp_all
  have regs: "bytes_to_registers [a, b, c, d] Big Big = Inr [u16 a b, u16 c d]" for a b c d
    by (simp add: bytes_to_registers_def windows.simps int_from_bytes_def be_val_def u16_def)
  have cls: "classify pi_literal = FFin False 7074231776675438 (- 51)"
    by (simp add: pi_literal_def classify_def unpack_bits_ieee_def emin_def Let_def)
  have "bit_len 7074231776675438 = 53" using bit_len_unique [of 52 7074231776675438] by simp
  then have "round_to_format 24 8 False 7074231776675438 (- 51) = Inr 0x40490FD0"
    by (simp add: round_to_format_def emin_def Let_def round_half_even_def compose_bits_def)
  with cls show "encode_registers [PFloat pi_literal] Float32 Big Big = Inr [0x4049, 0x0FD0]"
    by (simp add: encode_registers_def encode_one_def pack_f_def bytes regs regs_per_item_def REGS_PER_ITEM_def u16_def)
  show "encode_registers [PInt 0x12345678] UInt32 Big Big = Inr [0x1234, 0x5678]"
    by (simp add: encode_registers_def encode_one_def INT_RANGES_def signed_dtype_def int_to_bytes_def bytes regs
        regs_per_item_def REGS_PER_ITEM_def u16_def)
qed

text \<open>A loop that fills addresses from \<open>d\<close> on.\<close>

lemma fill_cells:
  "foldl (\<lambda>m i. m(d + i \<mapsto> f i)) m (py_range n) x = (if d \<le> x \<and> x < d + n then Some (f (x - d)) else m x)"
proof -
  have "foldl (\<lambda>m i. m(d + i \<mapsto> f i)) m is x = (if x - d \<in> set is then Some (f (x - d)) else m x)" for "is"
    by (induction "is" arbitrary: m) auto
  then show ?thesis by (simp add: set_py_range)
qed

text \<open>The data layout that the header of the program documents.\<close>

definition documented_cell :: "area \<Rightarrow> int \<Rightarrow> pyval option" where
  "documented_cell a x =
     (case a of
        HOLDING_REGISTER \<Rightarrow>
          if 0 \<le> x \<and> x \<le> 9 then Some (PInt (100 * (x + 1)))
          else if x = 10 then Some (PInt 0x4049) else if x = 11 then Some (PInt 0x0FD0)
          else if x = 12 then Some (PInt 0x1234) else if x = 13 then Some (PInt 0x5678)
          else if 20 \<le> x \<and> x \<le> 29 then Some (PInt 0) else None
      | INPUT_REGISTER \<Rightarrow> if 0 \<le> x \<and> x \<le> 4 then Some (PInt ([25, 50, 75, 100, 999] ! nat x)) else None
      | COIL \<Rightarrow> if 0 \<le> x \<and> x \<le> 9 then Some (PBool (even x)) else None
      | DISCRETE_INPUT \<Rightarrow> if 0 \<le> x \<and> x \<le> 9 then Some (PBool (3 dvd x)) else None)"

lemma build_state_documented:
  obtains st where "build_state = Inr st" "\<And>a x. example_store st a x = documented_cell a x"
proof -
  obtain st where st: "build_state = Inr st" by (simp add: build_state_def pi_registers u32_registers py_index_def)
  have "example_store st a x = documented_cell a x" for a x
  proof (cases a)
    case HOLDING_REGISTER
    then show ?thesis
      using st fill_cells [of 0 "\<lambda>i. PInt ((i + 1) * 100)" Map.empty 10] fill_cells [of 20 "\<lambda>_. PInt 0" _ 10 x]
      by (auto simp: build_state_def pi_registers u32_registers py_index_def documented_cell_def)
  next
    case INPUT_REGISTER
    have "x = 0 \<or> x = 1 \<or> x = 2 \<or> x = 3 \<or> x = 4 \<or> \<not> (0 \<le> x \<and> x \<le> 4)" by arith
    with INPUT_REGISTER st show ?thesis
      by (auto simp: build_state_def pi_registers u32_registers py_index_def documented_cell_def)
  next
    case COIL
    then show ?thesis
      using st fill_cells [of 0 "\<lambda>i. PBool (i mod 2 = 0)" Map.empty 10 x]
      by (auto simp: build_state_def pi_registers u32_registers py_index_def documented_cell_def even_iff_mod_2_eq_zero)
  next
    case DISCRETE_INPUT
    then show ?thesis
      using st fill_cells [of 0 "\<lambda>i. PBool (i mod 3 = 0)" Map.empty 10 x]
      by (auto simp: build_state_def pi_registers u32_registers py_index_def documented_cell_def dvd_eq_mod_eq_0)
  qed
  with st that show thesis by blast
qed

lemma documented_typed:
  assumes "\<And>a x. example_store st a x = documented_cell a x"
  shows "example.typed st"
proof -
  have "cell_ok a v" if "documented_cell a x = Some v" for a x v
  proof -
    have "x = 0 \<or> x = 1 \<or> x = 2 \<or> x = 3 \<or> x = 4 \<or> \<not> (0 \<le> x \<and> x \<le> 4)" by arith
    with that show ?thesis by (auto simp: documented_cell_def split: area.splits if_splits)
  qed
  then show ?thesis by (simp add: example.typed_def assms)
qed

section \<open>What a poll shows\<close>

definition poll_expected :: "poll_line list" where
  "poll_expected =
     [Polled ''holding[0..9] int16:'' (map PInt [100, 200, 300, 400, 500, 600, 700, 800, 900, 1000]),
      Polled ''input[0..4] int16:'' (map PInt [25, 50, 75, 100, 999]),
      Polled ''coils[0..4]:'' (map PBool [True, False, True, False, True]),
      Polled ''discrete[0..4]:'' (map PBool [True, False, False, True, False])]"

lemma decode_int16:
  assumes "\<forall>r \<in> set regs. 0 \<le> r \<and> r < 0x8000"
  shows "decode_registers regs Int16 Big Big = Inr (map PInt regs)"
proof -
  have w: "windows (Suc 0) regs = map (\<lambda>r. [r]) regs"
    by (induction regs) (simp_all add: windows.simps)
  have "bindE (registers_to_bytes [r] Big Big) (\<lambda>raw. decode_one raw Int16) = Inr (PInt r)" if "r \<in> set regs" for r
  proof -
    have "0 \<le> r" "r < 32768" using assms that by auto
    then show ?thesis
      using from_to_bytes [of r 2 Big True] by (simp add: registers_to_bytes_def int_to_bytes_def)
  qed
  then have "mapE (\<lambda>window. bindE (registers_to_bytes window Big Big) (\<lambda>raw. decode_one raw Int16)) (map (\<lambda>r. [r]) regs) =
      Inr (map PInt regs)" by (induction regs) simp_all
  then show ?thesis by (simp add: decode_registers_def regs_per_item_def REGS_PER_ITEM_def w)
qed

lemma poll_items_valid:
  "\<forall>it \<in> set poll_items. validate_read_item it = Inr ()"
  "\<forall>it \<in> set poll_items. 0 \<le> item_start it \<and> item_start it + item_count it \<le> 0x10000"
  by (simp_all add: poll_items_def validate_read_item_def default_reg_def)

text \<open>Every cell that a poll asks for exists, and gives what is expected.\<close>

lemma poll_documented:
  assumes st: "\<And>a x. example_store st a x = documented_cell a x"
  shows "\<forall>it \<in> set poll_items. \<forall>x \<in> item_units it. example_store st (item_area it) x \<noteq> None"
    and "j < 4 \<Longrightarrow> item_value (\<lambda>x. the (example_store st (item_area (poll_items ! j)) x)) (poll_items ! j) = Inr r \<Longrightarrow>
      r = \<lparr>rr_item = poll_items ! j, rr_values = (case poll_expected ! j of Polled _ vs \<Rightarrow> vs | _ \<Rightarrow> []), rr_ok = True, rr_error = None\<rparr>"
proof -
  show "\<forall>it \<in> set poll_items. \<forall>x \<in> item_units it. example_store st (item_area it) x \<noteq> None"
    by (auto simp: st poll_items_def documented_cell_def default_reg_def item_units_def)
  have mem: "example_store st = documented_cell" by (intro ext) (rule st)
  assume "j < 4" and v: "item_value (\<lambda>x. the (example_store st (item_area (poll_items ! j)) x)) (poll_items ! j) = Inr r"
  then consider "j = 0" | "j = 1" | "j = 2" | "j = 3" by linarith
  then show "r = \<lparr>rr_item = poll_items ! j, rr_values = (case poll_expected ! j of Polled _ vs \<Rightarrow> vs | _ \<Rightarrow> []), rr_ok = True, rr_error = None\<rparr>"
    using v unfolding mem by cases
      (simp_all add: poll_items_def poll_expected_def item_value_def documented_cell_def default_reg_def upto.simps Let_def
        decode_register_item_def decoded_values_def decode_int16)
qed

lemma poll_round_lines:
  assumes "length rs = 4"
    and "\<And>j. j < 4 \<Longrightarrow> (\<exists>e. rs ! j = \<lparr>rr_item = poll_items ! j, rr_values = [], rr_ok = False, rr_error = Some e\<rparr> \<and> P e) \<or>
      rs ! j = \<lparr>rr_item = poll_items ! j, rr_values = (case poll_expected ! j of Polled _ vs \<Rightarrow> vs | _ \<Rightarrow> []), rr_ok = True, rr_error = None\<rparr>"
  shows "\<exists>lines. poll_round rs = Inr lines \<and> length lines = 4 \<and>
    (\<forall>j < 4. lines ! j = poll_expected ! j \<or> (\<exists>label e. lines ! j = Poll_Error label (Some e) \<and> P e))"
proof -
  obtain a b c d where rs: "rs = [a, b, c, d]"
    using assms(1) by (cases rs; cases "tl rs"; cases "tl (tl rs)"; cases "tl (tl (tl rs))") auto
  let ?labels = "map (\<lambda>l. case l of Polled label _ \<Rightarrow> label | Poll_Error label _ \<Rightarrow> label) poll_expected"
  let ?lines = "map2 format_result ?labels rs"
  have four: "j = 0 \<or> j = 1 \<or> j = 2 \<or> j = 3" if "j < 4" for j :: nat using that by linarith
  have "poll_round rs = Inr ?lines" "length ?lines = 4" by (simp_all add: rs poll_expected_def)
  moreover have "?lines ! j = poll_expected ! j \<or> (\<exists>label e. ?lines ! j = Poll_Error label (Some e) \<and> P e)" if j: "j < 4" for j
  proof -
    have line: "?lines ! j = format_result (?labels ! j) (rs ! j)" using four [OF j] by (elim disjE) (simp_all add: rs poll_expected_def)
    have "\<exists>label vs. poll_expected ! j = Polled label vs \<and> ?labels ! j = label"
      using four [OF j] by (elim disjE) (simp_all add: poll_expected_def)
    with assms(2) [OF j] show ?thesis unfolding line by (elim disjE exE conjE) (simp_all add: format_result_def)
  qed
  ultimately show ?thesis by blast
qed

end
