(* ===== verification/Tcp_Session.thy ===== *)
theory Tcp_Session
  imports Tcp_Laws Gateway
begin

text \<open>
  The TCP transport of \<open>src/pymod/transport/tcp.py\<close> in the hands of one caller: its calls from beginning to
  end, composed of the steps of \<open>Tcp_Transport\<close>.  What the network does during a call is an input.  Each call
  is a run of the step relation, and the transport keeps the contracts that the client needs.
\<close>

section \<open>Operations\<close>

record tcp_net =
  tn_open :: "unit result"         \<comment> \<open>of \<open>open_connection\<close>\<close>
  tn_sent :: bool                  \<comment> \<open>\<open>write\<close> and \<open>drain\<close> do not raise\<close>
  tn_reply :: "bytes \<Rightarrow> bytes"      \<comment> \<open>what arrives before the deadline, for the frame written\<close>
  tn_lost :: bool                  \<comment> \<open>the connection ends after that\<close>

definition ensure_connected :: "tcp_net \<Rightarrow> (tcp_state, unit) effect" where
  "ensure_connected net st =
     (case connect_begin st of
        (Inl e, st') \<Rightarrow> (Inl e, st')
      | (Inr up, st') \<Rightarrow> if up then (Inr (), st') else connect_done (tn_open net) st')"

text \<open>The read loop of a connection runs on the reply, and ends with its teardown if the connection is lost.\<close>

definition reply_read :: "tcp_net \<Rightarrow> nat \<Rightarrow> bytes \<Rightarrow> tcp_state \<Rightarrow> tcp_state" where
  "reply_read net c frame st =
     (case tt_loops st c of
        None \<Rightarrow> st
      | Some buf \<Rightarrow>
          let st1 = loop_reads c buf (tn_reply net frame) st;
              st2 = (if tn_lost net \<and> tt_loops st1 c \<noteq> None then loop_end c (st1\<lparr>tt_lost := insert c (tt_lost st1)\<rparr>) else st1)
          in if tt_teardowns st2 (ReadLoop c) \<noteq> None
             then teardown_finish (ReadLoop c) (teardown_cancel (ReadLoop c) st2) else st2)"

text \<open>The end of the call \<open>k\<close>: a failed \<open>drain\<close>, its future, or the timeout.\<close>

definition call_result :: "nat \<Rightarrow> bool \<Rightarrow> (tcp_state, bytes) effect" where
  "call_result k sent st =
     (case tt_calls st k of
        None \<Rightarrow> (Inl AssertionError, st)
      | Some c \<Rightarrow>
          (case call_outcome (if \<not> sent then SendFailed else if tc_future c = None then TimedOut else Resolved) c of
             None \<Rightarrow> (Inl AssertionError, st)
           | Some r \<Rightarrow> (r, call_end k c st)))"

definition send_and_receive_unlocked :: "tcp_net \<Rightarrow> nat \<Rightarrow> bytes \<Rightarrow> int \<Rightarrow> (tcp_state, bytes) effect" where
  "send_and_receive_unlocked net k pdu unit_id =
     bindS (ensure_connected net) (\<lambda>_. bindS (call_begin k pdu unit_id) (\<lambda>_ st.
       let (c, frame) = last (tt_wire st)
       in call_result k (tn_sent net) (if tn_sent net then reply_read net c frame st else st)))"

definition tcp_send_and_receive :: "tcp_net \<Rightarrow> bytes \<Rightarrow> int \<Rightarrow> (tcp_state, bytes) effect" where
  "tcp_send_and_receive net pdu unit_id st =
     (if tt_closed st then (Inl ModbusError, st) else send_and_receive_unlocked net 0 pdu unit_id st)"

definition tcp_connect :: "tcp_net \<Rightarrow> (tcp_state, unit) effect" where
  "tcp_connect net st = (if tt_closed st then (Inl ModbusError, st) else ensure_connected net st)"

text \<open>\<open>close\<close> cancels a running read loop, whose own teardown then ends first.\<close>

definition tcp_close :: "tcp_state \<Rightarrow> tcp_state" where
  "tcp_close st =
     (let st1 = teardown_cancel Closer (close_begin st)
      in case tt_teardowns st1 Closer of
           Some (Cancelling c) \<Rightarrow>
             teardown_finish Closer (teardown_finish (ReadLoop c) (teardown_cancel (ReadLoop c) (loop_end c st1)))
         | _ \<Rightarrow> teardown_finish Closer st1)"

definition tcp_net_down :: tcp_net where
  "tcp_net_down = \<lparr>tn_open = Inl OSError, tn_sent = False, tn_reply = (\<lambda>_. []), tn_lost = True\<rparr>"

definition with_tcp_net :: "(tcp_net \<Rightarrow> (tcp_state, 'a) effect) \<Rightarrow> (tcp_state \<times> tcp_net list, 'a) effect" where
  "with_tcp_net op w =
     (let (st, nets) = w; (r, st') = op (case nets of [] \<Rightarrow> tcp_net_down | n # _ \<Rightarrow> n) st in (r, (st', drop 1 nets)))"

definition TcpTransport :: "(tcp_state \<times> tcp_net list) transport" where
  "TcpTransport = \<lparr>tr_connect = with_tcp_net tcp_connect,
     tr_close = (\<lambda>(st, nets). (Inr (), (tcp_close st, nets))),
     tr_is_connected = (\<lambda>(st, nets). tt_connected st),
     tr_send_and_receive = (\<lambda>pdu unit_id timeout_s. with_tcp_net (\<lambda>net. tcp_send_and_receive net pdu unit_id))\<rparr>"

section \<open>States between calls\<close>

text \<open>No call and no teardown is running; the transport has one connection with its read loop, or none.\<close>

definition session_ok :: "tcp_state \<Rightarrow> bool" where
  "session_ok st \<longleftrightarrow> tcp_inv st \<and> tt_calls st = Map.empty \<and> tt_pending st = Map.empty \<and> \<not> tt_connecting st \<and>
     tt_teardowns st = Map.empty \<and>
     (if tt_connected st then \<exists>c buf. tt_writer st = Some c \<and> tt_read_task st = Some c \<and> tt_loops st = [c \<mapsto> buf]
      else tt_writer st = None \<and> tt_read_task st = None \<and> tt_loops st = Map.empty)"

definition tcp_net_documented :: "tcp_net \<Rightarrow> bool" where
  "tcp_net_documented net \<longleftrightarrow> (\<forall>e. tn_open net = Inl e \<longrightarrow> e = AsyncTimeoutError \<or> e = OSError)"

lemma session_init: "session_ok tcp_init"
  by (simp add: session_ok_def tcp_inv_init) (simp add: tcp_init_def)

lemma ensure_connected_run: "\<not> tt_connecting st \<Longrightarrow> tcp_step\<^sup>*\<^sup>* st (snd (ensure_connected net st))"
proof -
  assume c: "\<not> tt_connecting st"
  have 1: "tcp_step st (snd (connect_begin st))" using c by (rule tcp_task_step(2))
  show ?thesis
  proof (cases "tt_connected st \<or> tt_closed st")
    case True
    with 1 show ?thesis by (auto simp: ensure_connected_def connect_begin_def)
  next
    case False
    then have "tcp_step (snd (connect_begin st)) (snd (ensure_connected net st))"
      using tcp_task_step(3) [of "snd (connect_begin st)" "tn_open net"] by (simp add: ensure_connected_def connect_begin_def)
    with 1 show ?thesis by (meson r_into_rtranclp rtranclp.rtrancl_into_rtrancl)
  qed
qed

lemma tcp_inv_run: "tcp_step\<^sup>*\<^sup>* st st' \<Longrightarrow> tcp_inv st \<Longrightarrow> tcp_inv st'"
  by (induction rule: rtranclp_induct) (auto intro: tcp_inv_step)

lemma ensure_connected_outcome:
  assumes ok: "session_ok st" and net: "tcp_net_documented net"
  shows "session_ok (snd (ensure_connected net st))" "tt_closed (snd (ensure_connected net st)) = tt_closed st"
    and "fst (ensure_connected net st) = Inl e \<Longrightarrow> is_modbus_error e"
    and "fst (ensure_connected net st) = Inr () \<Longrightarrow> tt_connected (snd (ensure_connected net st))"
    and "tn_open net = Inr () \<Longrightarrow> \<not> tt_closed st \<Longrightarrow> fst (ensure_connected net st) = Inr ()"
proof -
  have inv: "tcp_inv (snd (ensure_connected net st))"
    using tcp_inv_run [OF ensure_connected_run, of st net] ok by (simp add: session_ok_def)
  note defs = ensure_connected_def connect_begin_def connect_done_def Let_def
  from inv ok show "session_ok (snd (ensure_connected net st))"
    by (auto simp: session_ok_def defs split: sum.splits)
  show "tt_closed (snd (ensure_connected net st)) = tt_closed st"
    by (simp add: defs split: sum.split)
  show "fst (ensure_connected net st) = Inl e \<Longrightarrow> is_modbus_error e"
    using net by (auto simp: defs tcp_net_documented_def split: sum.splits if_splits)
  show "fst (ensure_connected net st) = Inr () \<Longrightarrow> tt_connected (snd (ensure_connected net st))"
    by (auto simp: defs split: sum.splits if_splits)
  show "tn_open net = Inr () \<Longrightarrow> \<not> tt_closed st \<Longrightarrow> fst (ensure_connected net st) = Inr ()"
    by (simp add: defs)
qed

section \<open>A call from beginning to end\<close>

text \<open>The call \<open>k\<close> is the only one in flight, on the connection \<open>c\<close>.\<close>

definition call_running :: "nat \<Rightarrow> nat \<Rightarrow> tcp_state \<Rightarrow> bool" where
  "call_running k c st \<longleftrightarrow> tcp_inv st \<and> \<not> tt_connecting st \<and> tt_teardowns st = Map.empty \<and>
     (\<exists>call. tt_calls st = [k \<mapsto> call] \<and> tt_pending st = [tc_tid call \<mapsto> k]) \<and>
     tt_connected st \<and> tt_writer st = Some c \<and> tt_read_task st = Some c \<and> (\<exists>buf. tt_loops st = [c \<mapsto> buf])"

text \<open>Whatever arrives, the read loop only touches the calls, and keeps each under its id.\<close>

lemma read_loop_calls:
  "\<exists>rest calls. read_loop buf st = (Inr rest, st\<lparr>tt_calls := calls\<rparr>) \<and>
     (\<forall>k. map_option tc_tid (calls k) = map_option tc_tid (tt_calls st k))"
proof (induction buf st rule: read_loop.induct)
  case (1 buf st)
  show ?case
  proof (rule next_frame_cases [of buf])
    assume nf: "next_frame buf = Inr None"
    show ?thesis by (rule exI [of _ buf], rule exI [of _ "tt_calls st"]) (simp add: read_loop.simps [of buf] nf)
  next
    fix frame rest assume nf: "next_frame buf = Inr (Some (frame, rest))"
    show ?thesis
    proof (cases "decode_mbap_frame frame")
      case (Inl e)
      then have "isinstance_exn e C_ModbusProtocolError" using decode_mbap_error [OF Inl] by (simp add: isinstance_exn_def)
      with "1.IH"(1) [OF nf refl refl Inl] Inl show ?thesis by (simp add: read_loop.simps [of buf] nf)
    next
      case (Inr x)
      obtain tid uid pdu where x: "x = (tid, uid, pdu)" by (cases x)
      from "1.IH"(2) [OF nf refl refl Inr] x obtain rest' calls where
        IH: "read_loop rest (deliver tid pdu st) = (Inr rest', (deliver tid pdu st)\<lparr>tt_calls := calls\<rparr>)"
          "\<forall>k. map_option tc_tid (calls k) = map_option tc_tid (tt_calls (deliver tid pdu st) k)" by blast
      have "map_option tc_tid (tt_calls (deliver tid pdu st) k) = map_option tc_tid (tt_calls st k)" for k
        by (cases "tt_pending st tid") (auto simp: deliver_def Let_def option.map_comp comp_def)
      moreover have "(deliver tid pdu st)\<lparr>tt_calls := calls\<rparr> = st\<lparr>tt_calls := calls\<rparr>" by (simp add: deliver_def Let_def)
      ultimately have "read_loop buf st = (Inr rest', st\<lparr>tt_calls := calls\<rparr>) \<and>
          (\<forall>k. map_option tc_tid (calls k) = map_option tc_tid (tt_calls st k))"
        using IH Inr x by (simp add: read_loop.simps [of buf] nf)
      then show ?thesis by blast
    qed
  qed
qed

lemma loop_reads_running:
  assumes run: "call_running k c st" and loop: "tt_loops st c = Some buf"
  shows "call_running k c (loop_reads c buf data st)"
proof -
  obtain call where call: "tt_calls st = [k \<mapsto> call]" "tt_pending st = [tc_tid call \<mapsto> k]"
    using run by (auto simp: call_running_def)
  obtain rest calls where rl: "read_loop (buf @ data) st = (Inr rest, st\<lparr>tt_calls := calls\<rparr>)"
    and tids: "\<forall>j. map_option tc_tid (calls j) = map_option tc_tid (tt_calls st j)" using read_loop_calls by blast
  obtain call' where "calls k = Some call'" "tc_tid call' = tc_tid call" using spec [OF tids, of k] call by auto
  moreover have "calls j = None" if "j \<noteq> k" for j using spec [OF tids, of j] call that by simp
  ultimately have "calls = [k \<mapsto> call']" "tc_tid call' = tc_tid call" by (auto simp: fun_eq_iff)
  moreover have "tcp_inv (loop_reads c buf data st)" using run by (intro tcp_inv_loop_reads) (simp add: call_running_def)
  ultimately show ?thesis using run call by (auto simp: call_running_def loop_reads_def rl)
qed

text \<open>What a reply leads to: a run, after which the call can end and leaves the transport as it found it.\<close>

definition call_settles :: "nat \<Rightarrow> tcp_state \<Rightarrow> bool" where
  "call_settles k st \<longleftrightarrow> (\<exists>call. tt_calls st k = Some call \<and> call_ok (tt_pending st) k call \<and> session_ok (call_end k call st))"

lemma running_settles: "call_running k c st \<Longrightarrow> call_settles k st"
proof -
  assume run: "call_running k c st"
  then obtain call where call: "tt_calls st = [k \<mapsto> call]" "tt_pending st = [tc_tid call \<mapsto> k]" by (auto simp: call_running_def)
  have "tcp_inv (call_end k call st)" using run call by (intro tcp_inv_call_end) (auto simp: call_running_def)
  moreover have "call_ok (tt_pending st) k call" using run call by (simp add: call_running_def tcp_inv_def)
  ultimately show ?thesis using run call by (auto simp: call_settles_def session_ok_def call_running_def call_end_def)
qed

lemma reply_read_outcome:
  assumes run: "call_running k c st"
  shows "tcp_step\<^sup>*\<^sup>* st (reply_read net c frame st) \<and> call_settles k (reply_read net c frame st) \<and>
    tt_closed (reply_read net c frame st) = tt_closed st"
proof -
  obtain buf where buf: "tt_loops st c = Some buf" using run by (auto simp: call_running_def)
  let ?s1 = "loop_reads c buf (tn_reply net frame) st"
  have s1: "call_running k c ?s1" by (rule loop_reads_running [OF run buf])
  have step1: "tcp_step st ?s1" using buf by (rule tcp_step.step_data)
  obtain buf1 where buf1: "tt_loops ?s1 = [c \<mapsto> buf1]" using s1 by (auto simp: call_running_def)
  have closed: "tt_closed ?s1 = tt_closed st"
    using read_loop_calls [of "buf @ tn_reply net frame" st] by (auto simp: loop_reads_def)
  show ?thesis
  proof (cases "tn_lost net")
    case False
    then have "reply_read net c frame st = ?s1" using buf s1 by (simp add: reply_read_def call_running_def Let_def)
    with step1 running_settles [OF s1] closed show ?thesis by auto
  next
    case True
    let ?s2 = "loop_end c (?s1\<lparr>tt_lost := insert c (tt_lost ?s1)\<rparr>)" and ?who = "ReadLoop c"
    let ?s3 = "teardown_cancel ?who ?s2" let ?s4 = "teardown_finish ?who ?s3"
    have read: "reply_read net c frame st = ?s4"
      using True buf buf1 by (simp add: reply_read_def Let_def loop_end_def teardown_begin_def)
    have "tcp_step ?s1 ?s2" using tcp_task_step(6) [of ?s1 c buf1] buf1 by simp
    moreover have "tcp_step ?s2 ?s3" by (rule tcp_task_step(10)) (simp add: loop_end_def teardown_begin_def)
    moreover have "tcp_step ?s3 ?s4"
      by (rule tcp_task_step(11)) (use s1 in \<open>simp add: teardown_cancel_def loop_end_def teardown_begin_def call_running_def\<close>)
    ultimately have steps: "tcp_step\<^sup>*\<^sup>* st ?s4" using step1 by (meson rtranclp.rtrancl_refl rtranclp.rtrancl_into_rtrancl)
    then have inv: "tcp_inv ?s4" using run by (intro tcp_inv_run [OF steps]) (simp add: call_running_def)
    obtain call where call: "tt_calls ?s1 = [k \<mapsto> call]" "tt_pending ?s1 = [tc_tid call \<mapsto> k]" using s1 by (auto simp: call_running_def)
    then have call4: "tt_calls ?s4 = [k \<mapsto> resolve (Inl ModbusConnectionError) call]"
      by (auto simp: teardown_finish_def teardown_cancel_def loop_end_def teardown_begin_def fun_eq_iff)
    have closed4: "tt_closed ?s4 = tt_closed ?s1"
      by (simp add: teardown_finish_def teardown_cancel_def loop_end_def teardown_begin_def)
    have "session_ok (call_end k (resolve (Inl ModbusConnectionError) call) ?s4)"
      unfolding session_ok_def
      using tcp_inv_call_end [OF inv, of k] call4 s1 buf1
      by (auto simp: call_running_def call_end_def teardown_finish_def teardown_cancel_def loop_end_def teardown_begin_def)
    moreover have "call_ok (tt_pending ?s4) k (resolve (Inl ModbusConnectionError) call)"
      using inv call4 by (simp add: tcp_inv_def)
    ultimately show ?thesis
      using steps call4 closed closed4 by (auto simp: read call_settles_def)
  qed
qed

text \<open>The first part of a call, when the transport is connected.\<close>

lemma call_begin_session:
  assumes ok: "session_ok st" and up: "tt_connected st"
  shows "case encode_mbap_frame (tt_next_tid st) uid pdu of
      Inl e \<Rightarrow> (\<exists>st'. call_begin k pdu uid st = (Inl e, st') \<and> session_ok st' \<and> tt_closed st' = tt_closed st)
    | Inr frame \<Rightarrow> (\<exists>st' c. call_begin k pdu uid st = (Inr (), st') \<and> call_running k c st' \<and> tt_closed st' = tt_closed st \<and>
        last (tt_wire st') = (c, frame) \<and> tt_loops st' = tt_loops st \<and>
        tt_calls st' k = Some \<lparr>tc_tid = tt_next_tid st, tc_request = (uid, pdu), tc_future = None, tc_seen = []\<rparr>)"
proof -
  obtain c buf where st: "tt_writer st = Some c" "tt_read_task st = Some c" "tt_loops st = [c \<mapsto> buf]"
      "tt_calls st = Map.empty" "tt_pending st = Map.empty" "\<not> tt_connecting st" "tt_teardowns st = Map.empty" "tcp_inv st"
    using ok up by (auto simp: session_ok_def)
  have alloc: "allocate_tid (tt_next_tid st) (tt_pending st) = (Inr (tt_next_tid st), (tt_next_tid st + 1) mod 65536)"
    using st(5) by (intro allocate_tid_free) simp
  have inv: "tcp_inv (snd (call_begin k pdu uid st))" using st by (intro tcp_inv_call_begin) simp_all
  show ?thesis
  proof (cases "encode_mbap_frame (tt_next_tid st) uid pdu")
    case (Inl e)
    then have "call_begin k pdu uid st = (Inl e, st\<lparr>tt_next_tid := (tt_next_tid st + 1) mod 65536\<rparr>)"
      unfolding call_begin_def alloc by (simp add: st(1))
    with Inl inv st up show ?thesis by (auto simp: session_ok_def)
  next
    case (Inr frame)
    then have "call_begin k pdu uid st = (Inr (), st\<lparr>tt_next_tid := (tt_next_tid st + 1) mod 65536,
        tt_pending := [tt_next_tid st \<mapsto> k],
        tt_calls := [k \<mapsto> \<lparr>tc_tid = tt_next_tid st, tc_request = (uid, pdu), tc_future = None, tc_seen = []\<rparr>],
        tt_wire := tt_wire st @ [(c, frame)]\<rparr>)"
      unfolding call_begin_def alloc by (simp add: st(1,4,5))
    with Inr inv st up show ?thesis by (auto simp: call_running_def)
  qed
qed

lemma call_result_outcome:
  assumes "call_settles k st"
  shows "\<exists>call r. call_result k sent st = (r, call_end k call st) \<and> tt_calls st k = Some call \<and> session_ok (call_end k call st) \<and>
    (\<forall>e. r = Inl e \<longrightarrow> is_modbus_error e) \<and> (sent \<longrightarrow> (\<forall>resp. tc_future call = Some (Inr resp) \<longrightarrow> r = Inr resp)) \<and>
    tcp_step st (call_end k call st)"
proof -
  obtain call where call: "tt_calls st k = Some call" "call_ok (tt_pending st) k call" "session_ok (call_end k call st)"
    using assms by (auto simp: call_settles_def)
  let ?how = "if \<not> sent then SendFailed else if tc_future call = None then TimedOut else Resolved"
  obtain r where r: "call_outcome ?how call = Some r" by (cases sent; cases "tc_future call"; auto)
  then have "tcp_step st (call_end k call st)" using call(1) by (rule_tac tcp_task_step(5))
  with call r show ?thesis
    by (auto simp: call_result_def call_ok_def split: if_splits)
qed

lemma send_outcome:
  assumes ok: "session_ok st" and net: "tcp_net_documented net"
  shows "tcp_step\<^sup>*\<^sup>* st (snd (tcp_send_and_receive net pdu uid st))" and "session_ok (snd (tcp_send_and_receive net pdu uid st))"
    and "tt_closed (snd (tcp_send_and_receive net pdu uid st)) = tt_closed st"
    and "fst (tcp_send_and_receive net pdu uid st) = Inl e \<Longrightarrow> is_modbus_error e \<or> \<not> mbap_ok 0 uid pdu"
proof -
  let ?goal = "\<lambda>r st'. tcp_step\<^sup>*\<^sup>* st st' \<and> session_ok st' \<and> tt_closed st' = tt_closed st \<and>
    (\<forall>e. r = Inl e \<longrightarrow> is_modbus_error e \<or> \<not> mbap_ok 0 uid pdu)"
  obtain r1 st1 where ens: "ensure_connected net st = (r1, st1)" by fastforce
  have st1: "tcp_step\<^sup>*\<^sup>* st st1" "session_ok st1" "tt_closed st1 = tt_closed st"
    "\<forall>e. r1 = Inl e \<longrightarrow> is_modbus_error e" "r1 = Inr () \<longrightarrow> tt_connected st1"
    using ensure_connected_run [of st net] ensure_connected_outcome [OF ok net] ok ens by (auto simp: session_ok_def)
  have "?goal (fst (tcp_send_and_receive net pdu uid st)) (snd (tcp_send_and_receive net pdu uid st))"
  proof (cases "tt_closed st \<or> is_raised r1")
    case True
    with st1 ok ens show ?thesis by (cases r1) (auto simp: tcp_send_and_receive_def send_and_receive_unlocked_def bindS_def)
  next
    case False
    then have r1: "r1 = Inr ()" "tt_connected st1" using st1(5) by (cases r1; simp)+
    have calls: "tt_calls st1 0 = None" "0 \<le> tt_next_tid st1" "tt_next_tid st1 \<le> 65535"
      using st1(2) by (auto simp: session_ok_def tcp_inv_def)
    have begin_step: "tcp_step st1 (snd (call_begin 0 pdu uid st1))" using calls(1) by (rule tcp_task_step(4))
    show ?thesis
    proof (cases "encode_mbap_frame (tt_next_tid st1) uid pdu")
      case (Inl e)
      with call_begin_session [OF st1(2) r1(2), where k = 0 and uid = uid and pdu = pdu] obtain st2 where
        st2: "call_begin 0 pdu uid st1 = (Inl e, st2)" "session_ok st2" "tt_closed st2 = tt_closed st1" by auto
      have "\<not> mbap_ok 0 uid pdu" using Inl calls by (auto simp: encode_mbap_frame_eq split: if_splits)
      with st2 st1 begin_step False ens r1 show ?thesis
        by (auto simp: tcp_send_and_receive_def send_and_receive_unlocked_def bindS_def intro: rtranclp.rtrancl_into_rtrancl)
    next
      case (Inr frame)
      with call_begin_session [OF st1(2) r1(2), where k = 0 and uid = uid and pdu = pdu] obtain st2 c where
        st2: "call_begin 0 pdu uid st1 = (Inr (), st2)" "call_running 0 c st2" "tt_closed st2 = tt_closed st1" "last (tt_wire st2) = (c, frame)"
        by auto
      define st3 where "st3 = (if tn_sent net then reply_read net c frame st2 else st2)"
      have st3: "tcp_step\<^sup>*\<^sup>* st2 st3" "call_settles 0 st3" "tt_closed st3 = tt_closed st2"
        using reply_read_outcome [OF st2(2), of net frame] running_settles [OF st2(2)] by (auto simp: st3_def)
      from call_result_outcome [OF st3(2), of "tn_sent net"] obtain call r where
        fin: "call_result 0 (tn_sent net) st3 = (r, call_end 0 call st3)" "session_ok (call_end 0 call st3)"
          "\<forall>e. r = Inl e \<longrightarrow> is_modbus_error e" "tcp_step st3 (call_end 0 call st3)" by blast
      have "tcp_send_and_receive net pdu uid st = (r, call_end 0 call st3)"
        using False ens r1 st2 fin(1) by (simp add: tcp_send_and_receive_def send_and_receive_unlocked_def bindS_def st3_def)
      moreover have "tcp_step\<^sup>*\<^sup>* st (call_end 0 call st3)"
      proof -
        have "tcp_step\<^sup>*\<^sup>* st st2" using st1(1) begin_step st2(1) by (auto intro: rtranclp.rtrancl_into_rtrancl)
        with st3(1) fin(4) show ?thesis by (meson rtranclp.rtrancl_into_rtrancl rtranclp_trans)
      qed
      ultimately show ?thesis using fin st1 st2 st3 by (simp add: call_end_def)
    qed
  qed
  then show "tcp_step\<^sup>*\<^sup>* st (snd (tcp_send_and_receive net pdu uid st))" "session_ok (snd (tcp_send_and_receive net pdu uid st))"
    "tt_closed (snd (tcp_send_and_receive net pdu uid st)) = tt_closed st"
    "fst (tcp_send_and_receive net pdu uid st) = Inl e \<Longrightarrow> is_modbus_error e \<or> \<not> mbap_ok 0 uid pdu" by auto
qed

section \<open>The contract of the client\<close>

definition tcp_good :: "tcp_state \<times> tcp_net list \<Rightarrow> bool" where
  "tcp_good w \<longleftrightarrow> session_ok (fst w) \<and> (\<forall>net \<in> set (snd w). tcp_net_documented net)"

definition next_net :: "tcp_net list \<Rightarrow> tcp_net" where
  "next_net nets = (case nets of [] \<Rightarrow> tcp_net_down | n # _ \<Rightarrow> n)"

lemma with_tcp_net_eq:
  "with_tcp_net op w = (fst (op (next_net (snd w)) (fst w)), (snd (op (next_net (snd w)) (fst w)), drop 1 (snd w)))"
  by (simp add: with_tcp_net_def next_net_def split_beta Let_def)

lemma tcp_good_net: "tcp_good w \<Longrightarrow> session_ok (fst w) \<and> tcp_net_documented (next_net (snd w))"
  by (auto simp: tcp_good_def next_net_def tcp_net_documented_def tcp_net_down_def split: list.split)

lemma tcp_good_next: "tcp_good w \<Longrightarrow> session_ok st \<Longrightarrow> tcp_good (st, drop 1 (snd w))"
  by (auto simp: tcp_good_def dest: in_set_dropD)

interpretation tcp: modbus_transport TcpTransport tcp_good "\<lambda>uid pdu. mbap_ok 0 uid pdu"
proof
  fix w :: "tcp_state \<times> tcp_net list" and pdu uid timeout e
  assume w: "tcp_good w"
  note net = conjunct1 [OF tcp_good_net [OF w]] conjunct2 [OF tcp_good_net [OF w]]
  show "tcp_good (snd (tr_send_and_receive TcpTransport pdu uid timeout w))"
    using tcp_good_next [OF w send_outcome(2) [OF net]] by (simp add: TcpTransport_def with_tcp_net_eq)
  show "mbap_ok 0 uid pdu \<Longrightarrow> fst (tr_send_and_receive TcpTransport pdu uid timeout w) = Inl e \<Longrightarrow> is_modbus_error e"
    using send_outcome(4) [OF net, where pdu = pdu and uid = uid and e = e] by (auto simp: TcpTransport_def with_tcp_net_eq)
  show "tcp_good (snd (tr_connect TcpTransport w))"
    using tcp_good_next [OF w] net(1) ensure_connected_outcome(1) [OF net]
    by (simp add: TcpTransport_def with_tcp_net_eq tcp_connect_def)
  show "fst (tr_connect TcpTransport w) = Inl e \<Longrightarrow> is_modbus_error e"
    using ensure_connected_outcome(3) [OF net] by (auto simp: TcpTransport_def with_tcp_net_eq tcp_connect_def split: if_splits)
  show "fst (tr_close TcpTransport w) = Inl e \<Longrightarrow> is_modbus_error e"
    by (auto simp: TcpTransport_def split: prod.splits)
qed

text \<open>Closing is a run too, and leaves nothing running.\<close>

lemma tcp_close_run:
  assumes "session_ok st"
  shows "tcp_step\<^sup>*\<^sup>* st (tcp_close st) \<and> session_ok (tcp_close st) \<and> tt_closed (tcp_close st) \<and> \<not> tt_connected (tcp_close st)"
proof -
  let ?s1 = "close_begin st" let ?s2 = "teardown_cancel Closer ?s1"
  note defs = close_begin_def teardown_begin_def teardown_cancel_def teardown_finish_def loop_end_def
  have s1: "tcp_step st ?s1" using assms by (intro tcp_task_step(9)) (simp add: session_ok_def)
  have s2: "tcp_step ?s1 ?s2" by (rule tcp_task_step(10)) (simp add: defs)
  have *: "tcp_step\<^sup>*\<^sup>* st (tcp_close st) \<and> (session_ok (tcp_close st) \<longleftrightarrow> tcp_inv (tcp_close st)) \<and>
      tt_closed (tcp_close st) \<and> \<not> tt_connected (tcp_close st)"
  proof (cases "tt_connected st")
    case False
    with assms have fin: "tt_teardowns ?s2 Closer = Some Finishing" by (simp add: defs session_ok_def)
    then have "tcp_step ?s2 (teardown_finish Closer ?s2)" by (rule tcp_task_step(11))
    with s1 s2 have "tcp_step\<^sup>*\<^sup>* st (teardown_finish Closer ?s2)" by (meson rtranclp.rtrancl_refl rtranclp.rtrancl_into_rtrancl)
    moreover have "tcp_close st = teardown_finish Closer ?s2" using fin by (simp add: tcp_close_def Let_def)
    ultimately show ?thesis using False assms by (auto simp: session_ok_def defs)
  next
    case True
    with assms obtain c buf where st: "tt_read_task st = Some c" "tt_loops st = [c \<mapsto> buf]" "tt_teardowns st = Map.empty"
      "tt_calls st = Map.empty" by (auto simp: session_ok_def)
    let ?s3 = "loop_end c ?s2" let ?s4 = "teardown_cancel (ReadLoop c) ?s3" let ?s5 = "teardown_finish (ReadLoop c) ?s4"
    have cancelling: "tt_teardowns ?s2 Closer = Some (Cancelling c)" using st by (simp add: defs)
    have "tcp_step ?s2 ?s3" by (rule tcp_task_step(7) [OF cancelling, where buf = buf]) (simp add: defs st)
    moreover have "tcp_step ?s3 ?s4" by (rule tcp_task_step(10)) (simp add: defs)
    moreover have "tcp_step ?s4 ?s5" by (rule tcp_task_step(11)) (use st in \<open>simp add: defs\<close>)
    moreover have "tcp_step ?s5 (teardown_finish Closer ?s5)"
      by (rule tcp_task_step(12) [where c = c]) (use st in \<open>simp_all add: defs\<close>)
    ultimately have "tcp_step\<^sup>*\<^sup>* st (teardown_finish Closer ?s5)"
      using s1 s2 by (meson rtranclp.rtrancl_refl rtranclp.rtrancl_into_rtrancl)
    moreover have "tcp_close st = teardown_finish Closer ?s5" using cancelling by (simp add: tcp_close_def Let_def)
    ultimately show ?thesis using True assms st by (auto simp: session_ok_def defs)
  qed
  then show ?thesis using tcp_inv_run [of st "tcp_close st"] assms by (auto simp: session_ok_def)
qed

section \<open>A connection to a server\<close>

text \<open>
  The transport on a network that carries every frame to a server and its answer back; the world is the
  transport with the store of the server's host.
\<close>

definition server_net :: "'s server \<Rightarrow> 's \<Rightarrow> tcp_net" where
  "server_net srv st = \<lparr>tn_open = Inr (), tn_sent = True, tn_reply = (\<lambda>frame. concat (fst (serve_buffer srv frame st))),
     tn_lost = False\<rparr>"

definition tcp_link :: "'s server \<Rightarrow> (tcp_state \<times> 's) transport" where
  "tcp_link srv = \<lparr>tr_connect = (\<lambda>(t, st). let (out, t') = tcp_connect (server_net srv st) t in (out, (t', st))),
     tr_close = (\<lambda>(t, st). (Inr (), (tcp_close t, st))), tr_is_connected = (\<lambda>(t, st). tt_connected t),
     tr_send_and_receive = (\<lambda>pdu uid timeout (t, st).
       let (out, t') = tcp_send_and_receive (server_net srv st) pdu uid t;
           st' = (if tt_wire t' = tt_wire t then st else snd (snd (serve_buffer srv (snd (last (tt_wire t'))) st)))
       in (out, (t', st')))\<rparr>"

definition link_good :: "'s server \<Rightarrow> int \<Rightarrow> 's \<Rightarrow> tcp_state \<times> 's \<Rightarrow> bool" where
  "link_good srv uid st w \<longleftrightarrow> serves_reads srv uid st \<and> 0 \<le> uid \<and> uid \<le> 255 \<and> snd w = st \<and>
     session_ok (fst w) \<and> \<not> tt_closed (fst w) \<and> (\<forall>c buf. tt_loops (fst w) c = Some buf \<longrightarrow> buf = [])"

lemma link_exchange:
  assumes req: "sent_by_read req" and good: "link_good srv uid st w"
  shows "\<exists>resp w'. tr_send_and_receive (tcp_link srv) req uid timeout w = (Inr resp, w') \<and> link_good srv uid st w' \<and>
    fst (dispatch srv uid req st) = Inr resp"
proof -
  obtain t where w: "w = (t, st)" by (cases w) (use good in \<open>auto simp: link_good_def\<close>)
  have t: "session_ok t" "\<not> tt_closed t" "0 \<le> uid" "uid \<le> 255" "\<forall>c buf. tt_loops t c = Some buf \<longrightarrow> buf = []"
    using good by (auto simp: link_good_def w)
  obtain resp where resp: "dispatch srv uid req st = (Inr resp, st)"
    using good req by (auto simp: link_good_def serves_reads_def)
  let ?net = "server_net srv st"
  have net: "tcp_net_documented ?net" by (simp add: server_net_def tcp_net_documented_def)
  obtain t1 where ens: "ensure_connected ?net t = (Inr (), t1)" "session_ok t1" "tt_connected t1" "tt_closed t1 = tt_closed t"
    "\<forall>c buf. tt_loops t1 c = Some buf \<longrightarrow> buf = []"
  proof -
    have "fst (ensure_connected ?net t) = Inr ()" using ensure_connected_outcome(5) [OF t(1) net] t(2) by (simp add: server_net_def)
    then obtain t1 where t1: "ensure_connected ?net t = (Inr (), t1)" by (cases "ensure_connected ?net t") auto
    moreover have "\<forall>c buf. tt_loops t1 c = Some buf \<longrightarrow> buf = []"
      using t1 t(5) by (auto simp: ensure_connected_def connect_begin_def connect_done_def Let_def server_net_def split: if_splits)
    ultimately show thesis using that ensure_connected_outcome(1,2,4) [OF t(1) net] by auto
  qed
  define tid where "tid = tt_next_tid t1"
  have tid: "0 \<le> tid" "tid \<le> 65535" using ens(2) by (auto simp: session_ok_def tcp_inv_def tid_def)
  have "length req = 5" "req \<noteq> []" using sent_by_read_length [OF req] by auto
  then obtain frame where frame: "encode_mbap_frame tid uid req = Inr frame" using tid t by (auto simp: encode_mbap_frame_eq)
  with call_begin_session [OF ens(2,3), where k = 0 and uid = uid and pdu = req] obtain t2 c where
    t2: "call_begin 0 req uid t1 = (Inr (), t2)" "call_running 0 c t2" "tt_closed t2 = tt_closed t1" "last (tt_wire t2) = (c, frame)"
      "tt_loops t2 = tt_loops t1"
    and call: "tt_calls t2 0 = Some \<lparr>tc_tid = tid, tc_request = (uid, req), tc_future = None, tc_seen = []\<rparr>"
    by (auto simp: tid_def)
  obtain out where out: "encode_mbap_frame tid uid resp = Inr out"
    using dispatch_response [OF resp] tid t(3,4) by (auto simp: encode_mbap_frame_eq)
  have serve: "serve_buffer srv frame st = ([out], Reading [], st)" by (simp add: serve_one_frame [OF frame] resp out)
  have loop: "tt_loops t2 = [c \<mapsto> []]" using t2(2,5) ens(5) by (auto simp: call_running_def)
  have pending: "tt_pending t2 = [tid \<mapsto> 0]" using t2(2) call by (auto simp: call_running_def)
  let ?t3 = "loop_reads c [] out t2"
  have t3: "?t3 = (deliver tid resp t2)\<lparr>tt_loops := (tt_loops (deliver tid resp t2))(c \<mapsto> [])\<rparr>"
    using next_frame_encoded(1) [OF out, of "[]"] next_frame_encoded(2) [OF out]
    by (simp add: loop_reads_def read_loop.simps [of out] read_loop.simps [of "[]"] next_frame_short)
  have run3: "call_running 0 c ?t3" using loop by (intro loop_reads_running [OF t2(2)]) simp
  have t3': "call_settles 0 ?t3" "tt_teardowns ?t3 (ReadLoop c) = None"
    using running_settles [OF run3] run3 by (simp_all add: call_running_def)
  then have read: "reply_read ?net c frame t2 = ?t3" using loop by (simp add: reply_read_def server_net_def serve Let_def)
  have "tt_calls ?t3 0 = Some \<lparr>tc_tid = tid, tc_request = (uid, req), tc_future = Some (Inr resp), tc_seen = [(tid, resp)]\<rparr>"
    using pending call by (simp add: t3 deliver_def Let_def resolve_def)
  with call_result_outcome [OF t3'(1), of True] obtain call' where
    fin: "call_result 0 True ?t3 = (Inr resp, call_end 0 call' ?t3)" "session_ok (call_end 0 call' ?t3)" by auto
  have sent: "tcp_send_and_receive ?net req uid t = (Inr resp, call_end 0 call' ?t3)"
    using t(2) ens(1) t2(1,4) fin(1) read
    by (simp add: tcp_send_and_receive_def send_and_receive_unlocked_def bindS_def) (simp add: server_net_def)
  have last: "last (tt_wire (call_end 0 call' ?t3)) = (c, frame)" using t2(4) by (simp add: call_end_def t3 deliver_def Let_def)
  have "tt_loops (call_end 0 call' ?t3) = [c \<mapsto> []]" using loop by (simp add: call_end_def t3 deliver_def Let_def)
  moreover have "tt_closed (call_end 0 call' ?t3) = tt_closed t" using t2(3) ens(4) by (simp add: call_end_def t3 deliver_def Let_def)
  moreover have "snd (snd (serve_buffer srv frame st)) = st" by (simp add: serve)
  ultimately have "link_good srv uid st (call_end 0 call' ?t3, st)"
    using good fin(2) t(2) by (auto simp: link_good_def split: if_splits)
  moreover have "tr_send_and_receive (tcp_link srv) req uid timeout w = (Inr resp, (call_end 0 call' ?t3, st))"
    using sent last serve by (simp add: tcp_link_def w)
  ultimately show ?thesis using resp by auto
qed

interpretation tcp_link: reaching "tcp_link srv" "link_good srv uid st" uid timeout "\<lambda>req. fst (dispatch srv uid req st)"
  for srv uid st timeout
proof
  fix req :: bytes and w resp e
  assume "sent_by_read req" "link_good srv uid st w"
  from link_exchange [OF this, of timeout] obtain resp' w' where
    out: "tr_send_and_receive (tcp_link srv) req uid timeout w = (Inr resp', w')" "link_good srv uid st w'"
      "fst (dispatch srv uid req st) = Inr resp'" by blast
  from out show "link_good srv uid st (snd (tr_send_and_receive (tcp_link srv) req uid timeout w))" by simp
  from out show "fst (tr_send_and_receive (tcp_link srv) req uid timeout w) = Inr resp \<Longrightarrow> fst (dispatch srv uid req st) = Inr resp"
    by simp
  from out show "fst (tr_send_and_receive (tcp_link srv) req uid timeout w) = Inl e \<Longrightarrow> is_modbus_error e" by simp
qed


section \<open>Property\<close>

text \<open>
  C6: the calls of the TCP transport refine its step relation.  Between calls no call, teardown or
  connection attempt is in progress; from such a state \<open>send_and_receive\<close> and \<open>close\<close> perform a run of
  steps of the transport and end in such a state again.  On a network that refuses connections with OS
  errors and timeouts only, \<open>send_and_receive\<close> raises Modbus errors unless the request cannot be framed,
  and it raises one without touching the transport once it is closed; \<open>close\<close> disconnects it for good.
\<close>

theorem tcp_session_refines:
  assumes ok: "session_ok st" and net: "tcp_net_documented net"
    and call: "tcp_send_and_receive net pdu uid st = (r, st')"
  shows "tcp_step\<^sup>*\<^sup>* st st' \<and> session_ok st' \<and> tt_closed st' = tt_closed st \<and>
    (\<forall>e. r = Inl e \<longrightarrow> is_modbus_error e \<or> \<not> mbap_ok 0 uid pdu) \<and>
    (tt_closed st \<longrightarrow> r = Inl ModbusError \<and> st' = st) \<and>
    tcp_step\<^sup>*\<^sup>* st (tcp_close st) \<and> session_ok (tcp_close st) \<and> tt_closed (tcp_close st) \<and> \<not> tt_connected (tcp_close st)"
  using send_outcome [OF ok net, where pdu = pdu and uid = uid] tcp_close_run [OF ok] call
  by (auto simp: tcp_send_and_receive_def split: if_splits)

theorem tcp_session_refines_witness:
  "case tcp_send_and_receive tcp_net_down [3, 0, 0, 0, 1] 1 tcp_init of (r, st') \<Rightarrow>
     r = Inl ModbusConnectionError \<and> tcp_step\<^sup>*\<^sup>* tcp_init st' \<and> session_ok st' \<and> \<not> tt_closed st' \<and>
     session_ok (tcp_close tcp_init)"
proof -
  have net: "tcp_net_documented tcp_net_down" by (simp add: tcp_net_documented_def tcp_net_down_def)
  have "fst (tcp_send_and_receive tcp_net_down [3, 0, 0, 0, 1] 1 tcp_init) = Inl ModbusConnectionError"
    by (simp add: tcp_send_and_receive_def send_and_receive_unlocked_def bindS_def ensure_connected_def connect_begin_def
        connect_done_def tcp_net_down_def tcp_init_def)
  moreover have "tt_closed tcp_init = False" by (simp add: tcp_init_def)
  ultimately show ?thesis
    using tcp_session_refines [OF session_init net prod.collapse [symmetric], of "[3, 0, 0, 0, 1]" 1] by (simp add: split_beta)
qed

end
