(* ===== verification/Serial.thy ===== *)
theory Serial
  imports Rtu_Response Client Transport_Contract
begin

text \<open>
  The serial transport of \<open>src/pymod/transport/serial.py\<close>.  The port is pyserial's, not pymod's: it is a
  record of effects on a world that also holds the clock, a parameter of the transport.  A \<open>timeout\<close> or
  \<open>write_timeout\<close> set on the port is an argument of the read or write that follows.  Times are rational
  numbers.  The lock makes the calls run one after the other.
\<close>

section \<open>The port\<close>

record 'p serial_like =
  sp_open :: "('p, unit) effect"                     \<comment> \<open>the serial factory\<close>
  sp_write :: "bytes \<Rightarrow> rat \<Rightarrow> ('p, unit) effect"
  sp_read :: "int \<Rightarrow> rat \<Rightarrow> ('p, bytes) effect"
  sp_reset_input_buffer :: "('p, unit) effect"
  sp_close :: "('p, unit) effect"
  sp_monotonic :: "'p \<Rightarrow> rat"                        \<comment> \<open>\<open>time.monotonic\<close>\<close>
  sp_sleep :: "rat \<Rightarrow> 'p \<Rightarrow> 'p"                       \<comment> \<open>\<open>time.sleep\<close>\<close>

section \<open>The frame gap\<close>

definition MIN_FRAME_GAP_S :: rat where
  "MIN_FRAME_GAP_S = 175 / 100000"

text \<open>\<open>int(round(x))\<close>: to the nearest integer, ties to even.\<close>

definition py_round :: "rat \<Rightarrow> int" where
  "py_round x =
     (let f = \<lfloor>x\<rfloor>; d = x - of_int f
      in if d < 1 / 2 then f else if d > 1 / 2 then f + 1 else if even f then f else f + 1)"

definition bits_per_char :: "int \<Rightarrow> string \<Rightarrow> rat \<Rightarrow> int" where
  "bits_per_char bytesize parity stopbits =
     (let parity_bits = (if parity = ''N'' \<or> parity = ''n'' then 0 else 1)
      in 1 + bytesize + parity_bits + py_round stopbits)"

definition frame_gap :: "int \<Rightarrow> int \<Rightarrow> string \<Rightarrow> rat \<Rightarrow> rat option \<Rightarrow> rat result" where
  "frame_gap baudrate bytesize parity stopbits inter_frame_delay_s =
     (case inter_frame_delay_s of
        Some d \<Rightarrow> Inr d
      | None \<Rightarrow>
          if baudrate = 0 then Inl ZeroDivisionError
          else Inr (max (35 / 10 * of_int (bits_per_char bytesize parity stopbits) / of_int baudrate) MIN_FRAME_GAP_S))"

section \<open>State\<close>

record 'p sertr =
  se_connected :: bool
  se_closed :: bool
  se_serial :: bool       \<comment> \<open>\<open>_serial\<close> is not \<open>None\<close>\<close>
  se_last_op :: rat
  se_port :: 'p

definition sertr_init :: "'p \<Rightarrow> 'p sertr" where
  "sertr_init p = \<lparr>se_connected = False, se_closed = False, se_serial = False, se_last_op = 0, se_port = p\<rparr>"

section \<open>An exchange\<close>

definition wait_frame_gap :: "'p serial_like \<Rightarrow> rat \<Rightarrow> rat \<Rightarrow> 'p \<Rightarrow> 'p" where
  "wait_frame_gap ser gap last_op p =
     (let elapsed = sp_monotonic ser p - last_op
      in if elapsed < gap then sp_sleep ser (gap - elapsed) p else p)"

definition serial_read_exactly :: "'p serial_like \<Rightarrow> rat \<Rightarrow> int \<Rightarrow> ('p, bytes) effect" where
  "serial_read_exactly ser deadline n p =
     (let remaining = deadline - sp_monotonic ser p
      in if remaining \<le> 0 then (Inl ModbusTimeoutError, p)
         else case sp_read ser n remaining p of
             (Inl e, p') \<Rightarrow> (Inl e, p')
           | (Inr data, p') \<Rightarrow> if int (length data) < n then (Inl ModbusTimeoutError, p') else (Inr data, p'))"

text \<open>The body of the outer \<open>try\<close> of \<open>_exchange_blocking\<close>; it gives the response and the time of its end.\<close>

definition exchange_body :: "'p serial_like \<Rightarrow> rat \<Rightarrow> rat \<Rightarrow> bytes \<Rightarrow> rat \<Rightarrow> ('p, bytes \<times> rat) effect" where
  "exchange_body ser gap last_op frame timeout_s p0 =
     (let p = snd (ignoreS (sp_reset_input_buffer ser) (wait_frame_gap ser gap last_op p0))
      in case sp_write ser frame timeout_s p of
           (Inl e, p') \<Rightarrow> (Inl (if e = SerialTimeoutException then ModbusTimeoutError else e), p')
         | (Inr _, p') \<Rightarrow>
             bindS (read_rtu_response_sync (serial_read_exactly ser (sp_monotonic ser p' + timeout_s)))
               (\<lambda>response p''. (Inr (response, sp_monotonic ser p''), p'')) p')"

text \<open>The \<open>except\<close> clauses.\<close>

definition serial_error :: "py_exn \<Rightarrow> py_exn" where
  "serial_error e =
     (if e = ModbusTimeoutError \<or> e = ModbusProtocolError then e
      else if is_os_error e then ModbusConnectionError else e)"

definition exchange_blocking :: "'p serial_like \<Rightarrow> rat \<Rightarrow> bytes \<Rightarrow> rat \<Rightarrow> ('p sertr, bytes) effect" where
  "exchange_blocking ser gap frame timeout_s st =
     (case exchange_body ser gap (se_last_op st) frame timeout_s (se_port st) of
        (Inl e, p) \<Rightarrow> (Inl (serial_error e), st\<lparr>se_port := p\<rparr>)
      | (Inr (response, now), p) \<Rightarrow> (Inr response, st\<lparr>se_port := p, se_last_op := now\<rparr>))"

section \<open>Operations\<close>

definition ser_open_locked :: "'p serial_like \<Rightarrow> ('p sertr, unit) effect" where
  "ser_open_locked ser st =
     (if se_connected st then (Inr (), st)
      else if se_closed st then (Inl ModbusError, st)
      else case sp_open ser (se_port st) of
          (Inl e, p) \<Rightarrow> (Inl (if is_os_error e then ModbusConnectionError else e), st\<lparr>se_port := p\<rparr>)
        | (Inr _, p) \<Rightarrow> (Inr (), st\<lparr>se_port := p, se_serial := True, se_connected := True\<rparr>))"

definition ser_exchange_locked :: "'p serial_like \<Rightarrow> rat \<Rightarrow> bytes \<Rightarrow> int \<Rightarrow> rat \<Rightarrow> ('p sertr, bytes) effect" where
  "ser_exchange_locked ser gap pdu unit_id timeout_s =
     bindS (ser_open_locked ser) (\<lambda>_ st.
       if \<not> se_serial st then (Inl AssertionError, st)
       else case encode_rtu_frame unit_id pdu of
           Inl e \<Rightarrow> (Inl e, st)
         | Inr frame \<Rightarrow>
             bindS (exchange_blocking ser gap frame timeout_s) (\<lambda>response_frame.
             bindS (pureS (decode_rtu_frame response_frame)) (\<lambda>(uid, response_pdu).
               pureS (if uid \<noteq> unit_id then Inl ModbusProtocolError else Inr response_pdu))) st)"

definition ser_send_and_receive :: "'p serial_like \<Rightarrow> rat \<Rightarrow> bytes \<Rightarrow> int \<Rightarrow> rat \<Rightarrow> ('p sertr, bytes) effect" where
  "ser_send_and_receive ser gap pdu unit_id timeout_s st =
     (if se_closed st then (Inl ModbusError, st)
      else if length pdu = 0 then (Inl ValueError, st)
      else ser_exchange_locked ser gap pdu unit_id timeout_s st)"

definition ser_connect :: "'p serial_like \<Rightarrow> ('p sertr, unit) effect" where
  "ser_connect ser st = (if se_closed st then (Inl ModbusError, st) else ser_open_locked ser st)"

definition ser_close :: "'p serial_like \<Rightarrow> ('p sertr, unit) effect" where
  "ser_close ser st =
     (let p = (if se_serial st then snd (ignoreS (sp_close ser) (se_port st)) else se_port st)
      in (Inr (), st\<lparr>se_closed := True, se_connected := False, se_serial := False, se_port := p\<rparr>))"

definition SerialTransport :: "'p serial_like \<Rightarrow> rat \<Rightarrow> 'p sertr transport" where
  "SerialTransport ser gap = \<lparr>tr_connect = ser_connect ser, tr_close = ser_close ser, tr_is_connected = se_connected,
     tr_send_and_receive = ser_send_and_receive ser gap\<rparr>"

section \<open>Laws\<close>

lemma py_round_exact: "py_round (of_int n) = n"
  by (simp add: py_round_def)

lemma frame_gap_min: "frame_gap baudrate bytesize parity stopbits None = Inr g \<Longrightarrow>
    MIN_FRAME_GAP_S \<le> g \<and> 35 / 10 * of_int (bits_per_char bytesize parity stopbits) / of_int baudrate \<le> g"
  by (auto simp: frame_gap_def split: if_splits)

lemma wait_frame_gap_elapsed:
  assumes "\<And>d p. 0 \<le> d \<Longrightarrow> sp_monotonic ser p + d \<le> sp_monotonic ser (sp_sleep ser d p)"
  shows "last_op + gap \<le> sp_monotonic ser (wait_frame_gap ser gap last_op p)"
  using assms [of "gap - (sp_monotonic ser p - last_op)" p] by (auto simp: wait_frame_gap_def Let_def)

text \<open>
  Documented behaviour of pyserial: a read returns at most the bytes asked for, and opening, reading
  and writing raise nothing but \<open>SerialException\<close> and other subclasses of \<open>OSError\<close>.
\<close>

definition port_ok :: "'p serial_like \<Rightarrow> bool" where
  "port_ok ser \<longleftrightarrow>
     (\<forall>n t p xs p'. 0 \<le> n \<and> sp_read ser n t p = (Inr xs, p') \<longrightarrow> int (length xs) \<le> n) \<and>
     (\<forall>n t p e p'. sp_read ser n t p = (Inl e, p') \<longrightarrow> is_os_error e) \<and>
     (\<forall>f t p e p'. sp_write ser f t p = (Inl e, p') \<longrightarrow> is_os_error e) \<and>
     (\<forall>p e p'. sp_open ser p = (Inl e, p') \<longrightarrow> is_os_error e)"

text \<open>Sleeping takes at least the time asked for, and the clock never goes back.\<close>

definition clock_ok :: "'p serial_like \<Rightarrow> bool" where
  "clock_ok ser \<longleftrightarrow>
     (\<forall>d p. 0 \<le> d \<longrightarrow> sp_monotonic ser p + d \<le> sp_monotonic ser (sp_sleep ser d p)) \<and>
     (\<forall>p. sp_monotonic ser p \<le> sp_monotonic ser (snd (sp_reset_input_buffer ser p)))"

lemma port_okD:
  assumes "port_ok ser"
  shows "0 \<le> n \<Longrightarrow> sp_read ser n t p = (Inr xs, p') \<Longrightarrow> int (length xs) \<le> n" "sp_read ser n t p = (Inl e, p') \<Longrightarrow> is_os_error e"
    "sp_write ser f t p = (Inl e, p') \<Longrightarrow> is_os_error e" "sp_open ser p = (Inl e, p') \<Longrightarrow> is_os_error e"
  using assms unfolding port_ok_def by blast+

lemma serial_sized_reader:
  assumes "port_ok ser"
  shows "sized_reader (serial_read_exactly ser deadline) (\<lambda>_ _ _. True)"
  using assms
  by unfold_locales
    (fastforce simp: serial_read_exactly_def port_ok_def Let_def split: if_splits prod.splits sum.splits)+

lemma serial_read_error:
  "port_ok ser \<Longrightarrow> serial_read_exactly ser deadline n p = (Inl e, p') \<Longrightarrow> e = ModbusTimeoutError \<or> is_os_error e"
  by (auto simp: serial_read_exactly_def Let_def split: if_splits prod.splits sum.splits dest: port_okD)

lemma serial_read_length: "serial_read_exactly ser deadline n p = (Inr xs, p') \<Longrightarrow> n \<le> int (length xs)"
  by (auto simp: serial_read_exactly_def Let_def split: if_splits prod.splits sum.splits)

lemma exchange_blocking_outcome:
  assumes port: "port_ok ser" and ex: "exchange_blocking ser gap frame timeout_s st = (r, st')"
  shows "se_connected st' = se_connected st \<and> se_serial st' = se_serial st \<and> (case r of
      Inr resp \<Rightarrow> \<exists>u pdu c1 c2. resp = u # pdu @ [c1, c2] \<and> self_delimiting pdu
    | Inl e \<Rightarrow> is_modbus_error e \<and> se_last_op st' = se_last_op st)"
proof -
  obtain b p where b: "exchange_body ser gap (se_last_op st) frame timeout_s (se_port st) = (b, p)" by fastforce
  have frame: "\<exists>u pdu c1 c2. resp = u # pdu @ [c1, c2] \<and> self_delimiting pdu" if "b = Inr (resp, now)" for resp now
    using b that
    by (auto simp: exchange_body_def Let_def bindS_eq_Inr read_rtu_response_same split: prod.splits sum.splits
        dest!: sized_reader.frame_returned [OF serial_sized_reader [OF port]])
  have err: "is_modbus_error (serial_error e)" if "b = Inl e" for e
  proof -
    have os: "is_os_error e \<or> e = ModbusTimeoutError \<or> e = ModbusProtocolError"
      using b that
      by (auto simp: exchange_body_def Let_def bindS_eq_Inl read_rtu_response_same split: prod.splits sum.splits if_splits
          dest: port_okD(3) [OF port] dest!: read_rtu_response_error [OF _ serial_read_length] serial_read_error [OF port])
    then show ?thesis by (auto simp: serial_error_def)
  qed
  show ?thesis using ex b frame err by (cases b) (auto simp: exchange_blocking_def)
qed

text \<open>A port that refuses writes before a given time.\<close>

definition gap_guard :: "'p serial_like \<Rightarrow> rat \<Rightarrow> 'p serial_like" where
  "gap_guard ser earliest = ser\<lparr>sp_write :=
     (\<lambda>frame timeout p. if sp_monotonic ser p < earliest then (Inl (HostError 0), p) else sp_write ser frame timeout p)\<rparr>"

lemma exchange_body_guard:
  assumes "clock_ok ser" "last_op + gap \<le> sp_monotonic ser p"
  shows "last_op + gap \<le> sp_monotonic ser (snd (ignoreS (sp_reset_input_buffer ser) p))"
  using assms by (auto simp: ignoreS_def clock_ok_def intro: order_trans)

lemma serial_exchange_outcome:
  assumes "port_ok ser" "se_connected st = se_serial st" "ser_send_and_receive ser gap pdu uid timeout_s st = (r, st')"
  shows "se_connected st' = se_serial st' \<and> (case r of
      Inr resp \<Rightarrow> self_delimiting resp \<and> (\<exists>frame. encode_rtu_frame uid resp = Inr frame)
    | Inl e \<Rightarrow> is_modbus_error e \<or> e = ValueError \<and> \<not> rtu_ok uid pdu)"
proof (cases "se_closed st \<or> pdu = []")
  case True
  with assms show ?thesis by (auto simp: ser_send_and_receive_def split: if_splits)
next
  case False
  with assms(3) have ex: "ser_exchange_locked ser gap pdu uid timeout_s st = (r, st')"
    by (simp add: ser_send_and_receive_def)
  obtain o1 st1 where o1: "ser_open_locked ser st = (o1, st1)" by fastforce
  have st1: "se_connected st1 = se_serial st1" "case o1 of Inl e \<Rightarrow> is_modbus_error e | Inr _ \<Rightarrow> se_serial st1"
    using o1 assms(2) False
    by (auto simp: ser_open_locked_def split: if_splits prod.splits sum.splits dest: port_okD(4) [OF assms(1)])
  consider e where "o1 = Inl e" | e where "o1 = Inr ()" "encode_rtu_frame uid pdu = Inl e"
    | frame where "o1 = Inr ()" "encode_rtu_frame uid pdu = Inr frame"
    by (cases o1; cases "encode_rtu_frame uid pdu") auto
  then show ?thesis
  proof cases
    case 1
    with ex o1 st1 show ?thesis by (auto simp: ser_exchange_locked_def bindS_def)
  next
    case 2
    then have "e = ValueError" "\<not> rtu_ok uid pdu" by (auto simp: encode_rtu_frame_eq split: if_splits)
    moreover have "r = Inl e" "st' = st1" using 2 ex o1 st1 by (auto simp: ser_exchange_locked_def bindS_def)
    ultimately show ?thesis using st1 by simp
  next
    case 3
    obtain rr st2 where b: "exchange_blocking ser gap frame timeout_s st1 = (rr, st2)" by fastforce
    note out = exchange_blocking_outcome [OF assms(1) b]
    show ?thesis
    proof (cases rr)
      case (Inl e)
      with 3 ex o1 st1 b out show ?thesis by (auto simp: ser_exchange_locked_def bindS_def)
    next
      case (Inr resp)
      with out obtain u p c1 c2 where f: "resp = u # p @ [c1, c2]" "self_delimiting p" by auto
      show ?thesis
      proof (cases "decode_rtu_frame resp")
        case (Inl e)
        with 3 ex o1 st1 b out Inr decode_rtu_error [OF Inl] show ?thesis
          by (auto simp: ser_exchange_locked_def bindS_def pureS_def)
      next
        case (Inr x)
        obtain rid rpdu where x: "x = (rid, rpdu)" by fastforce
        have enc: "encode_rtu_frame rid rpdu = Inr resp" by (rule decode_rtu_frame_ok) (use Inr x in simp)
        then have "rpdu = p" using f(1) by (auto simp: encode_rtu_frame_eq crc_bytes_of_def split: if_splits)
        with enc f x Inr \<open>rr = Inr resp\<close> 3 ex o1 st1 b out show ?thesis
          by (auto simp: ser_exchange_locked_def bindS_def pureS_def split: if_splits)
      qed
    qed
  qed
qed

section \<open>A port that records\<close>

text \<open>
  The same port with a record of what is sent and of what every read returns.  Recording changes nothing
  else (\<open>ser_send_and_receive_recording\<close>).
\<close>

datatype port_event = Sent bytes | Got bytes

definition recording :: "'p serial_like \<Rightarrow> ('p \<times> port_event list) serial_like" where
  "recording ser =
     (let lift = (\<lambda>op (p, log). let (r, p') = op p in (r, (p', log)))
      in \<lparr>sp_open = lift (sp_open ser),
          sp_write = (\<lambda>frame t (p, log). let (r, p') = sp_write ser frame t p in (r, (p', if isl r then log else log @ [Sent frame]))),
          sp_read = (\<lambda>n t (p, log). let (r, p') = sp_read ser n t p
            in (r, (p', case r of Inl _ \<Rightarrow> log | Inr data \<Rightarrow> log @ [Got data]))),
          sp_reset_input_buffer = lift (sp_reset_input_buffer ser), sp_close = lift (sp_close ser),
          sp_monotonic = (\<lambda>(p, _). sp_monotonic ser p), sp_sleep = (\<lambda>d (p, log). (sp_sleep ser d p, log))\<rparr>)"

definition unrecorded :: "('p \<times> port_event list) sertr \<Rightarrow> 'p sertr" where
  "unrecorded st = \<lparr>se_connected = se_connected st, se_closed = se_closed st, se_serial = se_serial st,
     se_last_op = se_last_op st, se_port = fst (se_port st)\<rparr>"

lemma unrecorded_simps [simp]:
  "se_connected (unrecorded st) = se_connected st" "se_closed (unrecorded st) = se_closed st"
  "se_serial (unrecorded st) = se_serial st" "se_last_op (unrecorded st) = se_last_op st"
  "se_port (unrecorded st) = fst (se_port st)"
  "unrecorded (st\<lparr>se_port := q\<rparr>) = (unrecorded st)\<lparr>se_port := fst q\<rparr>"
  "unrecorded (st\<lparr>se_last_op := t\<rparr>) = (unrecorded st)\<lparr>se_last_op := t\<rparr>"
  "unrecorded (st\<lparr>se_serial := b\<rparr>) = (unrecorded st)\<lparr>se_serial := b\<rparr>"
  "unrecorded (st\<lparr>se_connected := b\<rparr>) = (unrecorded st)\<lparr>se_connected := b\<rparr>"
  by (simp_all add: unrecorded_def)

lemma recording_simps:
  "sp_open (recording ser) q = (fst (sp_open ser (fst q)), (snd (sp_open ser (fst q)), snd q))"
  "sp_reset_input_buffer (recording ser) q = (fst (sp_reset_input_buffer ser (fst q)), (snd (sp_reset_input_buffer ser (fst q)), snd q))"
  "sp_monotonic (recording ser) q = sp_monotonic ser (fst q)" "sp_sleep (recording ser) d q = (sp_sleep ser d (fst q), snd q)"
  "sp_write (recording ser) frame t q = (fst (sp_write ser frame t (fst q)), (snd (sp_write ser frame t (fst q)),
     if isl (fst (sp_write ser frame t (fst q))) then snd q else snd q @ [Sent frame]))"
  "sp_read (recording ser) n t q = (fst (sp_read ser n t (fst q)), (snd (sp_read ser n t (fst q)),
     case fst (sp_read ser n t (fst q)) of Inl _ \<Rightarrow> snd q | Inr data \<Rightarrow> snd q @ [Got data]))"
  by (simp_all add: recording_def Let_def split_beta)

text \<open>An effect that does what another one does, up to a projection of the state.\<close>

definition projects :: "('s \<Rightarrow> 't) \<Rightarrow> ('s, 'a) effect \<Rightarrow> ('t, 'a) effect \<Rightarrow> bool" where
  "projects \<pi> m m' \<longleftrightarrow> (\<forall>s. m' (\<pi> s) = (fst (m s), \<pi> (snd (m s))))"

lemma projects_pureS: "projects \<pi> (pureS r) (pureS r)"
  by (simp add: projects_def pureS_def)

lemma projects_bindS:
  assumes "projects \<pi> m m'" "\<And>x. projects \<pi> (f x) (f' x)"
  shows "projects \<pi> (bindS m f) (bindS m' f')"
  unfolding projects_def
proof
  fix s
  show "bindS m' f' (\<pi> s) = (fst (bindS m f s), \<pi> (snd (bindS m f s)))"
    using assms by (cases "m s"; cases "fst (m s)") (simp_all add: projects_def bindS_def)
qed

lemma projects_read_response:
  assumes "\<And>n. projects \<pi> (rd n) (rd' n)"
  shows "projects \<pi> (read_rtu_response_sync rd) (read_rtu_response_sync rd')"
  unfolding read_rtu_response_sync_def
  by (intro projects_bindS assms projects_pureS) (auto simp: Let_def intro!: projects_bindS assms projects_pureS)

lemma exchange_body_recording: "projects fst (exchange_body (recording ser) gap last_op frame t) (exchange_body ser gap last_op frame t)"
proof -
  have rd: "projects fst (serial_read_exactly (recording ser) deadline n) (serial_read_exactly ser deadline n)" for deadline n
    by (auto simp: projects_def serial_read_exactly_def Let_def recording_simps split_beta split: sum.splits)
  have resp: "projects fst
      (bindS (read_rtu_response_sync (serial_read_exactly (recording ser) deadline)) (\<lambda>x q. (Inr (x, sp_monotonic (recording ser) q), q)))
      (bindS (read_rtu_response_sync (serial_read_exactly ser deadline)) (\<lambda>x q. (Inr (x, sp_monotonic ser q), q)))" for deadline
    by (intro projects_bindS projects_read_response rd) (simp add: projects_def recording_simps)
  have before: "fst (snd (ignoreS (sp_reset_input_buffer (recording ser)) (wait_frame_gap (recording ser) gap last_op q))) =
      snd (ignoreS (sp_reset_input_buffer ser) (wait_frame_gap ser gap last_op (fst q)))" for q
    by (simp add: ignoreS_def wait_frame_gap_def Let_def recording_simps)
  show ?thesis
    using resp unfolding projects_def
    by (auto simp: exchange_body_def Let_def recording_simps before split_beta split: sum.split)
qed

text \<open>Recording is transparent.\<close>

lemma ser_send_and_receive_recording:
  "projects unrecorded (ser_send_and_receive (recording ser) gap pdu uid t) (ser_send_and_receive ser gap pdu uid t)"
proof -
  have opn: "projects unrecorded (ser_open_locked (recording ser)) (ser_open_locked ser)"
    by (auto simp: projects_def ser_open_locked_def recording_simps split_beta split: sum.split)
  have ex: "projects unrecorded (exchange_blocking (recording ser) gap frame t) (exchange_blocking ser gap frame t)" for frame
  proof -
    have body: "exchange_body ser gap last_op frame t (fst q) = (fst (exchange_body (recording ser) gap last_op frame t q),
        fst (snd (exchange_body (recording ser) gap last_op frame t q)))" for last_op q
      using exchange_body_recording [of ser gap last_op frame t] unfolding projects_def by blast
    show ?thesis unfolding projects_def by (simp add: exchange_blocking_def body split_beta split: sum.split)
  qed
  have decode: "projects unrecorded (bindS (pureS (decode_rtu_frame rf)) (\<lambda>(u, rpdu). pureS (f u rpdu)))
      (bindS (pureS (decode_rtu_frame rf)) (\<lambda>(u, rpdu). pureS (f u rpdu)))" for rf and f :: "int \<Rightarrow> bytes \<Rightarrow> bytes result"
    by (intro projects_bindS projects_pureS) (simp add: split_beta projects_pureS)
  have "projects unrecorded (ser_exchange_locked (recording ser) gap pdu uid t) (ser_exchange_locked ser gap pdu uid t)"
    unfolding ser_exchange_locked_def
  proof (rule projects_bindS [OF opn])
    note exchange = projects_bindS [OF ex decode, unfolded projects_def, rule_format]
    show "projects unrecorded (\<lambda>st. if \<not> se_serial st then (Inl AssertionError, st) else case encode_rtu_frame uid pdu of
        Inl e \<Rightarrow> (Inl e, st) | Inr frame \<Rightarrow> bindS (exchange_blocking (recording ser) gap frame t) (\<lambda>response_frame.
          bindS (pureS (decode_rtu_frame response_frame)) (\<lambda>(u, rpdu). pureS (if u \<noteq> uid then Inl ModbusProtocolError else Inr rpdu))) st)
      (\<lambda>st. if \<not> se_serial st then (Inl AssertionError, st) else case encode_rtu_frame uid pdu of
        Inl e \<Rightarrow> (Inl e, st) | Inr frame \<Rightarrow> bindS (exchange_blocking ser gap frame t) (\<lambda>response_frame.
          bindS (pureS (decode_rtu_frame response_frame)) (\<lambda>(u, rpdu). pureS (if u \<noteq> uid then Inl ModbusProtocolError else Inr rpdu))) st)"
      by (simp add: projects_def exchange split: sum.split)
  qed
  then show ?thesis by (simp add: projects_def ser_send_and_receive_def)
qed

text \<open>What a successful read leaves in the record.\<close>

lemma recording_reader:
  assumes "port_ok ser"
  shows "sized_reader (serial_read_exactly (recording ser) deadline)
    (\<lambda>q xs q'. \<exists>chunks. snd q' = snd q @ map Got chunks \<and> concat chunks = xs)"
proof
  fix n q xs q'
  assume "serial_read_exactly (recording ser) deadline n q = (Inr xs, q')" "0 \<le> n"
  then show "(\<exists>chunks. snd q' = snd q @ map Got chunks \<and> concat chunks = xs) \<and> int (length xs) = n"
    using port_okD(1) [OF assms, of n _ "fst q" xs]
    by (auto simp: serial_read_exactly_def Let_def recording_simps split: if_splits sum.splits intro!: exI [of _ "[xs]"])
      (metis order_antisym prod.collapse)+
next
  fix q xs q1 ys q2
  assume "\<exists>chunks. snd q1 = snd q @ map Got chunks \<and> concat chunks = xs" "\<exists>chunks. snd q2 = snd q1 @ map Got chunks \<and> concat chunks = ys"
  then obtain c d where "snd q1 = snd q @ map Got c" "concat c = xs" "snd q2 = snd q1 @ map Got d" "concat d = ys" by blast
  then have "snd q2 = snd q @ map Got (c @ d) \<and> concat (c @ d) = xs @ ys" by simp
  then show "\<exists>chunks. snd q2 = snd q @ map Got chunks \<and> concat chunks = xs @ ys" by blast
qed

lemma exchange_body_recorded:
  assumes port: "port_ok ser" and ex: "exchange_body (recording ser) gap last_op frame t q = (Inr (resp, now), q')"
  shows "\<exists>chunks. snd q' = snd q @ Sent frame # map Got chunks \<and> concat chunks = resp"
proof -
  have before: "snd (snd (ignoreS (sp_reset_input_buffer (recording ser)) (wait_frame_gap (recording ser) gap last_op q))) = snd q"
    by (simp add: ignoreS_def wait_frame_gap_def Let_def recording_simps)
  from ex obtain q1 deadline where q1: "snd q1 = snd q @ [Sent frame]"
    and rd: "read_rtu_response_async (serial_read_exactly (recording ser) deadline) q1 = (Inr resp, q')"
    by (auto simp: exchange_body_def Let_def bindS_eq_Inr read_rtu_response_same recording_simps before isl_def split: sum.splits prod.splits)
  from sized_reader.frame_returned [OF recording_reader [OF port] rd] q1 show ?thesis by auto
qed

lemma serial_exchange_recorded:
  assumes port: "port_ok ser" and ex: "ser_send_and_receive (recording ser) gap pdu uid t st = (Inr resp, st')"
  shows "\<exists>req chunks. encode_rtu_frame uid pdu = Inr req \<and> encode_rtu_frame uid resp = Inr (concat chunks) \<and>
    snd (se_port st') = snd (se_port st) @ Sent req # map Got chunks"
proof -
  from ex obtain st1 req rf where opened: "ser_open_locked (recording ser) st = (Inr (), st1)"
    and req: "encode_rtu_frame uid pdu = Inr req" and blocking: "exchange_blocking (recording ser) gap req t st1 = (Inr rf, st')"
    and dec: "decode_rtu_frame rf = Inr (uid, resp)"
    by (auto simp: ser_send_and_receive_def ser_exchange_locked_def bindS_eq_Inr split: if_splits sum.splits)
  have "snd (se_port st1) = snd (se_port st)"
    using opened by (auto simp: ser_open_locked_def recording_simps split: if_splits prod.splits sum.splits)
  moreover obtain now where "exchange_body (recording ser) gap (se_last_op st1) req t (se_port st1) = (Inr (rf, now), se_port st')"
    using blocking by (auto simp: exchange_blocking_def split: prod.splits sum.splits)
  from exchange_body_recorded [OF port this] obtain chunks where
    "snd (se_port st') = snd (se_port st1) @ Sent req # map Got chunks" "concat chunks = rf" by blast
  moreover have "encode_rtu_frame uid resp = Inr rf" by (rule decode_rtu_frame_ok [OF dec])
  ultimately show ?thesis using req by auto
qed

text \<open>The transport keeps the contract of the client, on a port that behaves as documented.\<close>

lemma serial_modbus_transport:
  assumes "port_ok ser"
  shows "modbus_transport (SerialTransport ser gap) (\<lambda>st. se_connected st = se_serial st) rtu_ok"
proof
  fix st :: "'a sertr" and pdu uid t e
  assume st: "se_connected st = se_serial st"
  note out = serial_exchange_outcome [OF assms st prod.collapse [symmetric]]
  show "se_connected (snd (tr_send_and_receive (SerialTransport ser gap) pdu uid t st)) =
      se_serial (snd (tr_send_and_receive (SerialTransport ser gap) pdu uid t st))"
    using out by (simp add: SerialTransport_def)
  show "rtu_ok uid pdu \<Longrightarrow> fst (tr_send_and_receive (SerialTransport ser gap) pdu uid t st) = Inl e \<Longrightarrow> is_modbus_error e"
    using out [of gap pdu uid t] by (auto simp: SerialTransport_def)
  show "se_connected (snd (tr_connect (SerialTransport ser gap) st)) = se_serial (snd (tr_connect (SerialTransport ser gap) st))"
    using st by (auto simp: SerialTransport_def ser_connect_def ser_open_locked_def split: prod.splits sum.splits)
  show "fst (tr_connect (SerialTransport ser gap) st) = Inl e \<Longrightarrow> is_modbus_error e"
    by (auto simp: SerialTransport_def ser_connect_def ser_open_locked_def split: prod.splits sum.splits if_splits
        dest: port_okD(4) [OF assms])
  show "fst (tr_close (SerialTransport ser gap) st) = Inl e \<Longrightarrow> is_modbus_error e"
    by (simp add: SerialTransport_def ser_close_def Let_def)
qed

section \<open>Properties\<close>

text \<open>
  C32: an exchange of the serial transport, on a port that behaves as documented and records what is sent and
  read (the exchange is the same without the record).  If a PDU is returned, exactly one frame was sent, the
  request for the unit asked, and all bytes read after it, together, are the frame of the returned PDU: with
  the address of the unit asked, a correct CRC, and a length that fits its function code.  Every error is a
  \<open>ModbusError\<close>, but for the \<open>ValueError\<close> of a request that cannot be framed; and the port object is set exactly
  if the transport is connected, before and after.
\<close>

theorem serial_exchange:
  assumes "port_ok ser" "se_connected st = se_serial st"
    and "ser_send_and_receive (recording ser) gap pdu uid timeout_s st = (r, st')"
  shows "ser_send_and_receive ser gap pdu uid timeout_s (unrecorded st) = (r, unrecorded st') \<and>
    se_connected st' = se_serial st' \<and> (case r of
      Inr resp \<Rightarrow> self_delimiting resp \<and> (\<exists>req chunks. encode_rtu_frame uid pdu = Inr req \<and>
        snd (se_port st') = snd (se_port st) @ Sent req # map Got chunks \<and> encode_rtu_frame uid resp = Inr (concat chunks))
    | Inl e \<Rightarrow> is_modbus_error e \<or> e = ValueError \<and> \<not> rtu_ok uid pdu)"
proof -
  have plain: "ser_send_and_receive ser gap pdu uid timeout_s (unrecorded st) = (r, unrecorded st')"
    using ser_send_and_receive_recording [of ser gap pdu uid timeout_s] assms(3) by (simp add: projects_def)
  show ?thesis
  proof (cases r)
    case (Inl e)
    with plain serial_exchange_outcome [OF assms(1) _ plain] assms(2) show ?thesis by simp
  next
    case (Inr resp)
    with plain serial_exchange_outcome [OF assms(1) _ plain] assms(2) serial_exchange_recorded [OF assms(1), of gap pdu uid timeout_s st resp st'] assms(3)
    show ?thesis by auto
  qed
qed

text \<open>
  C33: the frame gap.  Unless configured otherwise the gap is at least 3.5 character times and at least
  1.75 ms.  No request is written before the gap has passed since the end of the last exchange that
  returned a response: the transport behaves the same on a port that refuses earlier writes.  An
  exchange that fails does not move that time, so the gap is not kept after it.
\<close>

theorem serial_frame_gap:
  assumes "clock_ok ser"
  shows "exchange_blocking (gap_guard ser (se_last_op st + gap)) gap frame timeout_s st = exchange_blocking ser gap frame timeout_s st \<and>
    (case exchange_blocking ser gap frame timeout_s st of
       (Inr _, st') \<Rightarrow> se_last_op st' = sp_monotonic ser (se_port st')
     | (Inl _, st') \<Rightarrow> se_last_op st' = se_last_op st) \<and>
    (case frame_gap baudrate bytesize parity stopbits None of
       Inr g \<Rightarrow> 175 / 100000 \<le> g \<and> 35 / 10 * of_int (bits_per_char bytesize parity stopbits) / of_int baudrate \<le> g
     | Inl e \<Rightarrow> e = ZeroDivisionError \<and> baudrate = 0)"
proof (intro conjI)
  let ?p = "snd (ignoreS (sp_reset_input_buffer ser) (wait_frame_gap ser gap (se_last_op st) (se_port st)))"
  have sleep: "\<And>d p. 0 \<le> d \<Longrightarrow> sp_monotonic ser p + d \<le> sp_monotonic ser (sp_sleep ser d p)"
    using assms by (simp add: clock_ok_def)
  have "se_last_op st + gap \<le> sp_monotonic ser ?p"
    using exchange_body_guard [OF assms wait_frame_gap_elapsed [OF sleep]] .
  then have wr: "sp_write (gap_guard ser (se_last_op st + gap)) frame timeout_s ?p = sp_write ser frame timeout_s ?p"
    by (simp add: gap_guard_def)
  have guard: "serial_read_exactly (gap_guard ser t) = serial_read_exactly ser" "wait_frame_gap (gap_guard ser t) = wait_frame_gap ser"
      "sp_reset_input_buffer (gap_guard ser t) = sp_reset_input_buffer ser" "sp_monotonic (gap_guard ser t) = sp_monotonic ser" for t
    by (simp_all add: fun_eq_iff serial_read_exactly_def wait_frame_gap_def gap_guard_def Let_def)
  show "exchange_blocking (gap_guard ser (se_last_op st + gap)) gap frame timeout_s st = exchange_blocking ser gap frame timeout_s st"
    unfolding exchange_blocking_def exchange_body_def Let_def guard wr ..
  show "case exchange_blocking ser gap frame timeout_s st of
       (Inr _, st') \<Rightarrow> se_last_op st' = sp_monotonic ser (se_port st')
     | (Inl _, st') \<Rightarrow> se_last_op st' = se_last_op st"
    by (auto simp: exchange_blocking_def exchange_body_def Let_def bindS_def split: prod.splits sum.splits)
  show "case frame_gap baudrate bytesize parity stopbits None of
       Inr g \<Rightarrow> 175 / 100000 \<le> g \<and> 35 / 10 * of_int (bits_per_char bytesize parity stopbits) / of_int baudrate \<le> g
     | Inl e \<Rightarrow> e = ZeroDivisionError \<and> baudrate = 0"
    by (simp add: frame_gap_def MIN_FRAME_GAP_S_def)
qed

text \<open>A port with a clock that stands still between calls and the given bytes to read.\<close>

definition canned_port :: "(bytes \<times> rat) serial_like" where
  "canned_port = \<lparr>sp_open = pureS (Inr ()), sp_write = (\<lambda>_ _. pureS (Inr ())),
     sp_read = (\<lambda>n _ (bs, now). (Inr (take (nat n) bs), (drop (nat n) bs, now))),
     sp_reset_input_buffer = pureS (Inr ()), sp_close = pureS (Inr ()), sp_monotonic = snd,
     sp_sleep = (\<lambda>d (bs, now). (bs, now + d))\<rparr>"

lemma canned_port_ok: "port_ok canned_port" "clock_ok canned_port"
  by (auto simp: port_ok_def clock_ok_def canned_port_def pureS_def)

definition answer_frame :: bytes where
  "answer_frame = [1, 3, 2, 0, 7] @ crc_bytes_of [1, 3, 2, 0, 7]"

theorem serial_exchange_witness:
  "\<exists>st'. ser_send_and_receive (recording canned_port) 1 [3, 0, 0, 0, 1] 1 1 (sertr_init ((answer_frame, 0), [])) =
      (Inr [3, 2, 0, 7], st') \<and>
    ser_send_and_receive canned_port 1 [3, 0, 0, 0, 1] 1 1 (sertr_init (answer_frame, 0)) = (Inr [3, 2, 0, 7], unrecorded st') \<and>
    (\<exists>req chunks. encode_rtu_frame 1 [3, 0, 0, 0, 1] = Inr req \<and> snd (se_port st') = Sent req # map Got chunks \<and>
      encode_rtu_frame 1 [3, 2, 0, 7] = Inr (concat chunks))"
proof -
  let ?st = "sertr_init ((answer_frame, 0), []) :: ((bytes \<times> rat) \<times> port_event list) sertr"
  obtain c1 c2 where crc: "crc_bytes_of [1, 3, 2, 0, 7] = [c1, c2]" by (simp add: crc_bytes_of_def)
  have dec: "decode_rtu_frame [1, 3, 2, 0, 7, c1, c2] = Inr (1, [3, 2, 0, 7])"
    using decode_encoded_rtu [of 1 "[3, 2, 0, 7]"] by (simp add: encode_rtu_frame_eq crc)
  have "\<exists>st'. ser_send_and_receive (recording canned_port) 1 [3, 0, 0, 0, 1] 1 1 ?st = (Inr [3, 2, 0, 7], st')"
    by (simp add: answer_frame_def crc ser_send_and_receive_def ser_exchange_locked_def ser_open_locked_def exchange_blocking_def
        exchange_body_def wait_frame_gap_def serial_read_exactly_def read_rtu_response_sync_def recording_simps canned_port_def
        sertr_init_def bindS_def pureS_def ignoreS_def Let_def encode_rtu_frame_eq py_index_def RTU_EXCEPTION_BIT_def READ_FCS_def dec)
  then obtain st' where st': "ser_send_and_receive (recording canned_port) 1 [3, 0, 0, 0, 1] 1 1 ?st = (Inr [3, 2, 0, 7], st')" ..
  have st: "se_connected ?st = se_serial ?st" "unrecorded ?st = sertr_init (answer_frame, 0)" "snd (se_port ?st) = []"
    by (simp_all add: unrecorded_def sertr_init_def)
  note ex = serial_exchange [OF canned_port_ok(1) st(1) st', unfolded st(2,3) sum.case append_Nil]
  show ?thesis using ex st' by (intro exI [of _ st'] conjI) (elim conjE, assumption)+
qed

theorem serial_frame_gap_witness:
  "exchange_blocking (gap_guard canned_port (0 + 1)) 1 [1] 1 (sertr_init ([], 0)) =
   exchange_blocking canned_port 1 [1] 1 (sertr_init ([], 0))"
  using serial_frame_gap [OF canned_port_ok(2), of "sertr_init ([], 0)" 1 "[1]" 1]
  by (simp add: sertr_init_def)

end
