(* ===== verification/Factories.thy ===== *)
theory Factories
  imports Tcp_Session Serial
begin

text \<open>
  The factories of \<open>AsyncClient\<close> and \<open>Client\<close> in \<open>src/pymod/client.py\<close> over the three transports, and the
  \<open>with\<close> statement on a synchronous client.  What is found at an address or a serial port is part of the
  environment; a factory gives the client with the initial state of its transport.
\<close>

section \<open>Asynchronous clients\<close>

text \<open>
  The environment: the behaviour of the network in the calls to come, for a host and port and, of TCP,
  the \<open>pipeline\<close> flag and the connect timeout; and the ports by name.
\<close>

record 'p network =
  nw_tcp :: "string \<Rightarrow> int \<Rightarrow> bool \<Rightarrow> rat \<Rightarrow> tcp_net list"
  nw_rtu_over_tcp :: "string \<Rightarrow> int \<Rightarrow> rat \<Rightarrow> net list"
  nw_serial :: "string \<Rightarrow> int \<Rightarrow> int \<Rightarrow> string \<Rightarrow> rat \<Rightarrow> 'p serial_like"
  nw_port :: "string \<Rightarrow> 'p"

definition async_client_tcp ::
  "'p network \<Rightarrow> string \<Rightarrow> int \<Rightarrow> int \<Rightarrow> rat \<Rightarrow> retry_policy option \<Rightarrow> bool \<Rightarrow> rat \<Rightarrow>
   (tcp_state \<times> tcp_net list) client \<times> (tcp_state \<times> tcp_net list)" where
  "async_client_tcp nw host port unit_id timeout_s retry pipeline connect_timeout_s =
     (make_client TcpTransport unit_id timeout_s retry, (tcp_init, nw_tcp nw host port pipeline connect_timeout_s))"

definition async_client_rtu ::
  "'p network \<Rightarrow> string \<Rightarrow> int \<Rightarrow> int \<Rightarrow> string \<Rightarrow> rat \<Rightarrow> int \<Rightarrow> rat \<Rightarrow> retry_policy option \<Rightarrow> rat option \<Rightarrow>
   ('p sertr client \<times> 'p sertr) result" where
  "async_client_rtu nw port baudrate bytesize parity stopbits unit_id timeout_s retry inter_frame_delay_s =
     bindE (frame_gap baudrate bytesize parity stopbits inter_frame_delay_s) (\<lambda>gap.
       Inr (make_client (SerialTransport (nw_serial nw port baudrate bytesize parity stopbits) gap) unit_id timeout_s retry,
         sertr_init (nw_port nw port)))"

definition async_client_rtu_over_tcp ::
  "'p network \<Rightarrow> string \<Rightarrow> int \<Rightarrow> int \<Rightarrow> rat \<Rightarrow> retry_policy option \<Rightarrow> rat \<Rightarrow>
   (rot \<times> net list) client \<times> (rot \<times> net list)" where
  "async_client_rtu_over_tcp nw host port unit_id timeout_s retry connect_timeout_s =
     (make_client RtuOverTcpTransport unit_id timeout_s retry, (rot_init, nw_rtu_over_tcp nw host port connect_timeout_s))"

section \<open>Synchronous clients\<close>

text \<open>
  \<open>_BackgroundLoop()\<close> starts its thread and waits until the loop runs.  A factory starts the loop before it
  builds the client, so the result comes with whether a thread is left running.
\<close>

definition background_loop :: "'w \<Rightarrow> 'w sync_world" where
  "background_loop w = \<lparr>bl_alive = True, sw_world = w\<rparr>"

definition client_tcp ::
  "'p network \<Rightarrow> string \<Rightarrow> int \<Rightarrow> int \<Rightarrow> rat \<Rightarrow> retry_policy option \<Rightarrow> bool \<Rightarrow> rat \<Rightarrow>
   (tcp_state \<times> tcp_net list) client \<times> (tcp_state \<times> tcp_net list) sync_world" where
  "client_tcp nw host port unit_id timeout_s retry pipeline connect_timeout_s =
     (let (cl, w) = async_client_tcp nw host port unit_id timeout_s retry pipeline connect_timeout_s in (cl, background_loop w))"

definition client_rtu ::
  "'p network \<Rightarrow> string \<Rightarrow> int \<Rightarrow> int \<Rightarrow> string \<Rightarrow> rat \<Rightarrow> int \<Rightarrow> rat \<Rightarrow> retry_policy option \<Rightarrow> rat option \<Rightarrow>
   ('p sertr client \<times> 'p sertr sync_world) result \<times> bool" where
  "client_rtu nw port baudrate bytesize parity stopbits unit_id timeout_s retry inter_frame_delay_s =
     (bindE (async_client_rtu nw port baudrate bytesize parity stopbits unit_id timeout_s retry inter_frame_delay_s)
        (\<lambda>(cl, w). Inr (cl, background_loop w)), True)"

definition client_rtu_over_tcp ::
  "'p network \<Rightarrow> string \<Rightarrow> int \<Rightarrow> int \<Rightarrow> rat \<Rightarrow> retry_policy option \<Rightarrow> rat \<Rightarrow>
   (rot \<times> net list) client \<times> (rot \<times> net list) sync_world" where
  "client_rtu_over_tcp nw host port unit_id timeout_s retry connect_timeout_s =
     (let (cl, w) = async_client_rtu_over_tcp nw host port unit_id timeout_s retry connect_timeout_s in (cl, background_loop w))"

text \<open>\<open>with client: body\<close>: \<open>__enter__\<close> connects; \<open>__exit__\<close> closes, but only once \<open>__enter__\<close> has returned.\<close>

definition sync_with :: "'w client \<Rightarrow> ('w sync_world, 'a) effect \<Rightarrow> ('w sync_world, 'a) effect" where
  "sync_with cl body =
     bindS (sync_connect cl) (\<lambda>_ s. let (r, s1) = body s in case sync_close cl s1 of (Inl e, s2) \<Rightarrow> (Inl e, s2) | (Inr _, s2) \<Rightarrow> (r, s2))"

section \<open>Laws\<close>

text \<open>Networks and ports that fail with the documented errors only.\<close>

definition network_documented :: "'p network \<Rightarrow> bool" where
  "network_documented nw \<longleftrightarrow>
     (\<forall>host port pipeline t. \<forall>net \<in> set (nw_tcp nw host port pipeline t). tcp_net_documented net) \<and>
     (\<forall>host port t. \<forall>net \<in> set (nw_rtu_over_tcp nw host port t). net_documented net) \<and>
     (\<forall>port baudrate bytesize parity stopbits. port_ok (nw_serial nw port baudrate bytesize parity stopbits))"

lemma make_client_fields [simp]:
  "cl_transport (make_client tr u t r) = tr" "cl_unit_id (make_client tr u t r) = u"
  "cl_timeout_s (make_client tr u t r) = t" "cl_retry (make_client tr u t (Some p)) = p"
  by (simp_all add: make_client_def)

text \<open>The worlds that a client from a factory keeps within, starting with its own.\<close>

lemma factory_contracts:
  assumes "network_documented nw"
  shows "async_client_tcp nw host port unit_id timeout_s retry pipeline ct = (cl1, w1) \<Longrightarrow>
      cl_transport cl1 = TcpTransport \<and> tcp_good w1"
    and "async_client_rtu_over_tcp nw host port unit_id timeout_s retry ct = (cl2, w2) \<Longrightarrow>
      cl_transport cl2 = RtuOverTcpTransport \<and> rot_good w2"
    and "async_client_rtu nw name baudrate bytesize parity stopbits unit_id timeout_s retry gap = Inr (cl3, w3) \<Longrightarrow>
      modbus_transport (cl_transport cl3) (\<lambda>st. se_connected st = se_serial st) rtu_ok \<and> se_connected w3 = se_serial w3"
  using assms session_init
  by (auto simp: async_client_tcp_def async_client_rtu_over_tcp_def async_client_rtu_def network_documented_def tcp_good_def
      rot_good_def bindE_eq_Inr sertr_init_def intro!: serial_modbus_transport)

lemma sent_by_read_framed:
  assumes "sent_by_read req"
  shows "0 \<le> uid \<and> uid \<le> 255 \<Longrightarrow> rtu_ok uid req" "0 \<le> uid \<and> uid \<le> 255 \<Longrightarrow> mbap_ok 0 uid req"
  using sent_by_read_length [OF assms] by auto

context modbus_transport begin

lemma made_client_returns:
  assumes "finite_delays policy" "1 \<le> max_attempts policy" "\<forall>req. sent_by_read req \<longrightarrow> framed unit_id req"
    and "\<forall>it \<in> set items. validate_read_item it = Inr ()" "\<forall>it \<in> set items. addressable it"
    and "\<forall>i. good (worlds i)" "\<forall>d w. good w \<longrightarrow> good (sleep d w)"
  shows "\<exists>rs. client_read sleep (make_client tr unit_id timeout_s (Some policy)) items None None None worlds completion = Inr rs \<and>
    length rs = length items"
  by (rule client_read_returns) (use assms in auto)

end

section \<open>Properties\<close>

text \<open>
  C5: batch reads return with every client of the factories.  On networks and serial ports that fail with
  the documented errors only, and whatever they do otherwise, a batch of valid, addressable items read
  with a client of \<open>AsyncClient.tcp\<close>, \<open>AsyncClient.rtu_over_tcp\<close> or \<open>AsyncClient.rtu\<close> returns one result per
  item and raises nothing.
\<close>

theorem factory_reads_return:
  assumes nw: "network_documented nw" and uid: "0 \<le> unit_id" "unit_id \<le> 255"
    and policy: "finite_delays policy" "1 \<le> max_attempts policy"
    and valid: "\<forall>it \<in> set items. validate_read_item it = Inr ()" "\<forall>it \<in> set items. addressable it"
  shows "(let (cl, w) = async_client_tcp nw host port unit_id timeout_s (Some policy) pipeline ct in
       (\<forall>i. tcp_good (worlds_t i)) \<and> (\<forall>d w. tcp_good w \<longrightarrow> tcp_good (sleep_t d w)) \<longrightarrow> tcp_good w \<and>
       (\<exists>rs. client_read sleep_t cl items None None None worlds_t completion = Inr rs \<and> length rs = length items)) \<and>
    (let (cl, w) = async_client_rtu_over_tcp nw host port unit_id timeout_s (Some policy) ct in
       (\<forall>i. rot_good (worlds_g i)) \<and> (\<forall>d w. rot_good w \<longrightarrow> rot_good (sleep_g d w)) \<longrightarrow> rot_good w \<and>
       (\<exists>rs. client_read sleep_g cl items None None None worlds_g completion = Inr rs \<and> length rs = length items)) \<and>
    (case async_client_rtu nw name baudrate bytesize parity stopbits unit_id timeout_s (Some policy) gap of
       Inl e \<Rightarrow> e = ZeroDivisionError \<and> baudrate = 0 \<and> gap = None
     | Inr (cl, w) \<Rightarrow> (\<forall>i. se_connected (worlds_s i) = se_serial (worlds_s i)) \<and>
         (\<forall>d w. se_connected w = se_serial w \<longrightarrow> se_connected (sleep_s d w) = se_serial (sleep_s d w)) \<longrightarrow>
         (\<exists>rs. client_read sleep_s cl items None None None worlds_s completion = Inr rs \<and> length rs = length items))"
proof (intro conjI)
  have framed: "\<forall>req. sent_by_read req \<longrightarrow> mbap_ok 0 unit_id req" "\<forall>req. sent_by_read req \<longrightarrow> rtu_ok unit_id req"
    using sent_by_read_framed uid by blast+
  show "let (cl, w) = async_client_tcp nw host port unit_id timeout_s (Some policy) pipeline ct in
       (\<forall>i. tcp_good (worlds_t i)) \<and> (\<forall>d w. tcp_good w \<longrightarrow> tcp_good (sleep_t d w)) \<longrightarrow> tcp_good w \<and>
       (\<exists>rs. client_read sleep_t cl items None None None worlds_t completion = Inr rs \<and> length rs = length items)"
    unfolding async_client_tcp_def Let_def prod.case
    by (intro impI, elim conjE, rule conjI [OF _ tcp.made_client_returns [OF policy framed(1) valid]])
      (use factory_contracts(1) [OF nw async_client_tcp_def] in \<open>simp_all\<close>)
  show "let (cl, w) = async_client_rtu_over_tcp nw host port unit_id timeout_s (Some policy) ct in
       (\<forall>i. rot_good (worlds_g i)) \<and> (\<forall>d w. rot_good w \<longrightarrow> rot_good (sleep_g d w)) \<longrightarrow> rot_good w \<and>
       (\<exists>rs. client_read sleep_g cl items None None None worlds_g completion = Inr rs \<and> length rs = length items)"
    unfolding async_client_rtu_over_tcp_def Let_def prod.case
    by (intro impI, elim conjE, rule conjI [OF _ rot.made_client_returns [OF policy framed(2) valid]])
      (use factory_contracts(2) [OF nw async_client_rtu_over_tcp_def] in \<open>simp_all\<close>)
  show "case async_client_rtu nw name baudrate bytesize parity stopbits unit_id timeout_s (Some policy) gap of
       Inl e \<Rightarrow> e = ZeroDivisionError \<and> baudrate = 0 \<and> gap = None
     | Inr (cl, w) \<Rightarrow> (\<forall>i. se_connected (worlds_s i) = se_serial (worlds_s i)) \<and>
         (\<forall>d w. se_connected w = se_serial w \<longrightarrow> se_connected (sleep_s d w) = se_serial (sleep_s d w)) \<longrightarrow>
         (\<exists>rs. client_read sleep_s cl items None None None worlds_s completion = Inr rs \<and> length rs = length items)"
  proof (cases "frame_gap baudrate bytesize parity stopbits gap")
    case (Inl e)
    then show ?thesis by (auto simp: async_client_rtu_def frame_gap_def split: option.splits if_splits)
  next
    case (Inr g)
    have "port_ok (nw_serial nw name baudrate bytesize parity stopbits)" using nw by (simp add: network_documented_def)
    from modbus_transport.made_client_returns [OF serial_modbus_transport [OF this] policy framed(2) valid] Inr
    show ?thesis by (simp add: async_client_rtu_def)
  qed
qed

text \<open>A network on which nothing answers, with the canned port at every name.\<close>

definition quiet_network :: "(bytes \<times> rat) network" where
  "quiet_network = \<lparr>nw_tcp = (\<lambda>_ _ _ _. []), nw_rtu_over_tcp = (\<lambda>_ _ _. []), nw_serial = (\<lambda>_ _ _ _ _. canned_port),
     nw_port = (\<lambda>_. ([], 0))\<rparr>"

theorem factory_reads_return_witness:
  "case async_client_rtu quiet_network ''/dev/ttyUSB0'' 9600 8 ''N'' 1 1 1 (Some default_retry) (Some 0) of
     Inl e \<Rightarrow> e = ZeroDivisionError \<and> (9600 :: int) = 0 \<and> Some (0 :: rat) = None
   | Inr (cl, w) \<Rightarrow> \<exists>rs. client_read (\<lambda>_ w. w) cl [Coil 0 1] None None None (\<lambda>_. sertr_init ([], 0)) [] = Inr rs \<and> length rs = 1"
proof -
  have nw: "network_documented quiet_network" by (simp add: network_documented_def quiet_network_def canned_port_ok)
  have policy: "finite_delays default_retry" "1 \<le> max_attempts default_retry"
    by (simp_all add: default_retry_def finite_delays_def FLOAT_OVERFLOW_def)
  have items: "\<forall>it \<in> set [Coil 0 1]. validate_read_item it = Inr ()" "\<forall>it \<in> set [Coil 0 1]. addressable it"
    by (simp_all add: validate_read_item_def)
  show ?thesis
    using factory_reads_return [OF nw _ _ policy items, where unit_id = 1 and name = "''/dev/ttyUSB0''" and baudrate = 9600
        and bytesize = 8 and parity = "''N''" and stopbits = 1 and gap = "Some 0" and timeout_s = 1 and completion = "[]"
        and worlds_s = "\<lambda>_. sertr_init ([], 0)" and sleep_s = "\<lambda>_ w. w"]
    by (simp add: async_client_rtu_def frame_gap_def sertr_init_def)
qed

text \<open>
  The \<open>with\<close> statement on a synchronous client.  If \<open>__enter__\<close> connects, the background loop has ended
  when the statement ends, whatever the body did or raised, and the body's outcome is the statement's.
  If connecting fails, its error is raised and the loop, with its thread, is left running, because
  \<open>__exit__\<close> is not called; a factory that raises leaves its loop running too.
\<close>

theorem sync_with_outcome:
  assumes "sync_with cl body s = (r, s')" "bl_alive s"
  shows "(case sync_connect cl s of
       (Inr _, s1) \<Rightarrow> \<not> bl_alive s' \<and> r = fst (body s1)
     | (Inl e, s1) \<Rightarrow> r = Inl e \<and> s' = s1 \<and> bl_alive s') \<and>
    client_rtu nw name 0 bytesize parity stopbits unit_id timeout_s retry None = (Inl ZeroDivisionError, True)"
proof -
  have "bl_alive (snd (sync_connect cl s))"
    using assms(2) by (auto simp: sync_connect_def run_coroutine_def split: prod.split)
  moreover have "fst (sync_close cl t) = Inr () \<and> \<not> bl_alive (snd (sync_close cl t))" for t
    by (auto simp: sync_close_def loop_stop_def ignoreS_def run_coroutine_def split: prod.split)
  ultimately have "case sync_connect cl s of
       (Inr _, s1) \<Rightarrow> \<not> bl_alive s' \<and> r = fst (body s1)
     | (Inl e, s1) \<Rightarrow> r = Inl e \<and> s' = s1 \<and> bl_alive s'"
    using assms(1) by (auto simp: sync_with_def bindS_def split: prod.splits sum.splits) (metis fst_conv snd_conv old.sum.exhaust sum.distinct(1))+
  then show ?thesis by (simp add: client_rtu_def async_client_rtu_def frame_gap_def)
qed

theorem sync_with_outcome_witness:
  "case client_rtu_over_tcp quiet_network ''gateway'' 502 1 1 None 5 of (cl, s) \<Rightarrow>
     (case sync_with cl (\<lambda>s. (Inr True, s)) s of (r, s') \<Rightarrow> r = Inl ModbusConnectionError \<and> bl_alive s')"
proof -
  let ?cl = "make_client RtuOverTcpTransport 1 1 None" and ?s = "background_loop (rot_init, [] :: net list)"
  have "sync_connect ?cl ?s = (Inl ModbusConnectionError, ?s)"
    by (simp add: sync_connect_def run_coroutine_def background_loop_def connect_def RtuOverTcpTransport_def with_net_def
        rot_connect_def rot_open_locked_def rot_init_def net_down_def is_os_error_def)
  moreover have "bl_alive ?s" by (simp add: background_loop_def)
  ultimately show ?thesis
    using sync_with_outcome [OF prod.collapse [symmetric], of ?s ?cl "\<lambda>s. (Inr True, s)" quiet_network "''p''" 8 "''N''" 1 1 1 None]
    by (simp add: client_rtu_over_tcp_def async_client_rtu_over_tcp_def quiet_network_def split_beta)
qed

end
