(* ===== verification/Logging.thy ===== *)
theory Logging
  imports Py_Text Py_Float Effects
begin

text \<open>
  The logging helpers of \<open>src/pymod/logging.py\<close> with the handlers that \<open>src/pymod/__init__.py\<close> installs: JSON
  lines, and \<open>configure\<close> on the tree of loggers.  Of the standard library: \<open>json.dumps\<close>, and the part of
  \<open>logging\<close> that decides which handlers a record reaches.  Strings have code points up to 255.
\<close>

section \<open>JSON\<close>

text \<open>A Python value as \<open>json.dumps\<close> sees it; an object of any other class is given by a name.\<close>

datatype log_value =
    LNull
  | LBool bool
  | LInt int
  | LFloat pyfloat
  | LStr string
  | LList "log_value list"
  | LDict "(log_value \<times> log_value) list"
  | LObject string

definition escape_char :: "char \<Rightarrow> string" where
  "escape_char c =
     (let n = of_char c :: nat
      in if n = 0x22 \<or> n = 0x5C then [CHR 0x5C, c]
         else if n = 8 then [CHR 0x5C, CHR ''b''] else if n = 9 then [CHR 0x5C, CHR ''t'']
         else if n = 10 then [CHR 0x5C, CHR ''n''] else if n = 12 then [CHR 0x5C, CHR ''f'']
         else if n = 13 then [CHR 0x5C, CHR ''r'']
         else if n < 32 \<or> 126 < n then CHR 0x5C # CHR ''u'' # py_lower (py_hex 4 (int n))
         else [c])"

definition json_string :: "string \<Rightarrow> string" where
  "json_string s = [CHR 0x22] @ concat (map escape_char s) @ [CHR 0x22]"

fun json_join :: "string list \<Rightarrow> string" where
  "json_join [] = []"
| "json_join [t] = t"
| "json_join (t # ts) = t @ '', '' @ json_join ts"

text \<open>The text of a float, \<open>float.__repr__\<close> or \<open>NaN\<close> or an infinity, is a parameter.\<close>

fun json_key :: "(pyfloat \<Rightarrow> string) \<Rightarrow> log_value \<Rightarrow> string result" where
  "json_key float_text (LStr s) = Inr s"
| "json_key float_text (LBool b) = Inr (if b then ''true'' else ''false'')"
| "json_key float_text LNull = Inr ''null''"
| "json_key float_text (LInt n) = Inr (py_str_int n)"
| "json_key float_text (LFloat f) = Inr (float_text f)"
| "json_key float_text _ = Inl TypeError"

lemma mapE_cong [fundef_cong]: "xs = ys \<Longrightarrow> (\<And>x. x \<in> set ys \<Longrightarrow> f x = g x) \<Longrightarrow> mapE f xs = mapE g ys"
  by (induction ys arbitrary: xs) auto

fun dumps :: "(pyfloat \<Rightarrow> string) \<Rightarrow> log_value \<Rightarrow> string result" where
  "dumps float_text LNull = Inr ''null''"
| "dumps float_text (LBool b) = Inr (if b then ''true'' else ''false'')"
| "dumps float_text (LInt n) = Inr (py_str_int n)"
| "dumps float_text (LFloat f) = Inr (float_text f)"
| "dumps float_text (LStr s) = Inr (json_string s)"
| "dumps float_text (LList vs) = bindE (mapE (dumps float_text) vs) (\<lambda>ts. Inr (''['' @ json_join ts @ '']''))"
| "dumps float_text (LDict kvs) =
     bindE (mapE (\<lambda>(k, v). bindE (json_key float_text k) (\<lambda>key. bindE (dumps float_text v) (\<lambda>t. Inr (json_string key @ '': '' @ t)))) kvs)
       (\<lambda>ts. Inr (''{'' @ json_join ts @ ''}''))"
| "dumps float_text (LObject name) = Inl TypeError"

section \<open>The JSON formatter\<close>

text \<open>
  A log record: the texts of \<open>formatTime\<close>, of \<open>getMessage\<close> (which raises if the arguments do not fit) and of
  \<open>formatException\<close>, if there is one, and the attributes of the record in their order.
\<close>

record log_record =
  rc_time :: string
  rc_levelname :: string
  rc_name :: string
  rc_message :: "string result"
  rc_exception :: "string option"
  rc_dict :: "(string \<times> log_value) list"

definition RESERVED_LOGRECORD_FIELDS :: "string set" where
  "RESERVED_LOGRECORD_FIELDS =
     {''args'', ''asctime'', ''created'', ''exc_info'', ''exc_text'', ''filename'', ''funcName'', ''levelname'', ''levelno'', ''lineno'',
      ''message'', ''module'', ''msecs'', ''msg'', ''name'', ''pathname'', ''process'', ''processName'', ''relativeCreated'', ''stack_info'',
      ''taskName'', ''thread'', ''threadName''}"

definition skipped :: "string \<Rightarrow> bool" where
  "skipped key \<longleftrightarrow> key \<in> RESERVED_LOGRECORD_FIELDS \<or> take 1 key = ''_''"

text \<open>\<open>d[k] = v\<close> on a dictionary, which keeps the order of insertion.\<close>

fun dict_set :: "string \<Rightarrow> 'v \<Rightarrow> (string \<times> 'v) list \<Rightarrow> (string \<times> 'v) list" where
  "dict_set k v [] = [(k, v)]"
| "dict_set k v ((k', v') # d) = (if k = k' then (k, v) # d else (k', v') # dict_set k v d)"

fun add_extras ::
  "(pyfloat \<Rightarrow> string) \<Rightarrow> (log_value \<Rightarrow> string) \<Rightarrow> (string \<times> log_value) list \<Rightarrow> (string \<times> log_value) list \<Rightarrow>
   (string \<times> log_value) list result" where
  "add_extras float_text repr [] payload = Inr payload"
| "add_extras float_text repr ((key, val) # items) payload =
     (if skipped key then add_extras float_text repr items payload
      else case dumps float_text val of
          Inr _ \<Rightarrow> add_extras float_text repr items (dict_set key val payload)
        | Inl e \<Rightarrow> if e = TypeError \<or> e = ValueError then add_extras float_text repr items (dict_set key (LStr (repr val)) payload)
            else Inl e)"

definition payload_dict :: "(string \<times> log_value) list \<Rightarrow> log_value" where
  "payload_dict payload = LDict (map (\<lambda>(k, v). (LStr k, v)) payload)"

definition json_format :: "(pyfloat \<Rightarrow> string) \<Rightarrow> (log_value \<Rightarrow> string) \<Rightarrow> log_record \<Rightarrow> string result" where
  "json_format float_text repr rec =
     bindE (rc_message rec) (\<lambda>msg.
       let payload = [(''timestamp'', LStr (rc_time rec)), (''level'', LStr (rc_levelname rec)), (''logger'', LStr (rc_name rec)),
             (''message'', LStr msg)];
           payload = (case rc_exception rec of None \<Rightarrow> payload | Some t \<Rightarrow> dict_set ''exception'' (LStr t) payload)
       in bindE (add_extras float_text repr (rc_dict rec) payload) (\<lambda>p. dumps float_text (payload_dict p)))"


section \<open>The lines of the formatter\<close>

definition printable :: "string \<Rightarrow> bool" where
  "printable s \<longleftrightarrow> (\<forall>c \<in> set s. 32 \<le> (of_char c :: nat) \<and> (of_char c :: nat) \<le> 126)"

lemma printable_simps [simp]:
  "printable []" "printable (c # s) \<longleftrightarrow> 32 \<le> (of_char c :: nat) \<and> (of_char c :: nat) \<le> 126 \<and> printable s"
  "printable (s @ t) \<longleftrightarrow> printable s \<and> printable t"
  by (auto simp: printable_def)

lemma printable_digits: "2 \<le> base \<Longrightarrow> base \<le> 16 \<Longrightarrow> printable (digits_of base n)"
proof -
  assume "2 \<le> base" "base \<le> 16"
  moreover have "32 \<le> (of_char (digit_char d) :: nat) \<and> (of_char (digit_char d) :: nat) \<le> 126" if "d < 16" for d
    using that by (auto simp: digit_char_def)
  ultimately show ?thesis using digits_of_chars [of base n] by (fastforce simp: printable_def)
qed

lemma printable_int: "printable (py_str_int n)"
  using printable_digits [of 10] by (simp add: py_str_int_def)

lemma printable_lower: "printable s \<Longrightarrow> printable (py_lower s)"
  by (auto simp: printable_def py_lower_def lower_char_def Let_def)

lemma printable_hex: "printable (py_hex w n)"
  using printable_digits [of 16] by (auto simp: py_hex_def Let_def) (auto simp: printable_def)

lemma printable_escape: "printable (escape_char c)"
  using printable_lower [OF printable_hex [of 4 "int (of_char c)"]]
  by (auto simp: escape_char_def Let_def)

lemma printable_json_string: "printable (json_string s)"
proof -
  have "printable (concat (map escape_char s))" by (induction s) (auto simp: printable_escape)
  then show ?thesis by (simp add: json_string_def)
qed

lemma printable_join: "\<forall>t \<in> set ts. printable t \<Longrightarrow> printable (json_join ts)"
  by (induction ts rule: json_join.induct) auto

lemma mapE_all:
  assumes "mapE f xs = Inr ys" "\<And>x y. x \<in> set xs \<Longrightarrow> f x = Inr y \<Longrightarrow> P y"
  shows "\<forall>y \<in> set ys. P y"
  using mapE_eq_Inr_nth [OF assms(1)] mapE_eq_Inr_length [OF assms(1)] assms(2) by (metis in_set_conv_nth)

lemma dumps_printable: "dumps float_text v = Inr t \<Longrightarrow> \<forall>f. printable (float_text f) \<Longrightarrow> printable t"
proof (induction float_text v arbitrary: t rule: dumps.induct)
  case (6 float_text vs)
  then obtain ts where ts: "mapE (dumps float_text) vs = Inr ts" "t = ''['' @ json_join ts @ '']''" by auto
  have "\<forall>t \<in> set ts. printable t" by (rule mapE_all [OF ts(1)]) (use "6.IH" "6.prems"(2) in blast)
  with ts(2) show ?case by (simp add: printable_join)
next
  case (7 float_text kvs)
  then obtain ts where ts: "t = ''{'' @ json_join ts @ ''}''" "mapE (\<lambda>(k, v). bindE (json_key float_text k)
      (\<lambda>key. bindE (dumps float_text v) (\<lambda>t. Inr (json_string key @ '': '' @ t)))) kvs = Inr ts" by auto
  have "\<forall>t \<in> set ts. printable t"
  proof (rule mapE_all [OF ts(2)], clarsimp simp: printable_json_string)
    fix k v s assume "(k, v) \<in> set kvs" "dumps float_text v = Inr s"
    then show "printable s" using "7.IH" "7.prems"(2) by blast
  qed
  with ts(1) show ?case by (simp add: printable_join)
qed (auto simp: printable_int printable_json_string)


lemma dumps_error: "dumps float_text v = Inl e \<Longrightarrow> e = TypeError"
proof (induction float_text v rule: dumps.induct)
  case (6 float_text vs)
  then show ?case by (auto simp: bindE_eq_Inl dest!: mapE_eq_Inl)
next
  case (7 float_text kvs)
  moreover have "json_key float_text k = Inl e \<Longrightarrow> e = TypeError" for k by (cases k) auto
  ultimately show ?case by (force simp: bindE_eq_Inl dest!: mapE_eq_Inl)
qed auto

lemma map_of_dict_set [simp]: "map_of (dict_set k v d) = (map_of d)(k \<mapsto> v)"
  by (induction d) (auto simp: fun_eq_iff)

lemma dict_set_keys [simp]: "fst ` set (dict_set k v d) = insert k (fst ` set d)"
  by (induction k v d rule: dict_set.induct) (simp_all add: insert_commute)

lemma dict_set_distinct: "distinct (map fst d) \<Longrightarrow> distinct (map fst (dict_set k v d))"
  by (induction k v d rule: dict_set.induct) auto

lemma dict_set_values: "\<forall>x \<in> set d. P (snd x) \<Longrightarrow> P v \<Longrightarrow> \<forall>x \<in> set (dict_set k v d). P (snd x)"
  by (induction k v d rule: dict_set.induct) auto

text \<open>The value that a user's attribute has in the payload: itself, or its \<open>repr\<close> if JSON has no text for it.\<close>

definition extra_value :: "(pyfloat \<Rightarrow> string) \<Rightarrow> (log_value \<Rightarrow> string) \<Rightarrow> log_value \<Rightarrow> log_value" where
  "extra_value float_text repr v = (if isl (dumps float_text v) then LStr (repr v) else v)"

lemma extra_value_dumps: "\<not> isl (dumps float_text (extra_value float_text repr v))"
  by (simp add: extra_value_def)

lemma add_extras_eq:
  "add_extras float_text repr items payload =
     Inr (foldl (\<lambda>p (k, v). dict_set k (extra_value float_text repr v) p) payload (filter (\<lambda>x. \<not> skipped (fst x)) items))"
proof (induction items arbitrary: payload)
  case (Cons x items)
  obtain k v where x: "x = (k, v)" by (cases x)
  show ?case
  proof (cases "dumps float_text v")
    case (Inl e)
    with dumps_error [OF Inl] Cons x show ?thesis by (simp add: extra_value_def)
  next
    case (Inr t)
    with Cons x show ?thesis by (simp add: extra_value_def)
  qed
qed simp

lemma extras_payload:
  fixes repr :: "log_value \<Rightarrow> string"
  assumes "distinct (map fst items)" "distinct (map fst payload)" "\<forall>x \<in> set payload. \<not> isl (dumps float_text (snd x))"
  defines "out \<equiv> foldl (\<lambda>p (k, v). dict_set k (extra_value float_text repr v) p) payload items"
  shows "distinct (map fst out) \<and> (\<forall>x \<in> set out. \<not> isl (dumps float_text (snd x))) \<and>
    (\<forall>k. map_of out k = (case map_of items k of Some v \<Rightarrow> Some (extra_value float_text repr v) | None \<Rightarrow> map_of payload k))"
  unfolding out_def using assms(1-3)
proof (induction items arbitrary: payload)
  case (Cons x items)
  obtain k v where x: "x = (k, v)" by (cases x)
  let ?p = "dict_set k (extra_value float_text repr v) payload"
  have "distinct (map fst ?p)" using Cons.prems(2) by (rule dict_set_distinct)
  moreover have "\<forall>x \<in> set ?p. \<not> isl (dumps float_text (snd x))"
    using Cons.prems(3) by (rule dict_set_values) (rule extra_value_dumps)
  moreover have "map_of items k = None" using Cons.prems(1) x by (simp add: map_of_eq_None_iff)
  ultimately show ?case using Cons.IH [of ?p] Cons.prems(1) x by (auto split: option.splits)
qed simp

lemma payload_dumps:
  assumes "\<forall>x \<in> set p. \<not> isl (dumps float_text (snd x))"
  obtains t where "dumps float_text (payload_dict p) = Inr t"
proof (cases "dumps float_text (payload_dict p)")
  case (Inl e)
  then obtain k v where "(k, v) \<in> set p" "isl (dumps float_text v)"
    by (auto simp: payload_dict_def bindE_eq_Inl dest!: mapE_eq_Inl)
  with assms show thesis by fastforce
qed (rule that)

text \<open>The object that a line stands for.\<close>

definition record_fields ::
  "(pyfloat \<Rightarrow> string) \<Rightarrow> (log_value \<Rightarrow> string) \<Rightarrow> log_record \<Rightarrow> string \<Rightarrow> string \<Rightarrow> log_value option" where
  "record_fields float_text repr rec msg k =
     (case map_of (filter (\<lambda>x. \<not> skipped (fst x)) (rc_dict rec)) k of
        Some v \<Rightarrow> Some (extra_value float_text repr v)
      | None \<Rightarrow>
          if k = ''timestamp'' then Some (LStr (rc_time rec)) else if k = ''level'' then Some (LStr (rc_levelname rec))
          else if k = ''logger'' then Some (LStr (rc_name rec)) else if k = ''message'' then Some (LStr msg)
          else if k = ''exception'' then map_option LStr (rc_exception rec) else None)"

text \<open>
  C39: one JSON object per line.  \<open>JsonFormatter.format\<close> raises only what \<open>getMessage\<close> raises, whatever values
  the user attached to the record.  Otherwise its result is the JSON text of an object with each key once:
  time, level, logger, message and exception, and the user's attributes, which win over those and appear
  as their \<open>repr\<close> exactly if JSON cannot express them; private and standard attributes are left out.  The
  text is one line of printable ASCII characters.
\<close>

theorem json_log_line:
  assumes "\<forall>f. printable (float_text f)" "distinct (map fst (rc_dict rec))"
  shows "case json_format float_text repr rec of
      Inl e \<Rightarrow> rc_message rec = Inl e
    | Inr line \<Rightarrow> printable line \<and> (\<exists>msg payload. rc_message rec = Inr msg \<and> dumps float_text (payload_dict payload) = Inr line \<and>
        distinct (map fst payload) \<and> map_of payload = record_fields float_text repr rec msg)"
proof (cases "rc_message rec")
  case (Inl e)
  then show ?thesis by (simp add: json_format_def)
next
  case (Inr msg)
  define start where "start = (case rc_exception rec of
      None \<Rightarrow> [(''timestamp'', LStr (rc_time rec)), (''level'', LStr (rc_levelname rec)), (''logger'', LStr (rc_name rec)), (''message'', LStr msg)]
    | Some t \<Rightarrow> dict_set ''exception'' (LStr t)
        [(''timestamp'', LStr (rc_time rec)), (''level'', LStr (rc_levelname rec)), (''logger'', LStr (rc_name rec)), (''message'', LStr msg)])"
  let ?items = "filter (\<lambda>x. \<not> skipped (fst x)) (rc_dict rec)"
  define p where "p = foldl (\<lambda>p (k, v). dict_set k (extra_value float_text repr v) p) start ?items"
  have format: "json_format float_text repr rec = dumps float_text (payload_dict p)"
    using Inr by (simp add: json_format_def Let_def add_extras_eq start_def p_def)
  have "distinct (map fst ?items)" using assms(2) by (simp add: distinct_map_filter)
  moreover have "distinct (map fst start)" "\<forall>x \<in> set start. \<not> isl (dumps float_text (snd x))"
    by (auto simp: start_def split: option.split)
  ultimately have p: "distinct (map fst p) \<and> (\<forall>x \<in> set p. \<not> isl (dumps float_text (snd x))) \<and>
      (\<forall>k. map_of p k = (case map_of ?items k of Some v \<Rightarrow> Some (extra_value float_text repr v) | None \<Rightarrow> map_of start k))"
    unfolding p_def by (rule extras_payload)
  then obtain line where line: "dumps float_text (payload_dict p) = Inr line" using payload_dumps [of p float_text] by blast
  have "map_of p = record_fields float_text repr rec msg"
    by (rule ext) (simp add: p record_fields_def start_def split: option.split)
  with p line format Inr dumps_printable [OF line assms(1)] show ?thesis by auto
qed

definition demo_record :: log_record where
  "demo_record = \<lparr>rc_time = ''2024-01-01T00:00:00'', rc_levelname = ''INFO'', rc_name = ''pymod'', rc_message = Inr ''up'',
     rc_exception = None, rc_dict = [(''name'', LStr ''pymod''), (''lock'', LObject ''lock''), (''unit'', LInt 1)]\<rparr>"

theorem json_log_line_witness:
  "\<exists>line. json_format (\<lambda>_. ''0.0'') (\<lambda>_. ''<lock>'') demo_record = Inr line \<and> printable line"
proof (cases "json_format (\<lambda>_. ''0.0'') (\<lambda>_. ''<lock>'') demo_record")
  case (Inl e)
  have "\<forall>f :: pyfloat. printable ''0.0''" "distinct (map fst (rc_dict demo_record))" by (simp_all add: demo_record_def)
  from json_log_line [OF this, of "\<lambda>_. ''<lock>''"] Inl have "rc_message demo_record = Inl e" by simp
  then show ?thesis by (simp add: demo_record_def)
next
  case (Inr line)
  have "\<forall>f :: pyfloat. printable ''0.0''" "distinct (map fst (rc_dict demo_record))" by (simp_all add: demo_record_def)
  from json_log_line [OF this, of "\<lambda>_. ''<lock>''"] Inr show ?thesis by simp
qed

end
