(* ===== verification/Log_Handlers.thy ===== *)
theory Log_Handlers
  imports Effects
begin

text \<open>
  \<open>configure\<close> and \<open>_attach_handler\<close> of \<open>src/pymod/logging.py\<close>, and the handlers that \<open>src/pymod/__init__.py\<close>
  installs, on the tree of loggers of the standard library: which handlers a record reaches, and so where it
  is printed.  \<open>logging.disable\<close>, filters and loggers that are switched off are left out.
\<close>

section \<open>Loggers and handlers\<close>

text \<open>A handler is an object; \<open>Stream_Handler\<close> stands for the class with its subclasses.\<close>

datatype handler_class = Null_Handler | Stream_Handler | Other_Handler
datatype stream = Stderr | Stream nat
datatype log_formatter = Json_Formatter | Line_Formatter

record handler =
  hd_id :: nat
  hd_class :: handler_class
  hd_stream :: stream
  hd_formatter :: "log_formatter option"
  hd_level :: int

record logger =
  lg_handlers :: "handler list"
  lg_level :: int
  lg_propagate :: bool

definition new_logger :: logger where
  "new_logger = \<lparr>lg_handlers = [], lg_level = 0, lg_propagate = True\<rparr>"

text \<open>The loggers by name, the root logger under the empty name, and the identity of the next handler.\<close>

record log_state =
  ls_loggers :: "string \<Rightarrow> logger"
  ls_next :: nat

definition update_logger :: "string \<Rightarrow> (logger \<Rightarrow> logger) \<Rightarrow> log_state \<Rightarrow> log_state" where
  "update_logger name f st = st\<lparr>ls_loggers := (ls_loggers st)(name := f (ls_loggers st name))\<rparr>"

definition add_handler :: "handler \<Rightarrow> logger \<Rightarrow> logger" where
  "add_handler h lg = (if h \<in> set (lg_handlers lg) then lg else lg\<lparr>lg_handlers := lg_handlers lg @ [h]\<rparr>)"

text \<open>\<open>setLevel\<close> takes a number or one of the names.\<close>

datatype log_level = Level_Number int | Level_Name string

definition LEVELS :: "string \<rightharpoonup> int" where
  "LEVELS = map_of [(''CRITICAL'', 50), (''FATAL'', 50), (''ERROR'', 40), (''WARN'', 30), (''WARNING'', 30), (''INFO'', 20),
     (''DEBUG'', 10), (''NOTSET'', 0)]"

fun check_level :: "log_level \<Rightarrow> int result" where
  "check_level (Level_Number n) = Inr n"
| "check_level (Level_Name s) = (case LEVELS s of None \<Rightarrow> Inl ValueError | Some n \<Rightarrow> Inr n)"

section \<open>The package\<close>

text \<open>\<open>import pymod\<close> installs two handlers that print nothing.\<close>

definition null_handler :: "nat \<Rightarrow> handler" where
  "null_handler i = \<lparr>hd_id = i, hd_class = Null_Handler, hd_stream = Stderr, hd_formatter = None, hd_level = 0\<rparr>"

definition import_package :: "log_state \<Rightarrow> log_state" where
  "import_package st =
     (let i = ls_next st
      in (update_logger ''pymod.wire'' (add_handler (null_handler (Suc i))) (update_logger ''pymod'' (add_handler (null_handler i)) st))
         \<lparr>ls_next := i + 2\<rparr>)"

definition attach_handler :: "handler \<Rightarrow> logger \<Rightarrow> logger" where
  "attach_handler h lg =
     (let hs = filter (\<lambda>h. hd_class h \<noteq> Null_Handler) (lg_handlers lg); lg = lg\<lparr>lg_handlers := hs\<rparr>
      in if \<exists>h' \<in> set hs. hd_class h' = Stream_Handler \<and> hd_id h' \<noteq> hd_id h then lg else add_handler h lg)"

definition stream_handler :: "nat \<Rightarrow> bool \<Rightarrow> stream option \<Rightarrow> handler" where
  "stream_handler i json stream =
     \<lparr>hd_id = i, hd_class = Stream_Handler, hd_stream = (case stream of None \<Rightarrow> Stderr | Some s \<Rightarrow> s),
      hd_formatter = Some (if json then Json_Formatter else Line_Formatter), hd_level = 0\<rparr>"

text \<open>An unknown level raises after the handler is attached.\<close>

definition configure :: "log_level \<Rightarrow> bool \<Rightarrow> bool \<Rightarrow> stream option \<Rightarrow> (log_state, unit) effect" where
  "configure level json wire_trace stream st =
     (let h = stream_handler (ls_next st) json stream;
          st1 = update_logger ''pymod'' (attach_handler h) (st\<lparr>ls_next := Suc (ls_next st)\<rparr>)
      in case check_level level of
           Inl e \<Rightarrow> (Inl e, st1)
         | Inr n \<Rightarrow>
             let st2 = update_logger ''pymod'' (\<lambda>lg. lg\<lparr>lg_level := n\<rparr>) st1
             in (Inr (), if wire_trace then update_logger ''pymod.wire'' (\<lambda>lg. (attach_handler h lg)\<lparr>lg_level := 10\<rparr>) st2 else st2))"

section \<open>Where a record is printed\<close>

text \<open>The dotted names from a logger to the root; a name without a logger of its own has an empty one.\<close>

definition parent_name :: "string \<Rightarrow> string" where
  "parent_name name = rev (drop 1 (dropWhile (\<lambda>c. c \<noteq> CHR ''.'') (rev name)))"

function logger_chain :: "string \<Rightarrow> string list" where
  "logger_chain name = (if name = [] then [[]] else name # logger_chain (parent_name name))"
  by auto
termination
proof (relation "measure length")
  fix name :: string assume "name \<noteq> []"
  then have "length (rev name) > 0" by simp
  then have "length (drop 1 (dropWhile (\<lambda>c. c \<noteq> CHR ''.'') (rev name))) < length name"
    using length_dropWhile_le [of "\<lambda>c. c \<noteq> CHR ''.''" "rev name"] by (simp add: less_eq_Suc_le)
  then show "(parent_name name, name) \<in> measure length" by (simp add: parent_name_def)
qed simp

declare logger_chain.simps [simp del]

fun reached :: "logger list \<Rightarrow> handler list" where
  "reached [] = []"
| "reached (lg # lgs) = lg_handlers lg @ (if lg_propagate lg then reached lgs else [])"

fun effective_level :: "logger list \<Rightarrow> int" where
  "effective_level [] = 0"
| "effective_level (lg # lgs) = (if lg_level lg \<noteq> 0 then lg_level lg else effective_level lgs)"

text \<open>The handler of the standard library for records that reach none.\<close>

definition last_resort :: handler where
  "last_resort = \<lparr>hd_id = 0, hd_class = Stream_Handler, hd_stream = Stderr, hd_formatter = None, hd_level = 30\<rparr>"

text \<open>The handlers that print a record of the level, in order; one that occurs twice prints it twice.\<close>

definition prints :: "log_state \<Rightarrow> string \<Rightarrow> int \<Rightarrow> handler list" where
  "prints st name level =
     (let lgs = map (ls_loggers st) (logger_chain name); hs = (if reached lgs = [] then [last_resort] else reached lgs)
      in if level < effective_level lgs then [] else filter (\<lambda>h. hd_class h \<noteq> Null_Handler \<and> hd_level h \<le> level) hs)"


section \<open>A sequence of calls of configure\<close>

type_synonym log_call = "log_level \<times> bool \<times> bool \<times> stream option"

definition configure_all :: "log_call list \<Rightarrow> log_state \<Rightarrow> log_state" where
  "configure_all calls st = foldl (\<lambda>st (level, json, wire_trace, stream). snd (configure level json wire_trace stream st)) st calls"

text \<open>The handler of a call with its identity; the calls that reach the wire logger; the level that holds in the end.\<close>

fun made :: "nat \<times> log_call \<Rightarrow> handler" where
  "made (i, level, json, wire_trace, stream) = stream_handler i json stream"

fun traced :: "log_call \<Rightarrow> bool" where
  "traced (level, json, wire_trace, stream) \<longleftrightarrow> wire_trace \<and> \<not> isl (check_level level)"

definition final_level :: "log_call list \<Rightarrow> int" where
  "final_level calls = foldl (\<lambda>n (level, _). case check_level level of Inl _ \<Rightarrow> n | Inr m \<Rightarrow> m) 0 calls"

definition first_handler :: "handler \<Rightarrow> (nat \<times> log_call) list \<Rightarrow> handler" where
  "first_handler h calls = (case calls of [] \<Rightarrow> h | x # _ \<Rightarrow> made x)"

lemma first_handler_simps [simp]: "first_handler h [] = h" "first_handler h (x # xs) = made x"
  by (simp_all add: first_handler_def)

lemma made_fields [simp]: "hd_class (made x) = Stream_Handler" "hd_id (made x) = fst x" "hd_level (made x) = 0"
  by (cases x rule: made.cases; simp add: stream_handler_def)+

lemma null_fields [simp]: "hd_class (null_handler i) = Null_Handler" "hd_id (null_handler i) = i"
  by (simp_all add: null_handler_def)

text \<open>A new handler replaces the null handler, and nothing else.\<close>

lemma attach_first:
  assumes "hd_class null = Null_Handler" "\<forall>x \<in> set xs. fst x \<noteq> fst y"
  shows "attach_handler (made y) \<lparr>lg_handlers = [first_handler null xs], lg_level = n, lg_propagate = p\<rparr> =
    \<lparr>lg_handlers = [first_handler null (xs @ [y])], lg_level = n, lg_propagate = p\<rparr>"
  using assms by (cases xs) (auto simp: attach_handler_def first_handler_def add_handler_def Let_def)

lemma configure_step:
  "configure_all (calls @ [(level, json, wire_trace, stream)]) st = snd (configure level json wire_trace stream (configure_all calls st))"
  by (simp add: configure_all_def)

lemma final_level_snoc:
  "final_level (calls @ [(level, c)]) = (case check_level level of Inl _ \<Rightarrow> final_level calls | Inr m \<Rightarrow> m)"
  by (cases "check_level level") (simp_all add: final_level_def)

lemma configured_state:
  assumes new: "ls_loggers st0 ''pymod'' = new_logger" "ls_loggers st0 ''pymod.wire'' = new_logger" and j: "j = ls_next st0 + 2"
  shows "ls_next (configure_all calls (import_package st0)) = j + length calls \<and>
    ls_loggers (configure_all calls (import_package st0)) = (ls_loggers st0)
       (''pymod'' := \<lparr>lg_handlers = [first_handler (null_handler (ls_next st0)) (enumerate j calls)],
          lg_level = final_level calls, lg_propagate = True\<rparr>,
        ''pymod.wire'' := \<lparr>lg_handlers = [first_handler (null_handler (Suc (ls_next st0))) (filter (\<lambda>x. traced (snd x)) (enumerate j calls))],
          lg_level = (if filter traced calls = [] then 0 else 10), lg_propagate = True\<rparr>)"
proof (induction calls rule: rev_induct)
  case Nil
  show ?case using new j
    by (simp add: configure_all_def import_package_def update_logger_def add_handler_def new_logger_def final_level_def Let_def fun_eq_iff)
next
  case (snoc call calls)
  obtain level json wire_trace stream where call: "call = (level, json, wire_trace, stream)" by (cases call)
  let ?S = "configure_all calls (import_package st0)" and ?x = "(j + length calls, call)"
  have step: "configure_all (calls @ [call]) (import_package st0) = snd (configure level json wire_trace stream ?S)"
    by (simp add: configure_step call)
  have fresh: "\<forall>x \<in> set (enumerate j calls). fst x \<noteq> fst ?x" by (auto simp: in_set_enumerate_eq)
  then have fresh': "\<forall>x \<in> set (filter (\<lambda>x. traced (snd x)) (enumerate j calls)). fst x \<noteq> fst ?x" by simp
  note attach = attach_first [OF null_fields(1) fresh] attach_first [OF null_fields(1) fresh']
  have x: "stream_handler (ls_next ?S) json stream = made ?x" using snoc.IH by (simp add: call)
  have numbered: "enumerate j (calls @ [call]) = enumerate j calls @ [?x]" by (simp add: enumerate_append_eq)
  have final: "final_level (calls @ [call]) = (case check_level level of Inl _ \<Rightarrow> final_level calls | Inr m \<Rightarrow> m)"
    by (simp add: call final_level_snoc)
  show ?case
  proof (cases "check_level level")
    case (Inl e)
    then have "\<not> traced call" by (simp add: call)
    with Inl snoc.IH show ?thesis unfolding step configure_def x numbered final
      by (simp add: update_logger_def Let_def attach fun_eq_iff del: made.simps)
  next
    case (Inr n)
    then have "traced call \<longleftrightarrow> wire_trace" by (simp add: call)
    with Inr snoc.IH show ?thesis unfolding step configure_def x numbered final
      by (simp add: update_logger_def Let_def attach fun_eq_iff del: made.simps)
  qed
qed


section \<open>Property\<close>

lemma wire_chain: "logger_chain ''pymod.wire'' = [''pymod.wire'', ''pymod'', '''']"
  by (simp add: logger_chain.simps parent_name_def)

text \<open>Empty loggers do not matter.\<close>

lemma reached_new: "\<forall>lg \<in> set lgs. lg = new_logger \<Longrightarrow> reached (lgs @ rest) = reached rest"
  and effective_new: "\<forall>lg \<in> set lgs. lg = new_logger \<Longrightarrow> effective_level (lgs @ rest) = effective_level rest"
  by (induction lgs) (auto simp: new_logger_def)

lemma printing_first:
  "0 \<le> level \<Longrightarrow> filter (\<lambda>h. hd_class h \<noteq> Null_Handler \<and> hd_level h \<le> level) (first_handler (null_handler i) xs # hs) =
    map made (take 1 xs) @ filter (\<lambda>h. hd_class h \<noteq> Null_Handler \<and> hd_level h \<le> level) hs"
  by (cases xs) auto

lemma printing_null:
  "filter (\<lambda>h. hd_class h \<noteq> Null_Handler \<and> P h) (null_handler i # hs) = filter (\<lambda>h. hd_class h \<noteq> Null_Handler \<and> P h) hs"
  by simp

text \<open>
  C40: what the package prints.  After the import and any calls of \<open>configure\<close>, also calls that raise because of
  an unknown level, a record of the library reaches one handler of the package, that of the first call (later
  calls change the level only), if it has the level set last; before the first call it reaches none.  A record
  of the wire logger goes to the same handler under the same level, and once a call asked for the wire trace,
  at any level from DEBUG on and through two handlers: that of the first such call, and that of the first
  call.  If these are the same call, one handler prints the record twice.  The handlers of the root logger
  come on top.
\<close>

theorem logging_configured:
  assumes new: "ls_loggers st0 ''pymod'' = new_logger" "ls_loggers st0 ''pymod.wire'' = new_logger"
    and name: "logger_chain name = ns @ [''pymod'', '''']"
      "\<forall>n \<in> set ns. n \<notin> {''pymod'', ''pymod.wire''} \<and> ls_loggers st0 n = new_logger"
    and level: "0 \<le> level"
  shows "let st = configure_all calls (import_package st0); numbered = enumerate (ls_next st0 + 2) calls;
      by_root = (\<lambda>level. filter (\<lambda>h. hd_class h \<noteq> Null_Handler \<and> hd_level h \<le> level) (lg_handlers (ls_loggers st0 '''')));
      threshold = (if final_level calls \<noteq> 0 then final_level calls else lg_level (ls_loggers st0 ''''))
    in prints st name level = (if level < threshold then [] else map made (take 1 numbered) @ by_root level) \<and>
      prints st ''pymod.wire'' 10 =
        (if filter traced calls \<noteq> [] then
           map made (take 1 (filter (\<lambda>x. traced (snd x)) numbered)) @ map made (take 1 numbered) @ by_root 10
         else if 10 < threshold then [] else map made (take 1 numbered) @ by_root 10)"
proof -
  define j where "j = ls_next st0 + 2"
  note state = configured_state [OF new j_def, of calls, THEN conjunct2]
  let ?lgs = "map (ls_loggers (configure_all calls (import_package st0)))"
  let ?tail = "?lgs [''pymod'', '''']"
  have old: "\<forall>lg \<in> set (?lgs ns). lg = new_logger" using name(2) by (auto simp: state)
  have chain: "reached (?lgs (logger_chain name)) = reached ?tail" "effective_level (?lgs (logger_chain name)) = effective_level ?tail"
    using reached_new [OF old] effective_new [OF old] unfolding name(1) map_append by simp_all
  have none: "filter traced calls = [] \<longleftrightarrow> filter (\<lambda>x. traced (snd x)) (enumerate j calls) = []"
    using filter_map [of traced snd "enumerate j calls"] by (simp add: comp_def)
  show ?thesis unfolding Let_def j_def [symmetric]
  proof (intro conjI)
    show "prints (configure_all calls (import_package st0)) name level =
        (if level < (if final_level calls \<noteq> 0 then final_level calls else lg_level (ls_loggers st0 '''')) then []
         else map made (take 1 (enumerate j calls)) @
           filter (\<lambda>h. hd_class h \<noteq> Null_Handler \<and> hd_level h \<le> level) (lg_handlers (ls_loggers st0 '''')))"
      by (simp add: prints_def Let_def chain) (simp add: state printing_first [OF level] del: filter.simps)
  qed (use none in \<open>simp add: prints_def Let_def wire_chain state printing_first printing_null del: filter.simps\<close>)
qed

theorem logging_configured_witness:
  "prints (configure_all [(Level_Name ''INFO'', False, True, None), (Level_Name ''verbose'', True, True, None)]
      (import_package \<lparr>ls_loggers = \<lambda>_. new_logger, ls_next = 1\<rparr>)) ''pymod.wire'' 10 =
    [stream_handler 3 False None, stream_handler 3 False None]"
proof -
  have name: "logger_chain ''pymod.client'' = [''pymod.client''] @ [''pymod'', '''']"
    by (simp add: logger_chain.simps parent_name_def)
  define st0 where "st0 = \<lparr>ls_loggers = \<lambda>_. new_logger, ls_next = 1\<rparr>"
  have new: "ls_loggers st0 n = new_logger" "ls_next st0 = 1" for n by (simp_all add: st0_def)
  have "prints (configure_all [(Level_Name ''INFO'', False, True, None), (Level_Name ''verbose'', True, True, None)]
      (import_package st0)) ''pymod.wire'' 10 = [stream_handler 3 False None, stream_handler 3 False None]"
    using logging_configured [OF new(1) new(1) name, of 10
        "[(Level_Name ''INFO'', False, True, None), (Level_Name ''verbose'', True, True, None)]"]
    by (simp add: Let_def new LEVELS_def numeral_3_eq_3) (simp add: new_logger_def)
  then show ?thesis by (simp add: st0_def)
qed

end
