(* ===== verification/Spec2Isabelle.thy ===== *)
theory Spec2Isabelle
  imports Server_Lifecycle Guide_Laws Tcp_System Example_Server Factories Logging Log_Handlers
begin

text \<open>
  A verification development for \<open>pymod\<close>, a Modbus driver in Python (\<open>src/src/pymod\<close>): an asynchronous and a
  synchronous client, three transports (Modbus TCP, RTU over a serial line, RTU over TCP), a TCP server,
  and a command line with a simulator and an interactive guide.

  \<^bold>\<open>How the program works.\<close>  A batch of read or write items goes through the planner, which merges, splits
  and encodes it into requests of the protocol (PDUs), and through the client, which sends each PDU over
  a transport with retries.  A transport frames the PDU (MBAP for TCP, address and CRC for RTU), exchanges
  it, and checks the answer.  A server reads frames from a stream, decodes requests, calls the host's
  callbacks and answers; the planner decodes the answers into typed values per item.  The command line
  builds items, clients and the simulator from its options.

  \<^bold>\<open>Conventions.\<close>  A call that may raise returns \<open>py_exn + 'a\<close> (theory \<open>Errors\<close>); a call with state takes the
  state and returns the result with the new state, kept also when it raises (theory \<open>Effects\<close>).  Bytes are
  \<open>8 word\<close>, Python's integers \<open>int\<close>, dictionaries maps, floats IEEE-754 bit patterns (\<open>Py_Float\<close>) or, for
  times, rationals.  Concurrency is a step relation whose steps are the code between two awaits.  The texts
  of messages and the calls that log are left out.  Every loop is a total function: by recursion on
  its data, with a measure, or on a list of attempts, so no fuel is used.

  \<^bold>\<open>Theories, in the order of the code.\<close>
  \<^item> \<open>Pymod_Prelude\<close>, \<open>Py_Runtime\<close>, \<open>Py_Text\<close>: shared lemmas, and what the code uses of Python's lists, bytes,
    \<open>struct\<close>, strings and integer literals.
  \<^item> \<open>Errors\<close> (\<open>errors.py\<close>), \<open>Types\<close> (\<open>_types.py\<close>): the exception classes with \<open>isinstance\<close>, items and results.
  \<^item> \<open>Pdu\<close>, \<open>Pdu_Laws\<close> (\<open>protocol/pdu.py\<close>): both directions of FC01-06, 15 and 16, exceptions, the registry of
    custom codes.  Round trips of requests and responses, and what the decoders raise on any bytes.
  \<^item> \<open>Adu_Tcp\<close>, \<open>Adu_Rtu\<close> (\<open>protocol/adu_tcp.py\<close>, \<open>adu_rtu.py\<close>): frames; the table-driven CRC is the bitwise one,
    and any change of one byte is detected.
  \<^item> \<open>Codec\<close>, \<open>Codec_Laws\<close>, \<open>Py_Float\<close>, \<open>Py_Float_Laws\<close> (\<open>codec/\<close>): layouts, typed values and bits of registers,
    against the numbers that integers and IEEE-754 floats denote.
  \<^item> \<open>Planner\<close>, \<open>Planner_Reads\<close>, \<open>Planner_Writes\<close> (\<open>planner.py\<close>): plans are exact and minimal, results are per
    item, one bad address aborts the batch.
  \<^item> \<open>Mbap_Stream\<close>, \<open>Server\<close>, \<open>Server_Laws\<close>, \<open>Host_Store\<close>, \<open>Server_Lifecycle\<close> (\<open>server.py\<close>): requests and the read
    loop of a connection, stream segmentation, pipelining, authorization; the locale \<open>host_store\<close> states
    what a host's callbacks promise; start, stop and admission as steps.
  \<^item> \<open>Retry\<close>, \<open>Client\<close>, \<open>Client_Laws\<close> (\<open>retry.py\<close>, \<open>client.py\<close>, \<open>transport/base.py\<close>): delays, the attempt loop over
    any transport and world, batches, the facade.
  \<^item> \<open>Transport_Contract\<close>, \<open>Store_Client\<close>: what a client needs from a transport, as the locales \<open>modbus_transport\<close>
    (all errors are Modbus errors) and \<open>reaching\<close> (answers come from a given device), and inside \<open>host_store\<close>
    what a client that reaches such a server reads and writes.  Every transport below is an instance.
  \<^item> \<open>Rtu_Response\<close>, \<open>Rtu_Over_Tcp\<close>, \<open>Serial\<close>, \<open>Tcp_Transport\<close>, \<open>Tcp_Laws\<close> (\<open>transport/\<close>): the response readers
    over any \<open>read_exactly\<close> (locales \<open>sized_reader\<close> and \<open>exact_reader\<close>), the two transports under a lock
    (the serial one also on a port that records what is sent and read), and the multiplexing TCP transport
    as a step relation with its invariants.
  \<^item> \<open>Tcp_Session\<close>, \<open>Gateway\<close>, \<open>Factories\<close>: the calls of the TCP transport from beginning to end as runs of its
    steps; an RTU-over-TCP gateway and a TCP connection in front of a server; the factories of the clients
    over the three transports, and \<open>with\<close> on the facade.
  \<^item> \<open>Tcp_System\<close>: the TCP transport and the server together, with bytes in flight in both directions; each
    returned response is what the server answered to that request.
  \<^item> \<open>Simulator\<close>, \<open>Cli\<close>, \<open>Cli_Laws\<close>, \<open>Cli_Options\<close>, \<open>Cli_Main\<close> (\<open>cli.py\<close>): the store of \<open>pymod serve\<close> as an
    instance of \<open>host_store\<close>, its initial state from the options (locale \<open>value_syntax\<close>), items, output and
    exit codes of the commands, the options, and \<open>main\<close>.
  \<^item> \<open>Guide\<close>, \<open>Guide_Laws\<close> (\<open>_guide.py\<close>): the wizard over a list of inputs; its namespaces, and that the
    command it shows is parsed to what it runs.
  \<^item> \<open>Example_Server\<close> (\<open>src/examples\<close>): the example server as another instance of \<open>host_store\<close>, and the poll loop.
  \<^item> \<open>Logging\<close>, \<open>Log_Handlers\<close> (\<open>logging.py\<close>, \<open>__init__.py\<close>): JSON lines, and which handlers print a record after
    any calls of \<open>configure\<close>.
  \<^item> This theory: reads and writes of a client end to end against the simulator, and the poll loop against the
    example server.

  \<^bold>\<open>Parameters and hypotheses.\<close>  The host's callbacks, the serial port and clock, the network during a call,
  the world that a request meets, the completion order of a batch, and the parsing and printing of float
  texts are arguments of the definitions.  Theorems about them assume what they name: callbacks raise
  one-byte codes, waits are finite floats, a transport delivers the device's answer or a Modbus error,
  the text of a float is read back as that float and is printable, and, in \<open>Tcp_System\<close>, no transaction id
  has been used twice on the connections (the ids wrap around after 65536 calls).  \<open>KeyboardInterrupt\<close> and \<open>SystemExit\<close> are raised by the
  command line only, so \<open>except Exception\<close> in the library catches whatever the model raises there.  Each such theorem is
  followed by an instance.

  \<^bold>\<open>Not modelled.\<close>  The places where the library logs, and the plain text formatter; help texts and the rest of
  \<open>argparse\<close> (abbreviated options, \<open>--option=value\<close>); the texts of prompts and messages; sockets, threads and
  executors below the transports; re-exports in the packages' \<open>__init__.py\<close>; of the examples the serial poll
  loop and the endless part of the loops.  Text is ASCII, in \<open>Logging\<close> code points up to 255.
\<close>

section \<open>From the client to the simulator\<close>

lemma serve_server_fields:
  "serve_server readonly unit_id max_connections = Inr srv \<Longrightarrow>
     srv_on_read srv = sim_read \<and> srv_on_write srv = (if readonly then None else Some sim_write) \<and> srv_unit_id srv = unit_id"
  by (auto simp: serve_server_def make_server_def split: if_splits)

text \<open>
  C1: reads end to end.  A client reads a batch of valid, addressable items from the simulator over any
  transport that reaches it (locale \<open>reaching\<close>: in the worlds it keeps within, an exchange gives the
  simulator's response or a Modbus error), with retries, in any completion order.  The batch returns one
  result per item: either all cells of the item exist and the result is the item's typed value in the
  simulator's store, or the item is reported as failed, with \<open>IllegalDataAddress\<close> and the batch asks for a cell
  of the item's area that does not exist, or with an error that the transport raised.  In particular no
  item ever gets data that is not in the store.
\<close>

theorem client_reads_simulator:
  assumes srv: "serve_server readonly unit_id max_connections = Inr srv" "unit_id \<in> {None, Some uid}"
    and typed: "sim.typed st" and tr: "reaching (cl_transport cl) good uid timeout (\<lambda>req. fst (dispatch srv uid req st))"
    and keeps: "\<And>d w. good w \<Longrightarrow> good (sleep d w)" and worlds: "\<And>i. good (worlds i)"
    and policy: "finite_delays policy" "1 \<le> max_attempts policy"
    and valid: "\<forall>it \<in> set items. validate_read_item it = Inr ()"
    and addr: "\<forall>it \<in> set items. 0 \<le> item_start it \<and> item_start it + item_count it \<le> 0x10000"
  shows "\<exists>rs. client_read sleep cl items (Some uid) (Some timeout) (Some policy) worlds completion = Inr rs \<and>
    length rs = length items \<and>
    (\<forall>j < length items. let it = items ! j in
       (\<forall>x \<in> item_units it. sim_store st (item_area it) x \<noteq> None) \<and>
         item_value (\<lambda>x. the (sim_store st (item_area it) x)) it = Inr (rs ! j) \<or>
       (\<exists>e. rs ! j = \<lparr>rr_item = it, rr_values = [], rr_ok = False, rr_error = Some e\<rparr> \<and>
         (e = illegal_data_address \<and> (\<exists>x \<in> requested (item_area it) items. sim_store st (item_area it) x = None) \<or>
          (\<exists>req w. good w \<and> fst (tr_send_and_receive (cl_transport cl) req uid timeout w) = Inl e))))"
  using sim.client_reads_store [OF _ _ typed tr keeps worlds policy valid addr] serve_server_fields [OF srv(1)] srv(2)
  by (simp add: item_served_def Let_def)

definition demo_server :: "sim_state server" where
  "demo_server = \<lparr>srv_on_read = sim_read, srv_on_write = Some sim_write, srv_unit_id = None, srv_max_connections = 1\<rparr>"

definition demo_state :: sim_state where
  "demo_state = sim_set HOLDING_REGISTER 0 (PInt 7) sim_init"

lemma demo_server_made: "serve_server False None 1 = Inr demo_server"
  by (simp add: serve_server_def make_server_def demo_server_def)

lemma demo_typed: "sim.typed demo_state"
proof -
  have "sim_store sim_init a x = None" for a x by (cases a) (simp_all add: sim_init_def)
  then have "sim_store demo_state a x = (if a = HOLDING_REGISTER \<and> x = 0 then Some (PInt 7) else None)" for a x
    unfolding demo_state_def sim_store_set by simp
  then show ?thesis by (auto simp: sim.typed_def split: if_splits)
qed

lemma finite_default_delays: "finite_delays default_retry" "1 \<le> max_attempts default_retry"
  by (auto simp: finite_delays_def default_retry_def FLOAT_OVERFLOW_def)

theorem client_reads_simulator_witness:
  "\<exists>rs. client_read (\<lambda>_ w. w) (make_client (gateway_transport demo_server) 1 1 None)
     [Coil 0 1, Holding (default_reg 0 1)] (Some 1) (Some 1) (Some default_retry) (\<lambda>_. (rot_init, demo_state)) [] = Inr rs \<and>
     length rs = 2"
proof -
  have "gateway_good demo_server 1 demo_state (rot_init, demo_state)"
    using sim.store_serves_reads [of demo_server 1 demo_state] demo_typed
    by (auto simp: gateway_good_def rot_init_def unread_def rot_inv_def demo_server_def)
  moreover have "reaching (cl_transport (make_client (gateway_transport demo_server) 1 1 None)) (gateway_good demo_server 1 demo_state) 1 1
      (\<lambda>req. fst (dispatch demo_server 1 req demo_state))"
    using gateway.reaching_axioms by (simp add: make_client_def)
  ultimately show ?thesis
    using client_reads_simulator [OF demo_server_made _ demo_typed _ _ _ finite_default_delays,
      of 1 "make_client (gateway_transport demo_server) 1 1 None" "gateway_good demo_server 1 demo_state" 1 "\<lambda>_ w. w"
        "\<lambda>_. (rot_init, demo_state)" "[Coil 0 1, Holding (default_reg 0 1)]" "[]"]
    by (auto simp: validate_read_item_def default_reg_def)
qed

text \<open>
  C2: writes end to end.  For a write item whose cells lie in the address space, the requests of its plan,
  handed to a writable simulator in order, are all acknowledged; afterwards the store holds exactly
  the item's encoded cells from its start address on, every other cell of every area is unchanged,
  and the store is still one that reads can serve.  A read-only simulator refuses each of them and
  changes nothing.
\<close>

theorem client_writes_simulator:
  assumes srv: "serve_server readonly unit_id max_connections = Inr srv" "unit_id \<in> {None, Some uid}"
    and plan: "plan_writes [it] = Inr chunks" and cells: "item_cells it = Inr (a, s, vs)"
    and range: "0 \<le> s" "s + int (length vs) \<le> 0x10000" and typed: "sim.typed st"
  shows "\<exists>st'. serve_chunks srv uid chunks st =
      (map (\<lambda>_. if readonly then Inl (mk_response IllegalFunction None) else Inr ()) chunks, st') \<and>
    sim.typed st' \<and>
    (if readonly then st' = st
     else \<forall>b x. sim_store st' b x =
       (if b = a \<and> s \<le> x \<and> x < s + int (length vs) then Some (vs ! nat (x - s)) else sim_store st b x))"
proof (cases readonly)
  case True
  have "plan_write_item 0 it = Inr chunks"
    using plan by (cases "plan_write_item 0 it") (auto simp: plan_writes_def)
  from plan_write_item_effect(2) [OF this cells range] writes_refused [of srv uid chunks st] True typed
    serve_server_fields [OF srv(1)] srv(2) show ?thesis by auto
next
  case False
  with sim.client_writes_store [OF _ _ plan cells range typed] serve_server_fields [OF srv(1)] srv(2) show ?thesis by auto
qed

theorem client_writes_simulator_witness:
  "\<exists>st'. serve_chunks demo_server 1 [coil_chunk 0 5 [True]] demo_state = ([Inr ()], st') \<and> sim_store st' COIL 5 = Some (PBool True)"
proof -
  have "plan_writes [WriteCoils 5 [True]] = Inr [coil_chunk 0 5 [True]]"
    by (simp add: plan_writes_def split_values.simps MAX_WRITE_COILS_def Let_def)
  from client_writes_simulator [OF demo_server_made _ this _ _ _ demo_typed, of 1 COIL 5 "[PBool True]"] obtain st' where
    "serve_chunks demo_server 1 [coil_chunk 0 5 [True]] demo_state = ([Inr ()], st')"
    "\<forall>b x. sim_store st' b x = (if b = COIL \<and> 5 \<le> x \<and> x < 6 then Some ([PBool True] ! nat (x - 5)) else sim_store demo_state b x)"
    by auto
  moreover from this(2) have "sim_store st' COIL 5 = Some (PBool True)" by (simp only: ) simp
  ultimately show ?thesis by blast
qed

section \<open>The example programs\<close>

text \<open>
  C4: the poll loop of \<open>poll_loop_tcp.py\<close> against the server of \<open>sim_server.py\<close>.  Over any transport that reaches
  the server in its initial state, one round prints four lines, and each is the documented one (the
  int16 ladder, the input registers, the alternating coils, every third discrete input) or reports an
  error that the transport raised: no address is missing, and no other values appear.
\<close>

theorem poll_shows_documented_data:
  assumes srv: "example_server = Inr srv" and st: "build_state = Inr st"
    and cl: "cl_unit_id cl = uid" "cl_timeout_s cl = timeout" "cl_retry cl = policy"
    and tr: "reaching (cl_transport cl) good uid timeout (\<lambda>req. fst (dispatch srv uid req st))"
    and keeps: "\<And>d w. good w \<Longrightarrow> good (sleep d w)" and worlds: "\<And>i. good (worlds i)"
    and policy: "finite_delays policy" "1 \<le> max_attempts policy"
  shows "\<exists>lines. bindE (client_read sleep cl poll_items None None None worlds completion) poll_round = Inr lines \<and>
    length lines = 4 \<and> (\<forall>j < 4. lines ! j = poll_expected ! j \<or>
      (\<exists>label e. lines ! j = Poll_Error label (Some e) \<and>
         (\<exists>req w. good w \<and> fst (tr_send_and_receive (cl_transport cl) req uid timeout w) = Inl e)))"
proof -
  have doc: "example_store st a x = documented_cell a x" for a x
    by (rule build_state_documented) (metis st sum.inject(2))
  have fields: "srv_on_read srv = example_on_read" "srv_unit_id srv \<in> {None, Some uid}"
    using srv by (auto simp: example_server_def make_server_def)
  have same: "client_read sleep cl poll_items None None None worlds completion =
      client_read sleep cl poll_items (Some uid) (Some timeout) (Some policy) worlds completion"
    by (simp add: client_read_def make_pdu_executor_def cl)
  have mapped: "\<not> (\<exists>x \<in> requested (item_area it) poll_items. example_store st (item_area it) x = None)" for it
    using poll_documented(1) [OF doc] by (auto simp: requested_def)
  define raised where "raised e \<longleftrightarrow> (\<exists>req w. good w \<and> fst (tr_send_and_receive (cl_transport cl) req uid timeout w) = Inl e)" for e
  have "\<exists>rs. client_read sleep cl poll_items (Some uid) (Some timeout) (Some policy) worlds completion = Inr rs \<and>
      length rs = length poll_items \<and>
      (\<forall>j < length poll_items. item_served (example_store st) raised poll_items (poll_items ! j) (rs ! j))"
    unfolding raised_def
    by (rule example.client_reads_store [OF fields documented_typed [OF doc] tr _ worlds policy poll_items_valid]) (rule keeps)
  then obtain rs where rs: "client_read sleep cl poll_items None None None worlds completion = Inr rs" "length rs = length poll_items"
    and each: "\<forall>j < length poll_items. item_served (example_store st) raised poll_items (poll_items ! j) (rs ! j)"
    unfolding same by blast
  have len: "length poll_items = 4" by (simp add: poll_items_def)
  have item: "item_value (\<lambda>x. the (example_store st (item_area (poll_items ! j)) x)) (poll_items ! j) = Inr (rs ! j) \<or>
      (\<exists>e. rs ! j = \<lparr>rr_item = poll_items ! j, rr_values = [], rr_ok = False, rr_error = Some e\<rparr> \<and> raised e)" if "j < 4" for j
    using each that mapped unfolding len item_served_def by blast
  from poll_round_lines [OF rs(2) [unfolded len], of raised] item poll_documented(2) [OF doc] rs(1)
  show ?thesis unfolding raised_def [symmetric] by simp metis
qed

theorem poll_shows_documented_data_witness:
  "\<exists>srv st lines. example_server = Inr srv \<and> build_state = Inr st \<and>
     bindE (client_read (\<lambda>_ w. w) (make_client (tcp_link srv) 1 1 (Some (default_retry\<lparr>max_attempts := 1\<rparr>))) poll_items
       None None None (\<lambda>_. (tcp_init, st)) []) poll_round = Inr lines \<and> length lines = 4"
proof -
  obtain srv where srv: "example_server = Inr srv" "srv_on_read srv = example_on_read" "srv_unit_id srv = None"
    by (simp add: example_server_def make_server_def)
  obtain st where st: "build_state = Inr st" "example.typed st"
    by (rule build_state_documented) (use documented_typed in blast)
  let ?cl = "make_client (tcp_link srv) 1 1 (Some (default_retry\<lparr>max_attempts := 1\<rparr>))"
  have "link_good srv 1 st (tcp_init, st)"
    using example.store_serves_reads [of srv 1 st] srv st session_init by (simp add: link_good_def) (simp add: tcp_init_def)
  moreover have "reaching (cl_transport ?cl) (link_good srv 1 st) 1 1 (\<lambda>req. fst (dispatch srv 1 req st))"
    using tcp_link.reaching_axioms by (simp add: make_client_def)
  moreover have "finite_delays (default_retry\<lparr>max_attempts := 1\<rparr>)" by (simp add: finite_delays_def)
  ultimately show ?thesis
    using poll_shows_documented_data [OF srv(1) st(1) _ _ _ \<open>reaching _ _ _ _ _\<close>, of "default_retry\<lparr>max_attempts := 1\<rparr>" "\<lambda>_ w. w"
        "\<lambda>_. (tcp_init, st)" "[]"] srv(1) st(1)
    by (auto simp: make_client_def)
qed

end
